(* ===== verification/Prelude.thy ===== *)
theory Prelude
  imports Main "HOL-Library.Word"
begin

text \<open>
  Shared vocabulary of the development.

  \<^item> The result of a Rust computation (\<open>outcome\<close>): a value, an error of the
    function's \<open>Result\<close> type, a panic, or (for the one loop of the program that need
    not end) the exhaustion of the fuel the model gives it.
  \<^item> Computations that also change the state of an untrusted or external party
    (\<open>prog\<close>).
  \<^item> Machine integers: \<open>u64\<close> and \<open>usize\<close> values are natural numbers, and every
    arithmetic operation of the source that can leave the range of \<open>u64\<close> is written
    with one of the checked operations below; leaving the range is a panic (overflow checks
    are on).
  \<^item> Slices, vectors and the byte-level file semantics (\<open>pwrite\<close>, \<open>resize_bytes\<close>)
    every component is specified against, and the generic lemmas about them.
\<close>

named_theorems outcome_simps \<open>unfolding of outcomes and checked arithmetic\<close>
named_theorems bytes_simps \<open>lengths and elements of byte lists\<close>

section \<open>Results, errors, panics\<close>

datatype ('a, 'e) outcome = Ok 'a | Err 'e | Panic | OutOfFuel

fun and_then :: "('a, 'e) outcome \<Rightarrow> ('a \<Rightarrow> ('b, 'e) outcome) \<Rightarrow> ('b, 'e) outcome" where
  "and_then (Ok a) f = f a"
| "and_then (Err e) f = Err e"
| "and_then Panic f = Panic"
| "and_then OutOfFuel f = OutOfFuel"

fun map_err :: "('e \<Rightarrow> 'd) \<Rightarrow> ('a, 'e) outcome \<Rightarrow> ('a, 'd) outcome" where
  "map_err g (Ok a) = Ok a"
| "map_err g (Err e) = Err (g e)"
| "map_err g Panic = Panic"
| "map_err g OutOfFuel = OutOfFuel"

definition ok_or :: "'e \<Rightarrow> 'a option \<Rightarrow> ('a, 'e) outcome" where
  "ok_or e x = (case x of None \<Rightarrow> Err e | Some a \<Rightarrow> Ok a)"

definition unwrap :: "'a option \<Rightarrow> ('a, 'e) outcome" where
  "unwrap x = (case x of None \<Rightarrow> Panic | Some a \<Rightarrow> Ok a)"

definition assertion :: "bool \<Rightarrow> (unit, 'e) outcome" where
  "assertion b = (if b then Ok () else Panic)"

text \<open>\<open>debug_assert!\<close> panics in a build with debug assertions and is nothing otherwise.\<close>

definition debug_assert :: "bool \<Rightarrow> bool \<Rightarrow> (unit, 'e) outcome" where
  "debug_assert dbg b = (if dbg \<and> \<not> b then Panic else Ok ())"

text \<open>\<open>Result::unwrap\<close> and \<open>Result::expect\<close>.\<close>

fun expect :: "('a, 'e) outcome \<Rightarrow> ('a, 'f) outcome" where
  "expect (Ok a) = Ok a"
| "expect (Err e) = Panic"
| "expect Panic = Panic"
| "expect OutOfFuel = OutOfFuel"

fun is_ok :: "('a, 'e) outcome \<Rightarrow> bool" where
  "is_ok (Ok _) = True"
| "is_ok _ = False"

text \<open>A fallible map over a list, stopping at the first failure (\<open>collect\<close> into \<open>Result\<close>).\<close>

fun try_map :: "('a \<Rightarrow> ('b, 'e) outcome) \<Rightarrow> 'a list \<Rightarrow> ('b list, 'e) outcome" where
  "try_map f [] = Ok []"
| "try_map f (x # xs) = and_then (f x) (\<lambda>y. and_then (try_map f xs) (\<lambda>ys. Ok (y # ys)))"

fun try_fold :: "('b \<Rightarrow> 'a \<Rightarrow> ('b, 'e) outcome) \<Rightarrow> 'b \<Rightarrow> 'a list \<Rightarrow> ('b, 'e) outcome" where
  "try_fold f acc [] = Ok acc"
| "try_fold f acc (x # xs) = and_then (f acc x) (\<lambda>acc'. try_fold f acc' xs)"

lemma and_then_Ok_iff:
  "and_then m f = Ok b \<longleftrightarrow> (\<exists>a. m = Ok a \<and> f a = Ok b)"
  by (cases m) auto

lemma and_then_Err_iff:
  "and_then m f = Err e \<longleftrightarrow> m = Err e \<or> (\<exists>a. m = Ok a \<and> f a = Err e)"
  by (cases m) auto

lemma map_err_Ok_iff [simp]: "map_err g m = Ok a \<longleftrightarrow> m = Ok a"
  by (cases m) auto

lemma ok_or_simps [simp]: "ok_or e None = Err e" "ok_or e (Some a) = Ok a"
  by (simp_all add: ok_or_def)

lemma unwrap_simps [simp]: "unwrap None = Panic" "unwrap (Some a) = Ok a"
  by (simp_all add: unwrap_def)

lemma ok_or_Ok_iff [simp]: "ok_or e x = Ok a \<longleftrightarrow> x = Some a"
  by (cases x) auto

lemma assertion_simps [simp]: "assertion True = Ok ()" "assertion False = Panic"
  by (simp_all add: assertion_def)

lemma debug_assert_release [simp]: "debug_assert False b = Ok ()"
  by (simp add: debug_assert_def)

lemma debug_assert_True [simp]: "debug_assert dbg True = Ok ()"
  by (simp add: debug_assert_def)

lemma try_map_Ok: "(\<And>x. x \<in> set xs \<Longrightarrow> f x = Ok (g x)) \<Longrightarrow> try_map f xs = Ok (map g xs)"
  by (induction xs) auto

lemma try_map_Ok_iff:
  "try_map f xs = Ok ys \<longleftrightarrow> list_all2 (\<lambda>x y. f x = Ok y) xs ys"
  by (induction xs arbitrary: ys) (auto simp: and_then_Ok_iff list_all2_Cons1)

lemma try_map_map: "try_map f (map g xs) = try_map (\<lambda>x. f (g x)) xs"
  by (induction xs) simp_all

text \<open>\<open>std::io::Error\<close>: an operating-system error number or a kind; messages are left out.\<close>

datatype errno = EIO | ENOENT | EINVAL | EACCES | EFBIG | ENODATA | EBADF | EOVERFLOW | ENOSYS
  | OtherErrno int

datatype error_kind = InvalidData | InvalidInput | UnexpectedEof | Other

datatype io_error = OsError errno | KindError error_kind

text \<open>The binder status codes the services use.\<close>

datatype StatusCode = INVALID_OPERATION | FAILED_TRANSACTION | UNKNOWN_ERROR | DEAD_OBJECT | BAD_VALUE | PERMISSION_DENIED

section \<open>Computations with state\<close>

type_synonym ('s, 'a, 'e) prog = "'s \<Rightarrow> ('a, 'e) outcome \<times> 's"

definition ret :: "('a, 'e) outcome \<Rightarrow> ('s, 'a, 'e) prog" where
  "ret r = (\<lambda>s. (r, s))"

definition bind_prog :: "('s, 'a, 'e) prog \<Rightarrow> ('a \<Rightarrow> ('s, 'b, 'e) prog) \<Rightarrow> ('s, 'b, 'e) prog" where
  "bind_prog m f = (\<lambda>s. case m s of
      (Ok a, s') \<Rightarrow> f a s'
    | (Err e, s') \<Rightarrow> (Err e, s')
    | (Panic, s') \<Rightarrow> (Panic, s')
    | (OutOfFuel, s') \<Rightarrow> (OutOfFuel, s'))"

definition map_err_prog :: "('e \<Rightarrow> 'd) \<Rightarrow> ('s, 'a, 'e) prog \<Rightarrow> ('s, 'a, 'd) prog" where
  "map_err_prog g m = (\<lambda>s. case m s of (r, s') \<Rightarrow> (map_err g r, s'))"

lemma ret_simp [simp]: "ret r s = (r, s)"
  by (simp add: ret_def)

lemma bind_prog_Ok [simp]: "m s = (Ok a, s') \<Longrightarrow> bind_prog m f s = f a s'"
  by (simp add: bind_prog_def)

lemma bind_prog_Err [simp]: "m s = (Err e, s') \<Longrightarrow> bind_prog m f s = (Err e, s')"
  by (simp add: bind_prog_def)

lemma bind_prog_Panic [simp]: "m s = (Panic, s') \<Longrightarrow> bind_prog m f s = (Panic, s')"
  by (simp add: bind_prog_def)

lemma bind_prog_OutOfFuel [simp]: "m s = (OutOfFuel, s') \<Longrightarrow> bind_prog m f s = (OutOfFuel, s')"
  by (simp add: bind_prog_def)

lemma bind_prog_ret [simp]: "bind_prog (ret (Ok a)) f = f a"
  by (simp add: bind_prog_def ret_def)

lemma bind_prog_Ok_iff:
  "bind_prog m f s = (Ok b, t) \<longleftrightarrow> (\<exists>a s'. m s = (Ok a, s') \<and> f a s' = (Ok b, t))"
  by (auto simp: bind_prog_def split: prod.splits outcome.splits)

lemma bind_prog_transfer:
  "bind_prog m f s = (r, t) \<Longrightarrow>
   (\<And>a s'. m s = (Ok a, s') \<Longrightarrow> f a s' = (r, t) \<Longrightarrow> g a s' = (r, t)) \<Longrightarrow> bind_prog m g s = (r, t)"
  by (auto simp: bind_prog_def split: prod.splits outcome.splits)

text \<open>A property of the state that both parts keep is kept by the sequence.\<close>

lemma bind_prog_state:
  "P (snd (m s)) \<Longrightarrow> (\<And>a t. P t \<Longrightarrow> P (snd (f a t))) \<Longrightarrow> P (snd (bind_prog m f s))"
  by (cases "m s"; cases "fst (m s)") (simp_all add: bind_prog_def)

lemma map_err_prog_simp: "map_err_prog g m s = (map_err g (fst (m s)), snd (m s))"
  by (simp add: map_err_prog_def split: prod.splits)

lemma snd_map_err_prog [simp]: "snd (map_err_prog g m s) = snd (m s)"
  by (simp add: map_err_prog_simp)

lemma map_err_prog_Ok_iff: "map_err_prog g m s = (Ok a, s') \<longleftrightarrow> m s = (Ok a, s')"
  by (cases "m s") (auto simp: map_err_prog_def)

section \<open>Machine integers\<close>

type_synonym u8 = "8 word"
type_synonym u32 = "32 word"
type_synonym bytes = "u8 list"

definition u64_limit :: nat where "u64_limit = 2 ^ 64"
definition i64_max :: nat where "i64_max = 2 ^ 63 - 1"
definition i32_max :: nat where "i32_max = 2 ^ 31 - 1"

definition u64_add :: "nat \<Rightarrow> nat \<Rightarrow> (nat, 'e) outcome" where
  "u64_add a b = (if a + b < u64_limit then Ok (a + b) else Panic)"

definition u64_sub :: "nat \<Rightarrow> nat \<Rightarrow> (nat, 'e) outcome" where
  "u64_sub a b = (if b \<le> a then Ok (a - b) else Panic)"

definition u64_mul :: "nat \<Rightarrow> nat \<Rightarrow> (nat, 'e) outcome" where
  "u64_mul a b = (if a * b < u64_limit then Ok (a * b) else Panic)"

definition u64_div :: "nat \<Rightarrow> nat \<Rightarrow> (nat, 'e) outcome" where
  "u64_div a b = (if b = 0 then Panic else Ok (a div b))"

definition u64_rem :: "nat \<Rightarrow> nat \<Rightarrow> (nat, 'e) outcome" where
  "u64_rem a b = (if b = 0 then Panic else Ok (a mod b))"

definition u64_pow :: "nat \<Rightarrow> nat \<Rightarrow> (nat, 'e) outcome" where
  "u64_pow a b = (if a ^ b < u64_limit then Ok (a ^ b) else Panic)"

definition saturating_add :: "nat \<Rightarrow> nat \<Rightarrow> nat" where
  "saturating_add a b = min (a + b) (u64_limit - 1)"

text \<open>\<open>saturating_sub\<close> on unsigned integers is subtraction on natural numbers.\<close>

definition saturating_sub :: "nat \<Rightarrow> nat \<Rightarrow> nat" where
  "saturating_sub a b = a - b"

text \<open>The casts \<open>n as i32\<close> of a \<open>usize\<close> and \<open>i as usize\<close> of an \<open>i32\<close> or \<open>i64\<close>.\<close>

definition as_i32 :: "nat \<Rightarrow> int" where
  "as_i32 n = sint (of_nat n :: 32 word)"

definition as_usize :: "int \<Rightarrow> nat" where
  "as_usize i = unat (of_int i :: 64 word)"

lemma as_i32_id [simp]: "n \<le> i32_max \<Longrightarrow> as_i32 n = int n"
  by (simp add: as_i32_def i32_max_def signed_of_nat signed_take_bit_int_eq_self)

lemma as_usize_int [simp]: "n < u64_limit \<Longrightarrow> as_usize (int n) = n"
  by (simp add: as_usize_def u64_limit_def unat_of_nat)

lemma u64_add_Ok [simp]: "a + b < u64_limit \<Longrightarrow> u64_add a b = Ok (a + b)"
  by (simp add: u64_add_def)

lemma u64_sub_Ok [simp]: "b \<le> a \<Longrightarrow> u64_sub a b = Ok (a - b)"
  by (simp add: u64_sub_def)

lemma u64_mul_Ok [simp]: "a * b < u64_limit \<Longrightarrow> u64_mul a b = Ok (a * b)"
  by (simp add: u64_mul_def)

lemma u64_div_Ok [simp]: "0 < b \<Longrightarrow> u64_div a b = Ok (a div b)"
  by (simp add: u64_div_def)

lemma u64_rem_Ok [simp]: "0 < b \<Longrightarrow> u64_rem a b = Ok (a mod b)"
  by (simp add: u64_rem_def)

lemma u64_pow_Ok [simp]: "a ^ b < u64_limit \<Longrightarrow> u64_pow a b = Ok (a ^ b)"
  by (simp add: u64_pow_def)

lemma i64_max_less_u64_limit: "i64_max < u64_limit"
  by (simp add: i64_max_def u64_limit_def)

lemmas [outcome_simps] =
  u64_add_def u64_sub_def u64_mul_def u64_div_def u64_rem_def u64_pow_def
  and_then_Ok_iff and_then_Err_iff

section \<open>Slices and vectors\<close>

definition slice_range :: "'a list \<Rightarrow> nat \<Rightarrow> nat \<Rightarrow> ('a list, 'e) outcome" where
  "slice_range xs a b = (if a \<le> b \<and> b \<le> length xs then Ok (take (b - a) (drop a xs)) else Panic)"

text \<open>\<open>dst[a..b].copy_from_slice(src)\<close>: panics unless the range fits and the lengths agree.\<close>

definition copy_into :: "'a list \<Rightarrow> nat \<Rightarrow> nat \<Rightarrow> 'a list \<Rightarrow> ('a list, 'e) outcome" where
  "copy_into dst a b src =
     (if a \<le> b \<and> b \<le> length dst \<and> length src = b - a then Ok (take a dst @ src @ drop b dst)
      else Panic)"

definition vec_resize :: "nat \<Rightarrow> 'a \<Rightarrow> 'a list \<Rightarrow> 'a list" where
  "vec_resize n v xs = take n xs @ replicate (n - length xs) v"

definition index_vec :: "'a list \<Rightarrow> nat \<Rightarrow> ('a, 'e) outcome" where
  "index_vec xs i = (if i < length xs then Ok (xs ! i) else Panic)"

text \<open>\<open>slice::chunks(n)\<close>: consecutive pieces of \<open>n\<close> elements, the last one possibly shorter.
  Every call in the source has a non-zero constant \<open>n\<close>; the standard library panics on zero.\<close>

function chunks :: "nat \<Rightarrow> 'a list \<Rightarrow> 'a list list" where
  "chunks n xs = (if xs = [] \<or> n = 0 then [] else take n xs # chunks n (drop n xs))"
  by pat_completeness auto
termination
  by (relation "measure (\<lambda>(n, xs). length xs)") (auto simp: neq_Nil_conv)

declare chunks.simps [simp del]

lemma length_vec_resize [simp, bytes_simps]: "length (vec_resize n v xs) = n"
  by (simp add: vec_resize_def)

lemma nth_vec_resize:
  "i < n \<Longrightarrow> vec_resize n v xs ! i = (if i < length xs then xs ! i else v)"
  by (auto simp: vec_resize_def nth_append)

lemma vec_resize_same [simp]: "vec_resize (length xs) v xs = xs"
  by (simp add: vec_resize_def)

lemma slice_range_Ok [simp]:
  "a \<le> b \<Longrightarrow> b \<le> length xs \<Longrightarrow> slice_range xs a b = Ok (take (b - a) (drop a xs))"
  by (simp add: slice_range_def)

lemma copy_into_Ok [simp]:
  "a \<le> b \<Longrightarrow> b \<le> length dst \<Longrightarrow> length src = b - a \<Longrightarrow>
   copy_into dst a b src = Ok (take a dst @ src @ drop b dst)"
  by (simp add: copy_into_def)

lemma index_vec_Ok [simp]: "i < length xs \<Longrightarrow> index_vec xs i = Ok (xs ! i)"
  by (simp add: index_vec_def)

lemma chunks_Nil [simp]: "chunks n [] = []"
  by (simp add: chunks.simps)

lemma chunks_eq: "xs \<noteq> [] \<Longrightarrow> 0 < n \<Longrightarrow> chunks n xs = take n xs # chunks n (drop n xs)"
  by (subst chunks.simps) simp


section \<open>Division rounding up\<close>

definition ceil_div :: "nat \<Rightarrow> nat \<Rightarrow> nat" where
  "ceil_div a b = (a + b - 1) div b"

lemma ceil_div_le_iff: "0 < b \<Longrightarrow> ceil_div a b \<le> k \<longleftrightarrow> a \<le> b * k"
proof -
  assume b: "0 < b"
  have "ceil_div a b \<le> k \<longleftrightarrow> (a + b - 1) div b < Suc k"
    by (simp add: ceil_div_def less_Suc_eq_le)
  also have "\<dots> \<longleftrightarrow> a + b - 1 < b * Suc k"
    using b by (simp add: div_less_iff_less_mult mult.commute)
  also have "\<dots> \<longleftrightarrow> a \<le> b * k"
    using b by auto
  finally show ?thesis .
qed

lemma less_ceil_div_iff: "0 < b \<Longrightarrow> k < ceil_div a b \<longleftrightarrow> b * k < a"
  using ceil_div_le_iff [of b a k] by auto

lemma ceil_div_0 [simp]: "0 < b \<Longrightarrow> ceil_div 0 b = 0"
  by (simp add: ceil_div_def)

lemma ceil_div_1 [simp]: "ceil_div a (Suc 0) = a"
  by (simp add: ceil_div_def)

lemma ceil_div_eq_0_iff [simp]: "0 < b \<Longrightarrow> ceil_div a b = 0 \<longleftrightarrow> a = 0"
  using ceil_div_le_iff [of b a 0] by auto

lemma ceil_div_pos_iff [simp]: "0 < b \<Longrightarrow> 0 < ceil_div a b \<longleftrightarrow> 0 < a"
  using less_ceil_div_iff [of b 0 a] by auto

lemma ceil_div_mult [simp]: "0 < b \<Longrightarrow> ceil_div (b * k) b = k"
proof -
  assume b: "0 < b"
  show ?thesis
    using ceil_div_le_iff [OF b, of "b * k" k] less_ceil_div_iff [OF b, of "k - 1" "b * k"] b
    by (cases k) auto
qed

lemma le_mult_ceil_div: "0 < b \<Longrightarrow> a \<le> b * ceil_div a b"
  using ceil_div_le_iff [of b a "ceil_div a b"] by simp

lemma mult_ceil_div_less: "0 < b \<Longrightarrow> b * ceil_div a b < a + b"
  unfolding ceil_div_def
  by (rule le_less_trans [OF times_div_less_eq_dividend]) simp

lemma ceil_div_le_self: "0 < b \<Longrightarrow> ceil_div a b \<le> a"
  by (simp add: ceil_div_le_iff)

lemma ceil_div_mono: "0 < b \<Longrightarrow> a \<le> a' \<Longrightarrow> ceil_div a b \<le> ceil_div a' b"
  using le_mult_ceil_div [of b a'] by (simp add: ceil_div_le_iff)

lemma ceil_div_ceil_div:
  assumes "0 < b" and "0 < c"
  shows "ceil_div (ceil_div a b) c = ceil_div a (b * c)"
proof -
  have "ceil_div (ceil_div a b) c \<le> k \<longleftrightarrow> ceil_div a (b * c) \<le> k" for k
    using assms by (simp add: ceil_div_le_iff mult.assoc)
  then show ?thesis
    by (metis order_antisym order_refl)
qed

lemma ceil_div_eq_if_interval:
  assumes "0 < b" and "b * (k - 1) < a" and "a \<le> b * k" and "0 < k"
  shows "ceil_div a b = k"
  using assms ceil_div_le_iff [of b a k] less_ceil_div_iff [of b "k - 1" a] by auto

lemma ceil_div_Suc_index: "0 < b \<Longrightarrow> b * i < n \<Longrightarrow> n \<le> b * Suc i \<Longrightarrow> ceil_div n b = Suc i"
  by (rule ceil_div_eq_if_interval) auto

lemma ceil_div_max: "0 < b \<Longrightarrow> ceil_div (max a a') b = max (ceil_div a b) (ceil_div a' b)"
  using ceil_div_mono [of b a a'] ceil_div_mono [of b a' a] by (auto simp: max_def)

lemma ceil_div_step:
  assumes "0 < b" and "0 < a"
  shows "ceil_div a b = Suc (ceil_div (a - b) b)"
proof -
  have "ceil_div a b \<le> k \<longleftrightarrow> Suc (ceil_div (a - b) b) \<le> k" for k
    using assms by (cases k) (auto simp: ceil_div_le_iff)
  then show ?thesis
    by (metis order_antisym order_refl)
qed

section \<open>Chunks by index\<close>

lemma length_chunks [simp]: "0 < n \<Longrightarrow> length (chunks n xs) = ceil_div (length xs) n"
proof (induction n xs rule: chunks.induct)
  case (1 n xs)
  show ?case
  proof (cases "xs = []")
    case True
    with 1 show ?thesis by simp
  next
    case False
    with 1 have "length (chunks n xs) = Suc (ceil_div (length xs - n) n)"
      by (simp add: chunks_eq)
    also have "\<dots> = ceil_div (length xs) n"
      using False "1.prems" by (simp add: ceil_div_step [of n "length xs"])
    finally show ?thesis .
  qed
qed


lemma nth_chunks:
  "0 < n \<Longrightarrow> i < ceil_div (length xs) n \<Longrightarrow> chunks n xs ! i = take n (drop (n * i) xs)"
proof (induction n xs arbitrary: i rule: chunks.induct)
  case (1 n xs)
  then have ne: "xs \<noteq> []" by auto
  show ?case
  proof (cases i)
    case 0
    with ne 1 show ?thesis by (simp add: chunks_eq)
  next
    case (Suc j)
    with ne "1.prems" have "j < ceil_div (length (drop n xs)) n"
      by (simp add: ceil_div_step [of n "length xs"])
    with ne Suc 1 show ?thesis
      by (simp add: chunks_eq add.commute)
  qed
qed

lemma chunks_by_index:
  "0 < n \<Longrightarrow> chunks n xs = map (\<lambda>i. take n (drop (n * i) xs)) [0..<ceil_div (length xs) n]"
  by (rule nth_equalityI) (simp_all add: nth_chunks)

section \<open>Contents of files\<close>

text \<open>
  The content of a file is a byte list; reading past its end gives zeros where the source
  pads with zeros (\<open>byte_at\<close>). \<open>pwrite\<close> is the effect of a positioned write (a gap
  between the end and the offset is filled with zeros, writing nothing changes nothing),
  \<open>resize_bytes\<close> that of changing the length.
\<close>

definition zeros :: "nat \<Rightarrow> bytes" where
  "zeros n = replicate n 0"

definition byte_at :: "bytes \<Rightarrow> nat \<Rightarrow> u8" where
  "byte_at c i = (if i < length c then c ! i else 0)"

definition pwrite :: "bytes \<Rightarrow> nat \<Rightarrow> bytes \<Rightarrow> bytes" where
  "pwrite c off b =
     (if b = [] then c
      else take off c @ zeros (off - length c) @ b @ drop (off + length b) c)"

definition resize_bytes :: "nat \<Rightarrow> bytes \<Rightarrow> bytes" where
  "resize_bytes n c = vec_resize n 0 c"

lemma length_zeros [simp, bytes_simps]: "length (zeros n) = n"
  by (simp add: zeros_def)

lemma zeros_0 [simp]: "zeros 0 = []"
  by (simp add: zeros_def)

lemma nth_zeros [simp, bytes_simps]: "i < n \<Longrightarrow> zeros n ! i = 0"
  by (simp add: zeros_def)

lemma byte_at_beyond [simp]: "length c \<le> i \<Longrightarrow> byte_at c i = 0"
  by (simp add: byte_at_def)

lemma byte_at_nth: "i < length c \<Longrightarrow> byte_at c i = c ! i"
  by (simp add: byte_at_def)

lemma byte_at_Nil [simp]: "byte_at [] i = 0"
  by (simp add: byte_at_def)

lemma pwrite_Nil [simp]: "pwrite c off [] = c"
  by (simp add: pwrite_def)

lemma length_pwrite [bytes_simps]:
  "length (pwrite c off b) = (if b = [] then length c else max (length c) (off + length b))"
  by (auto simp: pwrite_def)

lemma byte_at_pwrite:
  "byte_at (pwrite c off b) i =
     (if off \<le> i \<and> i < off + length b then b ! (i - off) else byte_at c i)"
proof (cases "b = []")
  case True
  then show ?thesis by auto
next
  case False
  then show ?thesis
    by (cases "off \<le> length c") (auto simp: byte_at_def pwrite_def nth_append zeros_def min_def)
qed

lemma length_resize_bytes [simp, bytes_simps]: "length (resize_bytes n c) = n"
  by (simp add: resize_bytes_def)

lemma byte_at_resize_bytes: "byte_at (resize_bytes n c) i = (if i < n then byte_at c i else 0)"
  by (auto simp: resize_bytes_def byte_at_def nth_vec_resize)

lemma bytes_eqI:
  "length a = length b \<Longrightarrow> (\<And>i. byte_at a i = byte_at b i) \<Longrightarrow> a = b"
  by (rule nth_equalityI) (simp, metis byte_at_nth)

lemma pwrite_append:
  "pwrite (pwrite c off a) (off + length a) b = pwrite c off (a @ b)"
  by (rule bytes_eqI) (auto simp: length_pwrite byte_at_pwrite nth_append)

text \<open>The maximum of a list of values, accumulated.\<close>

lemma fold_max_le_iff:
  "fold (\<lambda>x n. max n (f x)) xs a \<le> (b :: nat) \<longleftrightarrow> a \<le> b \<and> (\<forall>x\<in>set xs. f x \<le> b)"
  by (induction xs arbitrary: a) auto

end
