(* ===== verification/AuthCommon.thy ===== *)
theory AuthCommon
  imports Prelude
begin

text \<open>
  \<^verbatim>\<open>authfs/src/common.rs\<close>: the chunk size, rounded-up division and \<open>ChunkedSizeIter\<close>,
  the iterator that cuts a byte range at the multiples of an alignment.

  The iterator's \<open>next\<close> is \<open>chunked_next\<close>; a \<open>for\<close> loop or a \<open>try_fold\<close> over it is
  \<open>chunked_try_fold\<close>, which calls \<open>next\<close> between the executions of the body as the
  source does. The lemmas show that the pieces are in order, do not cross an aligned
  boundary and cover the range exactly, and reduce the interleaved loop to a loop over the
  list of pieces (\<open>chunk_plan\<close>).
\<close>

section \<open>Definitions\<close>

definition CHUNK_SIZE :: nat where
  "CHUNK_SIZE = 4096"

definition divide_roundup :: "nat \<Rightarrow> nat \<Rightarrow> (nat, 'e) outcome" where
  "divide_roundup dividend divisor =
     and_then (u64_add dividend divisor) (\<lambda>s.
     and_then (u64_sub s 1) (\<lambda>t.
     u64_div t divisor))"

record ChunkedSizeIter =
  remaining :: nat
  offset :: nat
  alignment :: nat

definition ChunkedSizeIter_new :: "nat \<Rightarrow> nat \<Rightarrow> nat \<Rightarrow> ChunkedSizeIter" where
  "ChunkedSizeIter_new rem off al = \<lparr>remaining = rem, offset = off, alignment = al\<rparr>"

definition chunked_next ::
  "ChunkedSizeIter \<Rightarrow> ((nat \<times> nat) option \<times> ChunkedSizeIter, 'e) outcome" where
  "chunked_next it =
     (if remaining it = 0 then Ok (None, it)
      else
        and_then (u64_rem (offset it) (alignment it)) (\<lambda>r.
        and_then (u64_sub (alignment it) r) (\<lambda>space.
        let chunk_data_size = min (remaining it) space;
            retval = (offset it, chunk_data_size)
        in and_then (u64_add (offset it) chunk_data_size) (\<lambda>offset'.
           Ok (Some retval,
               it\<lparr>offset := offset',
                  remaining := saturating_sub (remaining it) chunk_data_size\<rparr>)))))"

lemma chunked_next_decreases:
  "chunked_next it = Ok (Some x, it') \<Longrightarrow> remaining it' < remaining it"
  by (auto simp: chunked_next_def and_then_Ok_iff u64_rem_def u64_sub_def saturating_sub_def Let_def
      split: if_splits)

text \<open>The loop \<open>for x in it { body }\<close>, with \<open>?\<close> in the body leaving the loop.\<close>

function chunked_try_fold ::
  "('b \<Rightarrow> nat \<times> nat \<Rightarrow> ('s, 'b, 'e) prog) \<Rightarrow> 'b \<Rightarrow> ChunkedSizeIter \<Rightarrow> ('s, 'b, 'e) prog"
where
  "chunked_try_fold f acc it s =
     (case chunked_next it of
        Ok (None, it') \<Rightarrow> (Ok acc, s)
      | Ok (Some x, it') \<Rightarrow>
          (case f acc x s of
             (Ok acc', s') \<Rightarrow> chunked_try_fold f acc' it' s'
           | (Err e, s') \<Rightarrow> (Err e, s')
           | (Panic, s') \<Rightarrow> (Panic, s')
           | (OutOfFuel, s') \<Rightarrow> (OutOfFuel, s'))
      | Err e \<Rightarrow> (Err e, s)
      | Panic \<Rightarrow> (Panic, s)
      | OutOfFuel \<Rightarrow> (OutOfFuel, s))"
  by pat_completeness auto
termination
  by (relation "measure (\<lambda>(f, acc, it, s). remaining it)") (auto dest: chunked_next_decreases)

declare chunked_try_fold.simps [simp del]

text \<open>The pieces the iterator yields, as a list.\<close>

function chunk_plan :: "nat \<Rightarrow> nat \<Rightarrow> nat \<Rightarrow> (nat \<times> nat) list" where
  "chunk_plan al n off =
     (if n = 0 \<or> al = 0 then []
      else let k = min n (al - off mod al) in (off, k) # chunk_plan al (n - k) (off + k))"
  by pat_completeness auto
termination
  by (relation "measure (\<lambda>(al, n, off). n)") (auto simp: min_def)

declare chunk_plan.simps [simp del]

fun fold_prog :: "('b \<Rightarrow> 'a \<Rightarrow> ('s, 'b, 'e) prog) \<Rightarrow> 'b \<Rightarrow> 'a list \<Rightarrow> ('s, 'b, 'e) prog" where
  "fold_prog f acc [] = ret (Ok acc)"
| "fold_prog f acc (x # xs) = bind_prog (f acc x) (\<lambda>acc'. fold_prog f acc' xs)"

section \<open>Constants and division\<close>

lemma CHUNK_SIZE_pos [simp]: "0 < CHUNK_SIZE"
  by (simp add: CHUNK_SIZE_def)

lemma CHUNK_SIZE_neq_0 [simp]: "CHUNK_SIZE \<noteq> 0"
  by (simp add: CHUNK_SIZE_def)

lemma divide_roundup_ceil:
  "0 < b \<Longrightarrow> a + b < u64_limit \<Longrightarrow> divide_roundup a b = Ok (ceil_div a b)"
  by (simp add: divide_roundup_def ceil_div_def)

lemma divide_roundup_panics: "u64_limit \<le> a + b \<Longrightarrow> divide_roundup a b = Panic"
  by (simp add: divide_roundup_def u64_add_def)

section \<open>The iterator\<close>

lemma chunk_plan_0 [simp]: "chunk_plan al 0 off = []"
  by (simp add: chunk_plan.simps)

lemma chunked_next_Some:
  assumes "0 < n" and "0 < al" and "off + n < u64_limit"
  shows "chunked_next \<lparr>remaining = n, offset = off, alignment = al\<rparr> =
     (let k = min n (al - off mod al)
      in Ok (Some (off, k), \<lparr>remaining = n - k, offset = off + k, alignment = al\<rparr>))"
  using assms by (simp add: chunked_next_def Let_def saturating_sub_def)

lemma chunked_next_None [simp]:
  "chunked_next \<lparr>remaining = 0, offset = off, alignment = al\<rparr> =
     Ok (None, \<lparr>remaining = 0, offset = off, alignment = al\<rparr>)"
  by (simp add: chunked_next_def)

text \<open>The interleaved loop is a loop over the list of pieces.\<close>

lemma chunked_try_fold_plan:
  assumes "0 < al" and "off + n < u64_limit"
  shows "chunked_try_fold f acc (ChunkedSizeIter_new n off al) s =
         fold_prog f acc (chunk_plan al n off) s"
  using assms
proof (induction al n off arbitrary: acc s rule: chunk_plan.induct)
  case (1 al n off)
  show ?case
  proof (cases "n = 0")
    case True
    then show ?thesis
      by (simp add: ChunkedSizeIter_new_def chunked_try_fold.simps [of f acc])
  next
    case False
    define k where "k = min n (al - off mod al)"
    have k: "k \<le> n" by (simp add: k_def)
    have "chunked_try_fold f acc' (ChunkedSizeIter_new (n - k) (off + k) al) s' =
        fold_prog f acc' (chunk_plan al (n - k) (off + k)) s'" for acc' s'
      using "1.IH" [OF _ k_def] False "1.prems" k by simp
    then show ?thesis
      using False "1.prems" k_def
      by (auto simp: ChunkedSizeIter_new_def chunked_try_fold.simps [of f acc] chunked_next_Some
          chunk_plan.simps [of al n off] Let_def bind_prog_def
          split: prod.splits outcome.splits)
  qed
qed

lemma chunk_plan_Nil_iff: "0 < al \<Longrightarrow> chunk_plan al n off = [] \<longleftrightarrow> n = 0"
  by (subst chunk_plan.simps) (simp add: Let_def)

lemma chunk_plan_Cons:
  "0 < al \<Longrightarrow> 0 < n \<Longrightarrow> k = min n (al - off mod al) \<Longrightarrow>
   chunk_plan al n off = (off, k) # chunk_plan al (n - k) (off + k)"
  by (subst chunk_plan.simps) (simp add: Let_def)

lemma chunk_plan_sum: "0 < al \<Longrightarrow> sum_list (map snd (chunk_plan al n off)) = n"
proof (induction al n off rule: chunk_plan.induct)
  case (1 al n off)
  show ?case
  proof (cases "n = 0")
    case False
    define k where "k = min n (al - off mod al)"
    have "sum_list (map snd (chunk_plan al (n - k) (off + k))) = n - k"
      using "1.IH" [OF _ k_def] False "1.prems" by simp
    moreover have "k \<le> n" by (simp add: k_def)
    ultimately show ?thesis
      using False "1.prems" by (simp add: chunk_plan_Cons [OF _ _ k_def])
  qed simp
qed

text \<open>Every piece is non-empty, lies in the range and inside one aligned block.\<close>

lemma chunk_plan_piece:
  assumes "0 < al" and "(o1, k1) \<in> set (chunk_plan al n off)"
  shows "0 < k1 \<and> off \<le> o1 \<and> o1 + k1 \<le> off + n \<and> o1 mod al + k1 \<le> al"
  using assms
proof (induction al n off rule: chunk_plan.induct)
  case (1 al n off)
  show ?case
  proof (cases "n = 0")
    case True
    with 1 show ?thesis by simp
  next
    case False
    define k where "k = min n (al - off mod al)"
    have k: "0 < k" "k \<le> n" "off mod al + k \<le> al"
      using False "1.prems" by (auto simp: k_def min_def less_imp_le)
    from "1.prems" False have "(o1, k1) = (off, k) \<or> (o1, k1) \<in> set (chunk_plan al (n - k) (off + k))"
      by (simp add: chunk_plan_Cons [OF _ _ k_def])
    then show ?thesis
    proof
      assume "(o1, k1) = (off, k)"
      with k show ?thesis by simp
    next
      assume "(o1, k1) \<in> set (chunk_plan al (n - k) (off + k))"
      with "1.IH" [OF _ k_def] False "1.prems" k show ?thesis by fastforce
    qed
  qed
qed

lemma chunk_plan_single:
  "0 < n \<Longrightarrow> off mod al + n \<le> al \<Longrightarrow> chunk_plan al n off = [(off, n)]"
  using chunk_plan_Cons [of al n n off] by simp

text \<open>The pieces cover the range; the last one ends where the range ends.\<close>

lemma chunk_plan_covers:
  assumes "0 < al"
  shows "off \<le> p \<Longrightarrow> p < off + n \<Longrightarrow> \<exists>o1 k. (o1, k) \<in> set (chunk_plan al n off) \<and> o1 \<le> p \<and> p < o1 + k"
proof (induction n arbitrary: off rule: less_induct)
  case (less n)
  define k where "k = min n (al - off mod al)"
  have n: "0 < n" using less.prems by simp
  have plan: "chunk_plan al n off = (off, k) # chunk_plan al (n - k) (off + k)"
    by (rule chunk_plan_Cons [OF assms n k_def])
  have k: "0 < k" "k \<le> n" using assms n by (simp_all add: k_def)
  show ?case
  proof (cases "p < off + k")
    case True
    with plan less.prems(1) show ?thesis by auto
  next
    case False
    with k less.IH [of "n - k" "off + k"] less.prems plan show ?thesis by auto
  qed
qed

lemma chunk_plan_last:
  assumes "0 < al" and "0 < n"
  shows "\<exists>o1 k. (o1, k) \<in> set (chunk_plan al n off) \<and> o1 + k = off + n"
proof -
  have "off \<le> off + n - 1" "off + n - 1 < off + n" using assms(2) by simp_all
  from chunk_plan_covers [OF assms(1) this] obtain o1 k where
    p: "(o1, k) \<in> set (chunk_plan al n off)" "off + n - 1 < o1 + k" by blast
  with chunk_plan_piece [OF assms(1) p(1)] have "o1 + k = off + n" by linarith
  with p(1) show ?thesis by blast
qed

section \<open>Invariants of loops\<close>

lemma chunked_try_fold_state:
  fixes f :: "'b \<Rightarrow> nat \<times> nat \<Rightarrow> ('s, 'b, 'e) prog"
  assumes step: "\<And>acc x t. P t \<Longrightarrow> P (snd (f acc x t))"
  shows "P s \<Longrightarrow> P (snd (chunked_try_fold f acc it s))"
proof (induction "remaining it" arbitrary: acc it s rule: less_induct)
  case less
  show ?case
  proof (cases "chunked_next it :: ((nat \<times> nat) option \<times> ChunkedSizeIter, 'e) outcome")
    case (Ok y)
    obtain z it' where y: "y = (z, it')" by fastforce
    show ?thesis
    proof (cases z)
      case None
      with Ok y less.prems show ?thesis by (simp add: chunked_try_fold.simps [of f acc])
    next
      case (Some x)
      obtain r s1 where f: "f acc x s = (r, s1)" by fastforce
      with step [OF less.prems, of acc x] have s1: "P s1" by simp
      have "remaining it' < remaining it"
        using Ok y Some by (intro chunked_next_decreases) auto
      from less.hyps [OF this s1] f s1 Ok y Some show ?thesis
        by (cases r) (simp_all add: chunked_try_fold.simps [of f acc it])
    qed
  qed (use less.prems in \<open>simp_all add: chunked_try_fold.simps [of f acc]\<close>)
qed

lemma fold_prog_state:
  assumes "\<And>acc x t. P t \<Longrightarrow> P (snd (f acc x t))"
  shows "P s \<Longrightarrow> P (snd (fold_prog f acc xs s))"
proof (induction xs arbitrary: acc s)
  case Nil
  then show ?case by simp
next
  case (Cons x xs)
  have "P (snd (bind_prog (f acc x) (\<lambda>acc'. fold_prog f acc' xs) s))"
    using assms Cons by (intro bind_prog_state [where P = P]) auto
  then show ?case by simp
qed

end
