(* ===== verification/Crypto.thy ===== *)
theory Crypto
  imports Prelude
begin

text \<open>
  \<^verbatim>\<open>authfs/src/crypto.rs\<close>: \<open>Sha256Hasher\<close>, the wrapper around the SHA-256 functions of
  the C library.

  The C functions \<open>SHA256_Init\<close>, \<open>SHA256_Update\<close> and \<open>SHA256_Final\<close> are outside the
  repository: they are a parameter (\<open>sha256_ffi\<close>, over an abstract context type), and what
  their documentation promises is the predicate \<open>sha256_lib\<close>: they succeed, and a context
  fed piece by piece ends in the hash of the concatenation. Nothing is assumed of the hash
  function itself beyond the length of its result and, where the constant
  \<open>HASH_OF_4096_ZEROS\<close> is used, that the constant is what its name says. In particular the
  hash function is not assumed injective, which no function with 32-byte results is: the
  integrity theorems assume only that the blocks the untrusted party serves do not happen to
  be forgeries (\<open>forges\<close>), that is different from one of the finitely many genuine blocks
  and of the same hash.
\<close>

section \<open>Definitions\<close>

record 'c sha256_ffi =
  SHA256_Init :: "'c option"
  SHA256_Update :: "'c \<Rightarrow> bytes \<Rightarrow> 'c option"
  SHA256_Final :: "'c \<Rightarrow> bytes option"

datatype CryptoError = Unexpected string

type_synonym Sha256Hash = bytes

definition HASH_SIZE :: nat where
  "HASH_SIZE = 32"

definition HASH_OF_4096_ZEROS :: Sha256Hash where
  "HASH_OF_4096_ZEROS =
    [0xad, 0x7f, 0xac, 0xb2, 0x58, 0x6f, 0xc6, 0xe9, 0x66, 0xc0, 0x04, 0xd7, 0xd1, 0xd1, 0x6b,
     0x02, 0x4f, 0x58, 0x05, 0xff, 0x7c, 0xb4, 0x7c, 0x7a, 0x85, 0xda, 0xbd, 0x8b, 0x48, 0x89,
     0x2c, 0xa7]"

definition Sha256Hasher_new :: "'c sha256_ffi \<Rightarrow> ('c, CryptoError) outcome" where
  "Sha256Hasher_new ffi =
     (case SHA256_Init ffi of
        None \<Rightarrow> Err (Unexpected ''SHA256_Init'')
      | Some ctx \<Rightarrow> Ok ctx)"

definition hasher_update :: "'c sha256_ffi \<Rightarrow> 'c \<Rightarrow> bytes \<Rightarrow> ('c, CryptoError) outcome" where
  "hasher_update ffi ctx data =
     (case SHA256_Update ffi ctx data of
        None \<Rightarrow> Err (Unexpected ''SHA256_Update'')
      | Some ctx' \<Rightarrow> Ok ctx')"

definition hasher_update_from ::
  "'c sha256_ffi \<Rightarrow> 'c \<Rightarrow> bytes list \<Rightarrow> ('c, CryptoError) outcome" where
  "hasher_update_from ffi ctx datas = try_fold (hasher_update ffi) ctx datas"

definition hasher_finalize :: "'c sha256_ffi \<Rightarrow> 'c \<Rightarrow> (Sha256Hash, CryptoError) outcome" where
  "hasher_finalize ffi ctx =
     (case SHA256_Final ffi ctx of
        None \<Rightarrow> Err (Unexpected ''SHA256_Final'')
      | Some md \<Rightarrow> Ok md)"

text \<open>
  The chain \<open>Sha256Hasher::new()?.update(d1)? ... .update(dk)?.finalize()\<close> that every
  caller writes, for the list of its pieces.
\<close>

definition sha256_chain :: "'c sha256_ffi \<Rightarrow> bytes list \<Rightarrow> (Sha256Hash, CryptoError) outcome" where
  "sha256_chain ffi ds =
     and_then (Sha256Hasher_new ffi) (\<lambda>ctx.
     and_then (hasher_update_from ffi ctx ds) (\<lambda>ctx'.
     hasher_finalize ffi ctx'))"

section \<open>What is relied on\<close>

definition sha256_lib :: "'c sha256_ffi \<Rightarrow> (bytes \<Rightarrow> Sha256Hash) \<Rightarrow> bool" where
  "sha256_lib ffi H \<longleftrightarrow>
     (\<exists>view.
        (\<exists>c. SHA256_Init ffi = Some c \<and> view c = []) \<and>
        (\<forall>c d. \<exists>c'. SHA256_Update ffi c d = Some c' \<and> view c' = view c @ d) \<and>
        (\<forall>c. SHA256_Final ffi c = Some (H (view c)))) \<and>
     (\<forall>x. length (H x) = HASH_SIZE)"

definition zero_hash_ok :: "(bytes \<Rightarrow> Sha256Hash) \<Rightarrow> bool" where
  "zero_hash_ok H \<longleftrightarrow> H (zeros 4096) = HASH_OF_4096_ZEROS"

text \<open>Some block of \<open>B\<close> is a second preimage of some genuine block of \<open>P\<close>.\<close>

definition forges :: "(bytes \<Rightarrow> Sha256Hash) \<Rightarrow> bytes set \<Rightarrow> bytes set \<Rightarrow> bool" where
  "forges H B P \<longleftrightarrow> (\<exists>b\<in>B. \<exists>x\<in>P. b \<noteq> x \<and> H b = H x)"

section \<open>The hasher computes the hash of the concatenation\<close>

lemma HASH_SIZE_pos [simp]: "0 < HASH_SIZE"
  by (simp add: HASH_SIZE_def)

lemma length_hash: "sha256_lib ffi H \<Longrightarrow> length (H x) = HASH_SIZE"
  by (simp add: sha256_lib_def)

lemma hasher_update_from_view:
  assumes "\<forall>c d. \<exists>c'. SHA256_Update ffi c d = Some c' \<and> view c' = view c @ d"
  shows "\<exists>c'. hasher_update_from ffi c ds = Ok c' \<and> view c' = view c @ concat ds"
proof (induction ds arbitrary: c)
  case Nil
  show ?case by (simp add: hasher_update_from_def)
next
  case (Cons d ds)
  obtain c1 where c1: "SHA256_Update ffi c d = Some c1" "view c1 = view c @ d"
    using assms by blast
  with Cons [of c1] show ?case
    by (auto simp: hasher_update_from_def hasher_update_def)
qed

theorem sha256_chain_hash:
  assumes "sha256_lib ffi H"
  shows "sha256_chain ffi ds = Ok (H (concat ds))"
proof -
  from assms obtain view c0 where
    init: "SHA256_Init ffi = Some c0" "view c0 = []" and
    upd: "\<forall>c d. \<exists>c'. SHA256_Update ffi c d = Some c' \<and> view c' = view c @ d" and
    fin: "\<forall>c. SHA256_Final ffi c = Some (H (view c))"
    by (auto simp: sha256_lib_def)
  obtain c1 where "hasher_update_from ffi c0 ds = Ok c1" "view c1 = view c0 @ concat ds"
    using hasher_update_from_view [OF upd] by blast
  with init fin show ?thesis
    by (simp add: sha256_chain_def Sha256Hasher_new_def hasher_finalize_def)
qed

lemma not_forgesD: "\<not> forges H B P \<Longrightarrow> b \<in> B \<Longrightarrow> x \<in> P \<Longrightarrow> H b = H x \<Longrightarrow> b = x"
  by (auto simp: forges_def)

lemma forges_mono: "forges H B P \<Longrightarrow> B \<subseteq> B' \<Longrightarrow> P \<subseteq> P' \<Longrightarrow> forges H B' P'"
  by (auto simp: forges_def)

text \<open>An error of the C library is reported as the error of the function that failed.\<close>

lemma sha256_chain_errors:
  "sha256_chain ffi ds = Err e \<Longrightarrow>
   e \<in> {Unexpected ''SHA256_Init'', Unexpected ''SHA256_Update'', Unexpected ''SHA256_Final''}"
proof -
  have upd: "hasher_update_from ffi c ds = Err e \<Longrightarrow> e = Unexpected ''SHA256_Update''" for c
    by (induction ds arbitrary: c)
       (auto simp: hasher_update_from_def hasher_update_def and_then_Err_iff split: option.splits)
  assume "sha256_chain ffi ds = Err e"
  with upd show ?thesis
    by (auto simp: sha256_chain_def and_then_Err_iff Sha256Hasher_new_def hasher_finalize_def
        split: option.splits)
qed

end
