(* ===== verification/FsverityCommon.thy ===== *)
theory FsverityCommon
  imports AuthCommon Crypto
begin

text \<open>
  \<^verbatim>\<open>authfs/src/fsverity/common.rs\<close> and \<^verbatim>\<open>authfs/src/fsverity/sys.rs\<close>: the error type,
  the height of the Merkle tree and the fs-verity digest.

  The lemmas show that \<open>log128_ceil\<close> is the logarithm to base 128 rounded up, that
  \<open>merkle_tree_height\<close> is the least height whose tree covers the file, and that the bytes
  hashed by \<open>build_fsverity_digest\<close> determine the root hash and the file size.
\<close>

section \<open>Definitions\<close>

datatype FsverityError =
    BadSignature
  | InsufficientData nat
  | CannotVerify
  | Io io_error
  | UnexpectedCryptoError CryptoError
  | InvalidState

definition FS_VERITY_MAGIC :: bytes where
  "FS_VERITY_MAGIC = [0x46, 0x53, 0x56, 0x65, 0x72, 0x69, 0x74, 0x79]"

definition FS_VERITY_VERSION :: u8 where
  "FS_VERITY_VERSION = 1"

definition FS_VERITY_HASH_ALG_SHA256 :: u8 where
  "FS_VERITY_HASH_ALG_SHA256 = 1"

definition FS_VERITY_LOG_BLOCKSIZE :: u8 where
  "FS_VERITY_LOG_BLOCKSIZE = 12"

text \<open>\<open>u64::leading_zeros\<close> and \<open>to_le_bytes\<close> of the standard library.\<close>

fun bit_length :: "nat \<Rightarrow> nat" where
  "bit_length n = (if n = 0 then 0 else Suc (bit_length (n div 2)))"

declare bit_length.simps [simp del]

definition leading_zeros :: "nat \<Rightarrow> nat" where
  "leading_zeros n = 64 - bit_length n"

definition to_le_bytes :: "nat \<Rightarrow> nat \<Rightarrow> bytes" where
  "to_le_bytes w n = map (\<lambda>i. word_of_nat (n div 256 ^ i)) [0..<w]"

definition log128_ceil :: "nat \<Rightarrow> (nat option, 'e) outcome" where
  "log128_ceil num =
     (if num = 0 then Ok None
      else and_then (divide_roundup (64 - leading_zeros (num - 1)) 7) (\<lambda>r. Ok (Some r)))"

definition merkle_tree_height :: "nat \<Rightarrow> (nat option, 'e) outcome" where
  "merkle_tree_height data_size =
     and_then (u64_div CHUNK_SIZE HASH_SIZE) (\<lambda>hashes_per_node.
     and_then (u64_mul hashes_per_node CHUNK_SIZE) (\<lambda>bytes_per_node.
     and_then (divide_roundup data_size bytes_per_node) (\<lambda>hash_pages.
     log128_ceil hash_pages)))"

definition build_fsverity_digest ::
  "'c sha256_ffi \<Rightarrow> Sha256Hash \<Rightarrow> nat \<Rightarrow> (Sha256Hash, CryptoError) outcome" where
  "build_fsverity_digest ffi root_hash file_size =
     sha256_chain ffi
       [[FS_VERITY_VERSION],
        [FS_VERITY_HASH_ALG_SHA256],
        [FS_VERITY_LOG_BLOCKSIZE],
        [0],
        to_le_bytes 4 0,
        to_le_bytes 8 file_size,
        root_hash,
        zeros 32,
        zeros 32,
        zeros 32, zeros 32, zeros 32, zeros 32, zeros 16]"

text \<open>The bytes of the kernel's \<open>struct fsverity_descriptor\<close> with these fields.\<close>

definition fsverity_descriptor :: "Sha256Hash \<Rightarrow> nat \<Rightarrow> bytes" where
  "fsverity_descriptor root_hash file_size =
     [1, 1, 12, 0] @ zeros 4 @ to_le_bytes 8 file_size @ (root_hash @ zeros 32) @ zeros 32 @ zeros 144"

section \<open>The tree height\<close>

lemma bit_length_le_iff: "bit_length n \<le> k \<longleftrightarrow> n < 2 ^ k"
proof (induction n arbitrary: k rule: bit_length.induct)
  case (1 n)
  show ?case
  proof (cases k)
    case 0
    then show ?thesis by (subst bit_length.simps) auto
  next
    case (Suc m)
    show ?thesis
    proof (cases "n = 0")
      case True
      then show ?thesis by (subst bit_length.simps) simp
    next
      case False
      then have "bit_length n \<le> k \<longleftrightarrow> n div 2 < 2 ^ m"
        using 1 Suc by (subst bit_length.simps) simp
      with Suc show ?thesis by (simp add: div_less_iff_less_mult mult.commute)
    qed
  qed
qed

lemma leading_zeros_bit_length: "n < u64_limit \<Longrightarrow> 64 - leading_zeros n = bit_length n"
  using bit_length_le_iff [of n 64] by (simp add: leading_zeros_def u64_limit_def)

lemma log128_ceil_0 [simp]: "log128_ceil 0 = Ok None"
  by (simp add: log128_ceil_def)

text \<open>The exact logarithm, and the height of the tree over a file, as mathematical functions.\<close>

definition log128 :: "nat \<Rightarrow> nat" where
  "log128 n = ceil_div (bit_length (n - 1)) 7"

definition tree_height :: "nat \<Rightarrow> nat" where
  "tree_height n = log128 (ceil_div n (128 * CHUNK_SIZE))"

lemma log128_le_iff: "0 < n \<Longrightarrow> log128 n \<le> k \<longleftrightarrow> n \<le> 128 ^ k"
proof -
  assume "0 < n"
  have "log128 n \<le> k \<longleftrightarrow> n - 1 < 2 ^ (7 * k)"
    by (simp add: log128_def ceil_div_le_iff bit_length_le_iff)
  also have "(2::nat) ^ (7 * k) = 128 ^ k"
    by (simp add: power_mult)
  finally show ?thesis using \<open>0 < n\<close> by auto
qed

text \<open>\<open>log128_ceil\<close> computes it, for every 64-bit argument.\<close>

lemma log128_ceil_log128:
  assumes "0 < n" and "n \<le> u64_limit"
  shows "log128_ceil n = Ok (Some (log128 n))"
proof -
  let ?b = "bit_length (n - 1)"
  have b64: "?b \<le> 64"
    using assms by (simp add: bit_length_le_iff u64_limit_def)
  have "64 - leading_zeros (n - 1) = ?b"
    using assms by (intro leading_zeros_bit_length) simp
  then show ?thesis
    using assms b64 by (simp add: log128_ceil_def log128_def divide_roundup_ceil u64_limit_def)
qed

lemma hashes_per_node: "CHUNK_SIZE div HASH_SIZE = 128"
  by (simp add: CHUNK_SIZE_def HASH_SIZE_def)

lemma merkle_tree_height_0 [simp]: "merkle_tree_height 0 = Ok None"
  by (simp add: merkle_tree_height_def hashes_per_node divide_roundup_ceil CHUNK_SIZE_def
      HASH_SIZE_def u64_limit_def)

lemma merkle_tree_height_Some:
  assumes "0 < n" and "n + 128 * CHUNK_SIZE < u64_limit"
  shows "merkle_tree_height n = Ok (Some (tree_height n))"
proof -
  have "ceil_div n (128 * CHUNK_SIZE) \<le> u64_limit"
    using assms ceil_div_le_self [of "128 * CHUNK_SIZE" n] by simp
  then show ?thesis
    using assms
    by (simp add: merkle_tree_height_def hashes_per_node divide_roundup_ceil log128_ceil_log128
        tree_height_def)
qed

text \<open>
  The height is the least \<open>k\<close> such that \<open>128 ^ (k + 1)\<close> chunks hold the file: the tree
  has \<open>k + 1\<close> levels of hash pages, the topmost with one page.
\<close>

lemma tree_height_le_iff:
  "0 < n \<Longrightarrow> tree_height n \<le> k \<longleftrightarrow> n \<le> CHUNK_SIZE * 128 ^ Suc k"
  by (simp add: tree_height_def log128_le_iff ceil_div_le_iff ac_simps)

section \<open>The digest\<close>

lemma length_to_le_bytes [simp, bytes_simps]: "length (to_le_bytes w n) = w"
  by (simp add: to_le_bytes_def)

lemma to_le_bytes_0: "to_le_bytes w 0 = zeros w"
  by (rule nth_equalityI) (simp_all add: to_le_bytes_def zeros_def)

lemma unat_le_byte: "i < w \<Longrightarrow> unat (to_le_bytes w n ! i) = n div 256 ^ i mod 256"
  by (simp add: to_le_bytes_def unat_of_nat)

lemma nat_eq_if_base256_digits:
  "(\<And>i. i < w \<Longrightarrow> (m::nat) div 256 ^ i mod 256 = n div 256 ^ i mod 256) \<Longrightarrow>
   m < 256 ^ w \<Longrightarrow> n < 256 ^ w \<Longrightarrow> m = n"
proof (induction w arbitrary: m n)
  case 0
  then show ?case by simp
next
  case (Suc w)
  have low: "m mod 256 = n mod 256"
    using Suc.prems(1) [of 0] by simp
  have "m div 256 = n div 256"
  proof (rule Suc.IH)
    fix i assume "i < w"
    then show "m div 256 div 256 ^ i mod 256 = n div 256 div 256 ^ i mod 256"
      using Suc.prems(1) [of "Suc i"] by (simp add: div_mult2_eq)
  next
    show "m div 256 < 256 ^ w" "n div 256 < 256 ^ w"
      using Suc.prems(2,3) by (simp_all add: div_less_iff_less_mult mult.commute)
  qed
  with low show ?case by (metis div_mult_mod_eq)
qed

lemma to_le_bytes_inj:
  assumes "to_le_bytes 8 m = to_le_bytes 8 n" and "m < u64_limit" and "n < u64_limit"
  shows "m = n"
proof (rule nat_eq_if_base256_digits [of 8])
  show "m div 256 ^ i mod 256 = n div 256 ^ i mod 256" if "i < 8" for i
    using that assms(1) by (metis unat_le_byte)
  show "m < 256 ^ 8" "n < 256 ^ 8"
    using assms(2,3) by (simp_all add: u64_limit_def)
qed

lemma build_fsverity_digest_hash:
  assumes "sha256_lib ffi H"
  shows "build_fsverity_digest ffi root n = Ok (H (fsverity_descriptor root n))"
proof -
  have "(144::nat) = 32 + (32 + (32 + (32 + 16)))"
    by simp
  then have "replicate 144 (0::u8) =
      replicate 32 0 @ replicate 32 0 @ replicate 32 0 @ replicate 32 0 @ replicate 16 0"
    by (simp only: replicate_add)
  then show ?thesis
    using assms
    by (simp add: build_fsverity_digest_def sha256_chain_hash fsverity_descriptor_def to_le_bytes_0
        FS_VERITY_VERSION_def FS_VERITY_HASH_ALG_SHA256_def FS_VERITY_LOG_BLOCKSIZE_def zeros_def)
qed

lemma length_fsverity_descriptor:
  "length root = HASH_SIZE \<Longrightarrow> length (fsverity_descriptor root n) = 256"
  by (simp add: fsverity_descriptor_def HASH_SIZE_def)

lemma fsverity_descriptor_inj:
  assumes "fsverity_descriptor root n = fsverity_descriptor root' n'"
    and "length root = HASH_SIZE" and "length root' = HASH_SIZE"
    and "n < u64_limit" and "n' < u64_limit"
  shows "root = root' \<and> n = n'"
  using assms by (auto simp: fsverity_descriptor_def dest: to_le_bytes_inj)

end
