(* ===== verification/MerkleSpec.thy ===== *)
theory MerkleSpec
  imports FsverityCommon
begin

text \<open>
  The specification the two halves of \<^verbatim>\<open>authfs/src/fsverity\<close> are compared with: the Merkle
  tree of a byte string, as fs-verity defines it, independently of the code.

  A byte string is cut into chunks of 4096 bytes, the last one padded with zeros
  (\<open>page\<close>); the hashes of the chunks, concatenated, are the next layer (\<open>hash_layer\<close>);
  the root is the hash of the only chunk once there is only one (\<open>merkle_root\<close>). The
  digest of a file hashes a descriptor with the root and the length (\<open>fsverity_digest\<close>).
\<close>

section \<open>Definitions\<close>

definition page :: "bytes \<Rightarrow> nat \<Rightarrow> bytes" where
  "page c i = resize_bytes CHUNK_SIZE (take CHUNK_SIZE (drop (CHUNK_SIZE * i) c))"

definition num_chunks :: "bytes \<Rightarrow> nat" where
  "num_chunks c = ceil_div (length c) CHUNK_SIZE"

definition leaf_hashes :: "(bytes \<Rightarrow> Sha256Hash) \<Rightarrow> bytes \<Rightarrow> Sha256Hash list" where
  "leaf_hashes H c = map (\<lambda>i. H (page c i)) [0..<num_chunks c]"

definition hash_layer :: "(bytes \<Rightarrow> Sha256Hash) \<Rightarrow> bytes \<Rightarrow> bytes" where
  "hash_layer H c = concat (leaf_hashes H c)"

text \<open>The recursion of \<open>merkle_root\<close> ends because a layer is shorter than what it hashes;
  for hash functions with longer results (of which nothing is claimed) it is cut off.\<close>

function merkle_root :: "(bytes \<Rightarrow> Sha256Hash) \<Rightarrow> bytes \<Rightarrow> Sha256Hash" where
  "merkle_root H c =
     (if c = [] then zeros HASH_SIZE
      else if length c \<le> CHUNK_SIZE \<or> length c \<le> length (hash_layer H c) then H (page c 0)
      else merkle_root H (hash_layer H c))"
  by pat_completeness auto
termination
  by (relation "measure (\<lambda>(H, c). length c)") auto

declare merkle_root.simps [simp del]

definition fsverity_digest :: "(bytes \<Rightarrow> Sha256Hash) \<Rightarrow> bytes \<Rightarrow> Sha256Hash" where
  "fsverity_digest H c = H (fsverity_descriptor (merkle_root H c) (length c))"

section \<open>Pages\<close>

lemma length_page [simp, bytes_simps]: "length (page c i) = CHUNK_SIZE"
  by (simp add: page_def)

lemma nth_page: "j < CHUNK_SIZE \<Longrightarrow> page c i ! j = byte_at c (CHUNK_SIZE * i + j)"
  by (auto simp: page_def resize_bytes_def nth_vec_resize byte_at_def)

lemma page_eqI:
  "length b = CHUNK_SIZE \<Longrightarrow> (\<And>j. j < CHUNK_SIZE \<Longrightarrow> b ! j = byte_at c (CHUNK_SIZE * i + j)) \<Longrightarrow>
   b = page c i"
  by (rule nth_equalityI) (simp_all add: nth_page)

lemma page_beyond: "num_chunks c \<le> i \<Longrightarrow> page c i = zeros CHUNK_SIZE"
  by (rule page_eqI [symmetric])
     (simp_all add: num_chunks_def ceil_div_le_iff)

lemma num_chunks_Nil [simp]: "num_chunks [] = 0"
  by (simp add: num_chunks_def)

lemma num_chunks_eq_0_iff [simp]: "num_chunks c = 0 \<longleftrightarrow> c = []"
  by (simp add: num_chunks_def)

lemma num_chunks_pos_iff: "0 < num_chunks c \<longleftrightarrow> c \<noteq> []"
  by (simp add: num_chunks_def)

lemma num_chunks_1: "c \<noteq> [] \<Longrightarrow> length c \<le> CHUNK_SIZE \<Longrightarrow> num_chunks c = 1"
  unfolding num_chunks_def by (rule ceil_div_eq_if_interval) auto

lemma num_chunks_le_1_iff: "num_chunks c \<le> 1 \<longleftrightarrow> length c \<le> CHUNK_SIZE"
  by (simp add: num_chunks_def ceil_div_le_iff)

lemma page_of_chunk:
  "0 < length ch \<Longrightarrow> ch = take CHUNK_SIZE (drop (CHUNK_SIZE * i) c) \<Longrightarrow>
   page c i = ch @ zeros (CHUNK_SIZE - length ch)"
  by (simp add: page_def resize_bytes_def vec_resize_def zeros_def)

section \<open>Layers\<close>

lemma length_leaf_hashes [simp]: "length (leaf_hashes H c) = num_chunks c"
  by (simp add: leaf_hashes_def)

lemma nth_leaf_hashes: "i < num_chunks c \<Longrightarrow> leaf_hashes H c ! i = H (page c i)"
  by (simp add: leaf_hashes_def)

lemma leaf_hashes_Nil [simp]: "leaf_hashes H [] = []"
  by (simp add: leaf_hashes_def)

lemma length_concat_same:
  "(\<And>x. x \<in> set xs \<Longrightarrow> length x = k) \<Longrightarrow> length (concat xs) = k * length xs"
  by (induction xs) auto

lemma drop_take_concat_same:
  "(\<And>x. x \<in> set xs \<Longrightarrow> length x = k) \<Longrightarrow> take (k * m) (drop (k * i) (concat xs)) = concat (take m (drop i xs))"
proof (induction xs arbitrary: i m)
  case Nil
  then show ?case by simp
next
  case (Cons x xs)
  have x: "length x = k" using Cons.prems by simp
  show ?case
  proof (cases i)
    case (Suc j)
    with Cons x show ?thesis by simp
  next
    case 0
    show ?thesis
    proof (cases m)
      case (Suc n)
      with 0 x Cons.IH [of n 0] Cons.prems show ?thesis by simp
    qed (simp add: 0)
  qed
qed

lemma slice_concat_same:
  assumes "\<And>x. x \<in> set xs \<Longrightarrow> length x = k" and "i < length xs"
  shows "take k (drop (k * i) (concat xs)) = xs ! i"
  using drop_take_concat_same [of xs k 1 i] assms by (simp add: take_Suc hd_drop_conv_nth)

text \<open>From here on the hash has 32-byte results.\<close>

lemma length_hash_layer:
  "sha256_lib ffi H \<Longrightarrow> length (hash_layer H c) = HASH_SIZE * num_chunks c"
  unfolding hash_layer_def
  by (subst length_concat_same [of _ HASH_SIZE]) (auto simp: leaf_hashes_def length_hash)

lemma num_chunks_hash_layer:
  "sha256_lib ffi H \<Longrightarrow> num_chunks (hash_layer H c) = ceil_div (num_chunks c) 128"
proof -
  assume H: "sha256_lib ffi H"
  have "ceil_div (32 * num_chunks c) 4096 = ceil_div (num_chunks c) 128"
    using ceil_div_ceil_div [of 32 128 "32 * num_chunks c"] by simp
  with H show ?thesis
    by (simp add: num_chunks_def length_hash_layer HASH_SIZE_def CHUNK_SIZE_def)
qed

lemma slice_hash_layer:
  assumes "sha256_lib ffi H" and "i < num_chunks c"
  shows "take HASH_SIZE (drop (HASH_SIZE * i) (hash_layer H c)) = H (page c i)"
  unfolding hash_layer_def using assms
  by (subst slice_concat_same) (auto simp: leaf_hashes_def length_hash)

lemma hash_layer_shorter:
  assumes "sha256_lib ffi H" and "CHUNK_SIZE < length c"
  shows "length (hash_layer H c) < length c"
proof -
  have "2 \<le> num_chunks c"
    using assms(2) num_chunks_le_1_iff [of c] by linarith
  moreover have "num_chunks c - 1 < num_chunks c"
    using calculation by simp
  then have "CHUNK_SIZE * (num_chunks c - 1) < length c"
    by (simp add: num_chunks_def less_ceil_div_iff)
  ultimately show ?thesis
    using assms(1) by (simp add: length_hash_layer HASH_SIZE_def CHUNK_SIZE_def)
qed

lemma merkle_root_Nil [simp]: "merkle_root H [] = zeros HASH_SIZE"
  by (simp add: merkle_root.simps)

lemma merkle_root_single: "c \<noteq> [] \<Longrightarrow> length c \<le> CHUNK_SIZE \<Longrightarrow> merkle_root H c = H (page c 0)"
  by (simp add: merkle_root.simps)

lemma merkle_root_layer:
  assumes "sha256_lib ffi H" and "CHUNK_SIZE < length c"
  shows "merkle_root H c = merkle_root H (hash_layer H c)"
  using hash_layer_shorter [OF assms] assms(2) by (subst merkle_root.simps) auto

lemma length_merkle_root: "sha256_lib ffi H \<Longrightarrow> length (merkle_root H c) = HASH_SIZE"
  by (induction H c rule: merkle_root.induct) (subst merkle_root.simps, simp add: length_hash)

section \<open>Iterated layers\<close>

text \<open>
  The least number of layers after which one chunk is left is the logarithm of the number
  of chunks; hashing that many times reaches the root.
\<close>

definition next_level :: "(bytes \<Rightarrow> Sha256Hash) \<Rightarrow> Sha256Hash list \<Rightarrow> Sha256Hash list" where
  "next_level H hs = leaf_hashes H (concat hs)"

lemma next_level_leaf_hashes: "next_level H (leaf_hashes H c) = leaf_hashes H (hash_layer H c)"
  by (simp add: next_level_def hash_layer_def)

lemma log128_ceil_div:
  assumes "1 < n"
  shows "log128 n = Suc (log128 (ceil_div n 128))"
proof -
  have "log128 n \<le> k \<longleftrightarrow> Suc (log128 (ceil_div n 128)) \<le> k" for k
    using assms log128_le_iff [of n] log128_le_iff [of "ceil_div n 128"]
    by (cases k) (auto simp: ceil_div_le_iff simp flip: le_zero_eq)
  then show ?thesis by (metis order_antisym order_refl)
qed

lemma log128_1 [simp]: "log128 (Suc 0) = 0"
  using log128_le_iff [of 1 0] by simp

lemma iterate_next_level:
  assumes "sha256_lib ffi H"
  shows "c \<noteq> [] \<Longrightarrow> (next_level H ^^ log128 (num_chunks c)) (leaf_hashes H c) = [merkle_root H c]"
proof (induction "log128 (num_chunks c)" arbitrary: c)
  case 0
  then have "0 < num_chunks c"
    by (metis neq0_conv num_chunks_eq_0_iff)
  with 0 have "num_chunks c \<le> 1"
    using log128_le_iff [of "num_chunks c" 0] by simp
  with 0 have "num_chunks c = 1" "length c \<le> CHUNK_SIZE"
    using num_chunks_le_1_iff [of c] num_chunks_1 [of c] by auto
  with 0 show ?case by (simp add: leaf_hashes_def merkle_root_single)
next
  case (Suc k)
  have "1 < num_chunks c"
  proof (rule ccontr)
    assume "\<not> 1 < num_chunks c"
    with Suc.prems have "num_chunks c = 1" by (cases "num_chunks c") auto
    with Suc.hyps(2) show False by simp
  qed
  then have long: "CHUNK_SIZE < length c"
    using num_chunks_le_1_iff [of c] by linarith
  let ?l = "hash_layer H c"
  have k: "k = log128 (num_chunks ?l)"
    using Suc.hyps(2) log128_ceil_div [OF \<open>1 < num_chunks c\<close>] assms
    by (simp add: num_chunks_hash_layer)
  have "0 < num_chunks ?l"
    using assms Suc.prems by (simp add: num_chunks_hash_layer num_chunks_pos_iff)
  then have "(next_level H ^^ k) (leaf_hashes H ?l) = [merkle_root H ?l]"
    using Suc.hyps(1) [OF k] k num_chunks_pos_iff by metis
  then have "(next_level H ^^ Suc k) (leaf_hashes H c) = [merkle_root H c]"
    using merkle_root_layer [OF assms long]
    by (simp add: funpow_Suc_right next_level_leaf_hashes del: funpow.simps)
  then show ?case using Suc.hyps(2) by simp
qed

end
