(* ===== verification/Builder.thy ===== *)
theory Builder
  imports MerkleSpec
begin

text \<open>
  \<^verbatim>\<open>authfs/src/fsverity/builder.rs\<close>: \<open>MerkleLeaves\<close>, the in-memory leaves of the Merkle
  tree of a file being written, and the computation of the root hash and of the fs-verity
  digest from them.

  The flag \<open>dbg\<close> of \<open>calculate_root_hash\<close> says whether debug assertions are compiled
  in. Without them the function computes the root of the specification for every number of
  leaves; with them it panics on every consistent tree of two or more leaves, because the
  last assertion compares the index of the last chunk with the number of chunks.
\<close>

section \<open>Definitions\<close>

definition HASH_PER_PAGE :: nat where
  "HASH_PER_PAGE = CHUNK_SIZE div HASH_SIZE"

record MerkleLeaves =
  leaves :: "Sha256Hash list"
  ml_file_size :: nat

definition hash_all_pages ::
  "'c sha256_ffi \<Rightarrow> Sha256Hash list \<Rightarrow> (Sha256Hash list, CryptoError) outcome" where
  "hash_all_pages ffi source =
     try_map (\<lambda>chunk.
         let padding_bytes = (HASH_PER_PAGE - length chunk) * HASH_SIZE
         in sha256_chain ffi (chunk @ [zeros padding_bytes]))
       (chunks HASH_PER_PAGE source)"

definition MerkleLeaves_new :: MerkleLeaves where
  "MerkleLeaves_new = \<lparr>leaves = [], ml_file_size = 0\<rparr>"

definition MerkleLeaves_file_size :: "MerkleLeaves \<Rightarrow> nat" where
  "MerkleLeaves_file_size t = ml_file_size t"

definition MerkleLeaves_resize :: "MerkleLeaves \<Rightarrow> nat \<Rightarrow> (MerkleLeaves, 'e) outcome" where
  "MerkleLeaves_resize t new_file_size =
     and_then (divide_roundup new_file_size CHUNK_SIZE) (\<lambda>leaves_size.
     Ok \<lparr>leaves = vec_resize leaves_size HASH_OF_4096_ZEROS (leaves t),
         ml_file_size = new_file_size\<rparr>)"

definition update_hash ::
  "MerkleLeaves \<Rightarrow> nat \<Rightarrow> Sha256Hash \<Rightarrow> nat \<Rightarrow> (MerkleLeaves, 'e) outcome" where
  "update_hash t index hash size_at_least =
     and_then (u64_add index 1) (\<lambda>index1.
     let grown = (if length (leaves t) < index1
                  then vec_resize index1 HASH_OF_4096_ZEROS (leaves t) else leaves t)
     in and_then (index_vec grown index) (\<lambda>_.
        Ok \<lparr>leaves = grown[index := hash],
            ml_file_size = (if size_at_least > ml_file_size t then size_at_least
                            else ml_file_size t)\<rparr>))"

definition is_index_valid :: "MerkleLeaves \<Rightarrow> nat \<Rightarrow> bool" where
  "is_index_valid t index = (index < length (leaves t))"

definition is_consistent :: "MerkleLeaves \<Rightarrow> nat \<Rightarrow> Sha256Hash \<Rightarrow> bool" where
  "is_consistent t index hash =
     (if index < length (leaves t) then leaves t ! index = hash else False)"

definition calculate_root_hash ::
  "bool \<Rightarrow> 'c sha256_ffi \<Rightarrow> MerkleLeaves \<Rightarrow> (Sha256Hash, FsverityError) outcome" where
  "calculate_root_hash dbg ffi t =
     (let n = length (leaves t) in
      if n = 0 then
        and_then (debug_assert dbg (ml_file_size t = 0)) (\<lambda>_. Ok (zeros HASH_SIZE))
      else if n = 1 then
        and_then (debug_assert dbg (ml_file_size t \<le> CHUNK_SIZE \<and> ml_file_size t > 0)) (\<lambda>_.
        index_vec (leaves t) 0)
      else
        and_then (if dbg then
                    and_then (u64_sub (ml_file_size t) 1) (\<lambda>last.
                    assertion (last div CHUNK_SIZE = n))
                  else Ok ()) (\<lambda>_.
        and_then (u64_mul n CHUNK_SIZE) (\<lambda>size_for_equivalent.
        and_then (merkle_tree_height size_for_equivalent) (\<lambda>height.
        and_then (unwrap height) (\<lambda>level.
        and_then (map_err UnexpectedCryptoError (hash_all_pages ffi (leaves t))) (\<lambda>second_level.
        and_then (map_err UnexpectedCryptoError
                    (try_fold (\<lambda>source _. hash_all_pages ffi source) second_level [1..<Suc level]))
          (\<lambda>hashes.
        if length hashes \<noteq> 1 then Err InvalidState else index_vec hashes 0)))))))"

definition calculate_fsverity_digest ::
  "bool \<Rightarrow> 'c sha256_ffi \<Rightarrow> MerkleLeaves \<Rightarrow> (Sha256Hash, FsverityError) outcome" where
  "calculate_fsverity_digest dbg ffi t =
     and_then (calculate_root_hash dbg ffi t) (\<lambda>root_hash.
     map_err UnexpectedCryptoError (build_fsverity_digest ffi root_hash (ml_file_size t)))"

section \<open>The tree represents a byte string\<close>

definition represents :: "(bytes \<Rightarrow> Sha256Hash) \<Rightarrow> MerkleLeaves \<Rightarrow> bytes \<Rightarrow> bool" where
  "represents H t c \<longleftrightarrow> leaves t = leaf_hashes H c \<and> ml_file_size t = length c"

lemma HASH_PER_PAGE_128 [simp]: "HASH_PER_PAGE = 128"
  by (simp add: HASH_PER_PAGE_def CHUNK_SIZE_def HASH_SIZE_def)

lemma represents_new: "represents H MerkleLeaves_new []"
  by (simp add: represents_def MerkleLeaves_new_def)

section \<open>Hashing a layer\<close>

lemma hash_page_concat:
  assumes "\<And>h. h \<in> set hs \<Longrightarrow> length h = HASH_SIZE" and "i < ceil_div (length hs) 128"
    and "ch = take 128 (drop (128 * i) hs)"
  shows "concat ch @ zeros ((128 - length ch) * HASH_SIZE) = page (concat hs) i"
proof -
  have len: "length (concat ch) = HASH_SIZE * length ch"
    by (rule length_concat_same) (use assms in \<open>auto dest: in_set_takeD in_set_dropD\<close>)
  have "128 * i < length hs"
    using assms(2) by (simp add: less_ceil_div_iff)
  then have ne: "0 < length (concat ch)"
    using assms(3) len by simp
  have size: "CHUNK_SIZE = HASH_SIZE * 128"
    by (simp add: CHUNK_SIZE_def HASH_SIZE_def)
  have "take (HASH_SIZE * 128) (drop (HASH_SIZE * (128 * i)) (concat hs)) = concat ch"
    unfolding assms(3) by (rule drop_take_concat_same [OF assms(1)])
  then have "concat ch = take CHUNK_SIZE (drop (CHUNK_SIZE * i) (concat hs))"
    unfolding size by (simp only: mult.assoc)
  then have "page (concat hs) i = concat ch @ zeros (CHUNK_SIZE - length (concat ch))"
    using page_of_chunk ne by blast
  moreover have "CHUNK_SIZE - length (concat ch) = (128 - length ch) * HASH_SIZE"
    using len size by (simp add: algebra_simps)
  ultimately show ?thesis by simp
qed

lemma num_chunks_concat:
  assumes "\<And>h. h \<in> set hs \<Longrightarrow> length h = HASH_SIZE"
  shows "num_chunks (concat hs) = ceil_div (length hs) 128"
proof -
  have "ceil_div (32 * length hs) 4096 = ceil_div (length hs) 128"
    using ceil_div_ceil_div [of 32 128 "32 * length hs"] by simp
  then show ?thesis
    using length_concat_same [OF assms] by (simp add: num_chunks_def HASH_SIZE_def CHUNK_SIZE_def)
qed

lemma hash_all_pages_next_level:
  assumes H: "sha256_lib ffi H" and hs: "\<And>h. h \<in> set hs \<Longrightarrow> length h = HASH_SIZE"
  shows "hash_all_pages ffi hs = Ok (next_level H hs)"
proof -
  have "hash_all_pages ffi hs =
      Ok (map (\<lambda>ch. H (concat ch @ zeros ((128 - length ch) * HASH_SIZE))) (chunks 128 hs))"
    unfolding hash_all_pages_def HASH_PER_PAGE_128 Let_def
    by (rule try_map_Ok) (simp add: sha256_chain_hash [OF H])
  also have "map (\<lambda>ch. H (concat ch @ zeros ((128 - length ch) * HASH_SIZE))) (chunks 128 hs)
      = next_level H hs"
    using hash_page_concat [OF hs]
    by (simp add: chunks_by_index next_level_def leaf_hashes_def num_chunks_concat [OF hs])
  finally show ?thesis .
qed

lemma length_in_next_level:
  "sha256_lib ffi H \<Longrightarrow> h \<in> set (next_level H hs) \<Longrightarrow> length h = HASH_SIZE"
  by (auto simp: next_level_def leaf_hashes_def length_hash)

lemma iterate_hash_all_pages:
  assumes H: "sha256_lib ffi H" and hs: "\<And>h. h \<in> set hs \<Longrightarrow> length h = HASH_SIZE"
  shows "try_fold (\<lambda>source _. hash_all_pages ffi source) hs xs = Ok ((next_level H ^^ length xs) hs)"
  using hs
proof (induction xs arbitrary: hs)
  case Nil
  then show ?case by simp
next
  case (Cons x xs)
  then show ?case
    using Cons.IH [of "next_level H hs"] length_in_next_level [OF H]
    by (simp add: hash_all_pages_next_level [OF H] funpow_swap1)
qed

section \<open>The root hash\<close>

lemma tree_height_full:
  assumes "0 < n"
  shows "tree_height (n * CHUNK_SIZE) = log128 (ceil_div n 128)"
proof -
  have "ceil_div (CHUNK_SIZE * n) (CHUNK_SIZE * 128) = ceil_div n 128"
    using ceil_div_ceil_div [of CHUNK_SIZE 128 "CHUNK_SIZE * n"] by simp
  then show ?thesis by (simp add: tree_height_def mult.commute)
qed

text \<open>Hashing pages until one hash is left reaches the root of the leaves' concatenation.\<close>

lemma calculate_root_hash_many:
  assumes H: "sha256_lib ffi H" and hs: "\<And>h. h \<in> set (leaves t) \<Longrightarrow> length h = HASH_SIZE"
    and n: "2 \<le> length (leaves t)" and fits: "(length (leaves t) + 128) * CHUNK_SIZE < u64_limit"
  shows "calculate_root_hash False ffi t = Ok (merkle_root H (concat (leaves t)))"
proof -
  let ?n = "length (leaves t)" and ?c = "concat (leaves t)"
  have height: "merkle_tree_height (?n * CHUNK_SIZE) =
      (Ok (Some (log128 (ceil_div ?n 128))) :: (nat option, FsverityError) outcome)"
  proof -
    have "0 < ?n" using n by linarith
    then show ?thesis
      using merkle_tree_height_Some [of "?n * CHUNK_SIZE"] tree_height_full [of ?n] fits
      by (simp add: add_mult_distrib)
  qed
  have "0 < length ?c"
    using n length_concat_same [of "leaves t" HASH_SIZE, OF hs] by (simp del: length_greater_0_conv)
  then have "?c \<noteq> []"
    by simp
  then have root: "(next_level H ^^ log128 (ceil_div ?n 128)) (next_level H (leaves t)) =
      [merkle_root H ?c]"
    using iterate_next_level [OF H, of ?c] hs by (simp add: next_level_def num_chunks_concat)
  have "try_fold (\<lambda>source _. hash_all_pages ffi source) (next_level H (leaves t))
          [1..<Suc (log128 (ceil_div ?n 128))] = Ok [merkle_root H ?c]"
    using iterate_hash_all_pages [OF H, of "next_level H (leaves t)"
        "[1..<Suc (log128 (ceil_div ?n 128))]"] length_in_next_level [OF H] root
    by (simp del: upt_Suc)
  moreover have "?n * CHUNK_SIZE < u64_limit"
    using fits by (simp add: algebra_simps)
  ultimately show ?thesis
    using n height hs
    by (simp add: calculate_root_hash_def Let_def hash_all_pages_next_level [OF H] del: upt_Suc)
qed

lemma calculate_root_hash_correct:
  assumes H: "sha256_lib ffi H" and rep: "represents H t c"
    and fits: "length c + 129 * CHUNK_SIZE < u64_limit"
  shows "calculate_root_hash False ffi t = Ok (merkle_root H c)"
proof -
  have l: "leaves t = leaf_hashes H c" "length (leaves t) = num_chunks c"
    using rep by (auto simp: represents_def)
  consider (none) "c = []" | (one) "c \<noteq> []" "length c \<le> CHUNK_SIZE" | (many) "CHUNK_SIZE < length c"
    by force
  then show ?thesis
  proof cases
    case none
    with l show ?thesis by (simp add: calculate_root_hash_def)
  next
    case one
    with l have "leaves t = [H (page c 0)]"
      by (simp add: leaf_hashes_def num_chunks_1)
    with one show ?thesis
      by (simp add: calculate_root_hash_def merkle_root_single)
  next
    case many
    have "2 \<le> num_chunks c"
      using many num_chunks_le_1_iff [of c] by linarith
    moreover have "CHUNK_SIZE * num_chunks c < length c + CHUNK_SIZE"
      by (simp add: num_chunks_def mult_ceil_div_less)
    then have "(num_chunks c + 128) * CHUNK_SIZE < u64_limit"
      using fits by (simp add: algebra_simps)
    ultimately show ?thesis
      using calculate_root_hash_many [OF H, of t] l many length_hash [OF H]
      by (auto simp: leaf_hashes_def hash_layer_def merkle_root_layer [OF H])
  qed
qed

lemma calculate_fsverity_digest_correct:
  assumes H: "sha256_lib ffi H" and rep: "represents H t c"
    and fits: "length c + 129 * CHUNK_SIZE < u64_limit"
  shows "calculate_fsverity_digest False ffi t = Ok (fsverity_digest H c)"
  using calculate_root_hash_correct [OF assms] rep
  by (simp add: calculate_fsverity_digest_def build_fsverity_digest_hash [OF H] fsverity_digest_def
      represents_def)


text \<open>With debug assertions, a consistent tree of two or more leaves makes the function panic.\<close>

lemma calculate_root_hash_debug_panics:
  assumes rep: "represents H t c" and many: "CHUNK_SIZE < length c"
  shows "calculate_root_hash True ffi t = Panic"
proof -
  have n: "2 \<le> num_chunks c"
    using many num_chunks_le_1_iff [of c] by linarith
  have "(length c - 1) div CHUNK_SIZE < num_chunks c"
  proof -
    have "CHUNK_SIZE * ((length c - 1) div CHUNK_SIZE) \<le> length c - 1"
      by (rule times_div_less_eq_dividend)
    also have "\<dots> < length c" using many by linarith
    finally show ?thesis by (simp add: num_chunks_def less_ceil_div_iff)
  qed
  then show ?thesis
    using rep n many
    by (auto simp: calculate_root_hash_def represents_def Let_def)
qed

section \<open>Updates follow the byte string\<close>

lemma num_chunks_pwrite:
  assumes "src \<noteq> []" and "CHUNK_SIZE * idx \<le> off" and "off + length src \<le> CHUNK_SIZE * Suc idx"
  shows "num_chunks (pwrite c off src) = max (num_chunks c) (Suc idx)"
proof -
  have "0 < length src"
    using assms(1) by simp
  then have "ceil_div (off + length src) CHUNK_SIZE = Suc idx"
    using assms(2,3) by (intro ceil_div_Suc_index [OF CHUNK_SIZE_pos]) linarith+
  then show ?thesis
    using assms(1) by (simp add: num_chunks_def length_pwrite ceil_div_max)
qed

lemma page_pwrite_same:
  assumes "CHUNK_SIZE * idx \<le> off" and "off + length src \<le> CHUNK_SIZE * Suc idx"
    and "k = off - CHUNK_SIZE * idx"
  shows "page (pwrite c off src) idx = take k (page c idx) @ src @ drop (k + length src) (page c idx)"
  by (rule page_eqI [symmetric])
     (use assms in \<open>auto simp: nth_append nth_page byte_at_pwrite algebra_simps\<close>)

lemma page_pwrite_other:
  assumes "CHUNK_SIZE * idx \<le> off" and "off + length src \<le> CHUNK_SIZE * Suc idx" and "i \<noteq> idx"
  shows "page (pwrite c off src) i = page c i"
proof (rule page_eqI [symmetric])
  fix j assume j: "j < CHUNK_SIZE"
  have "\<not> (off \<le> CHUNK_SIZE * i + j \<and> CHUNK_SIZE * i + j < off + length src)"
  proof (cases "i < idx")
    case True
    then have "CHUNK_SIZE * Suc i \<le> CHUNK_SIZE * idx" by (intro mult_le_mono2) simp
    with assms j show ?thesis by simp
  next
    case False
    with \<open>i \<noteq> idx\<close> have "CHUNK_SIZE * Suc idx \<le> CHUNK_SIZE * i" by (intro mult_le_mono2) simp
    with assms show ?thesis by simp
  qed
  with j show "page c i ! j = byte_at (pwrite c off src) (CHUNK_SIZE * i + j)"
    by (auto simp: nth_page byte_at_pwrite)
qed simp

text \<open>The leaves after an update of one chunk, holes filled with the hash of zeros.\<close>

lemma leaf_hashes_pwrite:
  assumes z: "zero_hash_ok H" and src: "src \<noteq> []"
    and lo: "CHUNK_SIZE * idx \<le> off" and hi: "off + length src \<le> CHUNK_SIZE * Suc idx"
  shows "(if num_chunks c < Suc idx then vec_resize (Suc idx) HASH_OF_4096_ZEROS (leaf_hashes H c)
          else leaf_hashes H c)[idx := H (page (pwrite c off src) idx)]
         = leaf_hashes H (pwrite c off src)" (is "?l[idx := ?h] = ?r")
proof (rule nth_equalityI)
  show "length (?l[idx := ?h]) = length ?r"
    by (auto simp: num_chunks_pwrite [OF src lo hi])
next
  fix i assume i: "i < length (?l[idx := ?h])"
  then have i': "i < num_chunks (pwrite c off src)"
    by (auto simp: num_chunks_pwrite [OF src lo hi] split: if_splits)
  have zero: "H (zeros CHUNK_SIZE) = HASH_OF_4096_ZEROS"
    using z by (simp add: zero_hash_ok_def CHUNK_SIZE_def)
  show "?l[idx := ?h] ! i = ?r ! i"
  proof (cases "i = idx")
    case True
    with i i' show ?thesis by (auto simp: nth_leaf_hashes split: if_splits)
  next
    case False
    with i i' zero show ?thesis
      by (auto simp: nth_leaf_hashes page_pwrite_other [OF lo hi] nth_vec_resize page_beyond
          split: if_splits)
  qed
qed

lemma update_hash_pwrite:
  assumes "zero_hash_ok H" and "src \<noteq> []"
    and "CHUNK_SIZE * idx \<le> off" and "off + length src \<le> CHUNK_SIZE * Suc idx"
    and "leaves t = leaf_hashes H c" and "Suc idx < u64_limit"
    and "h = H (page (pwrite c off src) idx)"
  shows "update_hash t idx h n =
    Ok \<lparr>leaves = leaf_hashes H (pwrite c off src), ml_file_size = max (ml_file_size t) n\<rparr>"
  using leaf_hashes_pwrite [OF assms(1-4), of c] assms(5-7)
  by (auto simp: update_hash_def Let_def index_vec_def)

section \<open>Changing the length\<close>

lemma num_chunks_resize [simp]: "num_chunks (resize_bytes n c) = ceil_div n CHUNK_SIZE"
  by (simp add: num_chunks_def)

lemma page_resize_full:
  "CHUNK_SIZE * Suc i \<le> n \<Longrightarrow> page (resize_bytes n c) i = page c i"
  by (rule page_eqI [symmetric]) (auto simp: nth_page byte_at_resize_bytes)

lemma page_resize_grown:
  "length c \<le> n \<Longrightarrow> page (resize_bytes n c) i = page c i"
  by (rule page_eqI [symmetric]) (auto simp: nth_page byte_at_resize_bytes)

lemma page_resize_tail:
  "n mod CHUNK_SIZE = m \<Longrightarrow> n div CHUNK_SIZE = i \<Longrightarrow>
   page (resize_bytes n c) i = take m (page c i) @ zeros (CHUNK_SIZE - m)"
proof (rule page_eqI [symmetric])
  assume m: "n mod CHUNK_SIZE = m" and i: "n div CHUNK_SIZE = i"
  have mlt: "m < CHUNK_SIZE" using m by auto
  have n: "n = CHUNK_SIZE * i + m" using m i by (metis mult_div_mod_eq)
  show "length (take m (page c i) @ zeros (CHUNK_SIZE - m)) = CHUNK_SIZE"
    using mlt by simp
  fix j assume "j < CHUNK_SIZE"
  then show "(take m (page c i) @ zeros (CHUNK_SIZE - m)) ! j =
      byte_at (resize_bytes n c) (CHUNK_SIZE * i + j)"
    using mlt n by (auto simp: nth_append nth_page byte_at_resize_bytes)
qed

text \<open>The leaves after the caller has fixed the last one of a file cut inside a chunk.\<close>

definition tail_fixed :: "(bytes \<Rightarrow> Sha256Hash) \<Rightarrow> nat \<Rightarrow> bytes \<Rightarrow> Sha256Hash list" where
  "tail_fixed H n c =
     (if n < length c \<and> 0 < n mod CHUNK_SIZE
      then (leaf_hashes H c)[n div CHUNK_SIZE := H (page (resize_bytes n c) (n div CHUNK_SIZE))]
      else leaf_hashes H c)"

lemma leaf_hashes_resize:
  assumes z: "zero_hash_ok H"
  shows "vec_resize (ceil_div n CHUNK_SIZE) HASH_OF_4096_ZEROS (tail_fixed H n c) =
         leaf_hashes H (resize_bytes n c)"
proof (rule nth_equalityI)
  show "length (vec_resize (ceil_div n CHUNK_SIZE) HASH_OF_4096_ZEROS (tail_fixed H n c)) =
      length (leaf_hashes H (resize_bytes n c))" by simp
next
  fix i assume "i < length (vec_resize (ceil_div n CHUNK_SIZE) HASH_OF_4096_ZEROS (tail_fixed H n c))"
  then have i: "i < ceil_div n CHUNK_SIZE" and i': "CHUNK_SIZE * i < n"
    by (simp_all add: less_ceil_div_iff)
  have zero: "H (zeros CHUNK_SIZE) = HASH_OF_4096_ZEROS"
    using z by (simp add: zero_hash_ok_def CHUNK_SIZE_def)
  have rhs: "leaf_hashes H (resize_bytes n c) ! i = H (page (resize_bytes n c) i)"
    using i by (simp add: nth_leaf_hashes)
  have full: "page (resize_bytes n c) i = page c i" if "i \<noteq> n div CHUNK_SIZE \<or> n mod CHUNK_SIZE = 0"
  proof (rule page_resize_full)
    have le: "i \<le> n div CHUNK_SIZE"
      using i' by (simp add: less_eq_div_iff_mult_less_eq mult.commute)
    have "i \<noteq> n div CHUNK_SIZE"
      using that i' by (metis add.right_neutral mult_div_mod_eq nat_neq_iff)
    with le have "CHUNK_SIZE * Suc i \<le> CHUNK_SIZE * (n div CHUNK_SIZE)"
      by (intro mult_le_mono2) simp
    then show "CHUNK_SIZE * Suc i \<le> n"
      using times_div_less_eq_dividend order_trans by blast
  qed
  show "vec_resize (ceil_div n CHUNK_SIZE) HASH_OF_4096_ZEROS (tail_fixed H n c) ! i =
      leaf_hashes H (resize_bytes n c) ! i"
  proof (cases "n < length c")
    case True
    then have "i < num_chunks c"
      using i ceil_div_mono [of CHUNK_SIZE n "length c"] by (simp add: num_chunks_def)
    with True i rhs full show ?thesis
      by (cases "i = n div CHUNK_SIZE") (auto simp: nth_vec_resize tail_fixed_def nth_leaf_hashes)
  next
    case False
    with i rhs zero page_resize_grown [of c n] show ?thesis
      by (auto simp: nth_vec_resize tail_fixed_def nth_leaf_hashes page_beyond)
  qed
qed

lemma MerkleLeaves_resize_represents:
  assumes "zero_hash_ok H" and "leaves t = tail_fixed H n c" and "n + CHUNK_SIZE < u64_limit"
  shows "MerkleLeaves_resize t n =
    Ok \<lparr>leaves = leaf_hashes H (resize_bytes n c), ml_file_size = n\<rparr>"
  using assms leaf_hashes_resize [OF assms(1), of n c]
  by (simp add: MerkleLeaves_resize_def divide_roundup_ceil)

end
