(* ===== verification/FileTraits.thy ===== *)
theory FileTraits
  imports AuthCommon
begin

text \<open>
  \<^verbatim>\<open>authfs/src/file.rs\<close>: the traits \<open>ReadByChunk\<close> and \<open>RandomWrite\<close>, with the provided
  method \<open>write_all_at\<close>.

  An implementation of the traits over a state \<open>'s\<close> (the file, the remote service) is a
  function per method. The contracts of the traits are the locales below; every
  implementation of the repository interprets them in its own theory:

  \<^item> \<open>prefix_reader\<close>: what the type of \<open>read_chunk\<close> and its use of \<open>copy_from_slice\<close>
    give for any file, trusted or not: the buffer keeps its length and only its first
    \<open>size\<close> bytes are overwritten;
  \<^item> \<open>chunk_reader\<close>: a reader of an honest file returns the requested chunk;
  \<^item> \<open>random_writer\<close>: an honest file makes progress and stores what is written;
  \<^item> \<open>editable_file\<close>: both, of the same file.

  \<open>write_all_at\<close> is the one loop of the program that need not end (a file that keeps
  accepting zero bytes keeps it running): its model takes fuel, and \<open>write_all_at_ok\<close>
  shows that the length of the buffer is enough for every file that makes progress.
\<close>

section \<open>Definitions\<close>

type_synonym ChunkBuffer = bytes

type_synonym 's read_chunk_fn = "nat \<Rightarrow> ChunkBuffer \<Rightarrow> ('s, nat \<times> ChunkBuffer, io_error) prog"
type_synonym 's write_at_fn = "bytes \<Rightarrow> nat \<Rightarrow> ('s, nat, io_error) prog"
type_synonym 's resize_fn = "nat \<Rightarrow> ('s, unit, io_error) prog"

text \<open>\<open>while input_offset < buf.len() { ... }\<close>\<close>

fun write_all_loop :: "'s write_at_fn \<Rightarrow> nat \<Rightarrow> bytes \<Rightarrow> nat \<Rightarrow> nat \<Rightarrow> ('s, unit, io_error) prog" where
  "write_all_loop w 0 buf input_offset output_offset =
     ret (if input_offset < length buf then OutOfFuel else Ok ())"
| "write_all_loop w (Suc fuel) buf input_offset output_offset =
     (if input_offset < length buf then
        bind_prog (w (drop input_offset buf) output_offset) (\<lambda>k.
        bind_prog (ret (u64_add input_offset k)) (\<lambda>input_offset'.
        bind_prog (ret (u64_add output_offset k)) (\<lambda>output_offset'.
        write_all_loop w fuel buf input_offset' output_offset')))
      else ret (Ok ()))"

definition write_all_at :: "'s write_at_fn \<Rightarrow> nat \<Rightarrow> bytes \<Rightarrow> nat \<Rightarrow> ('s, unit, io_error) prog" where
  "write_all_at w fuel buf off = write_all_loop w fuel buf 0 off"

section \<open>Contracts\<close>

locale prefix_reader =
  fixes read_chunk :: "'s read_chunk_fn"
  assumes read_prefix:
    "read_chunk i buf s = (Ok (n, buf'), s') \<Longrightarrow> length buf = CHUNK_SIZE \<Longrightarrow>
     n \<le> CHUNK_SIZE \<and> (\<exists>d. length d = n \<and> buf' = d @ drop n buf)"
begin

lemma length_read:
  "read_chunk i buf s = (Ok (n, buf'), s') \<Longrightarrow> length buf = CHUNK_SIZE \<Longrightarrow> length buf' = CHUNK_SIZE"
  using read_prefix by fastforce

text \<open>Read into a zeroed buffer, the buffer is the data read, padded with zeros.\<close>

lemma read_into_zeros:
  assumes "read_chunk i (zeros CHUNK_SIZE) s = (Ok (n, buf'), s')"
  shows "n \<le> CHUNK_SIZE" and "buf' = resize_bytes CHUNK_SIZE (take n buf')"
  using read_prefix [OF assms] by (auto simp: resize_bytes_def vec_resize_def zeros_def)

end

locale chunk_reader = prefix_reader read_chunk for read_chunk :: "'s read_chunk_fn" +
  fixes content :: "'s \<Rightarrow> bytes" and good :: "'s \<Rightarrow> bool"
  assumes read_ok:
    "good s \<Longrightarrow> CHUNK_SIZE * i < length (content s) \<Longrightarrow> length buf = CHUNK_SIZE \<Longrightarrow>
     d = take CHUNK_SIZE (drop (CHUNK_SIZE * i) (content s)) \<Longrightarrow>
     \<exists>s'. read_chunk i buf s = (Ok (length d, d @ drop (length d) buf), s') \<and>
          good s' \<and> content s' = content s"

locale random_writer =
  fixes write_at :: "'s write_at_fn" and resize :: "'s resize_fn"
    and content :: "'s \<Rightarrow> bytes" and good :: "'s \<Rightarrow> bool"
  assumes write_ok:
    "good s \<Longrightarrow> buf \<noteq> [] \<Longrightarrow> length buf \<le> i32_max \<Longrightarrow> off + length buf \<le> i64_max \<Longrightarrow>
     \<exists>k s'. write_at buf off s = (Ok k, s') \<and> 0 < k \<and> k \<le> length buf \<and> good s' \<and>
            content s' = pwrite (content s) off (take k buf)"
  and resize_ok:
    "good s \<Longrightarrow> n \<le> i64_max \<Longrightarrow>
     \<exists>s'. resize n s = (Ok (), s') \<and> good s' \<and> content s' = resize_bytes n (content s)"
begin

lemma write_all_loop_ok:
  assumes "good s" and "length buf \<le> i32_max" and "off + length buf \<le> i64_max"
    and "i \<le> length buf" and "length buf - i \<le> fuel"
  shows "\<exists>s'. write_all_loop write_at fuel buf i (off + i) s = (Ok (), s') \<and> good s' \<and>
              content s' = pwrite (content s) (off + i) (drop i buf)"
  using assms
proof (induction fuel arbitrary: i s)
  case 0
  then show ?case by simp
next
  case (Suc fuel)
  show ?case
  proof (cases "i < length buf")
    case False
    with Suc.prems show ?thesis by simp
  next
    case True
    let ?b = "drop i buf"
    have "?b \<noteq> []" "length ?b \<le> i32_max" "(off + i) + length ?b \<le> i64_max"
      using True Suc.prems by auto
    then obtain k s1 where w: "write_at ?b (off + i) s = (Ok k, s1)" "0 < k" "k \<le> length ?b"
      "good s1" "content s1 = pwrite (content s) (off + i) (take k ?b)"
      using write_ok [OF Suc.prems(1)] by blast
    have lim: "off + length buf < u64_limit"
      using Suc.prems(3) i64_max_less_u64_limit by linarith
    with w(3) True have adds: "u64_add i k = (Ok (i + k) :: (nat, io_error) outcome)"
      "u64_add (off + i) k = (Ok (off + (i + k)) :: (nat, io_error) outcome)"
      by (auto simp: u64_add_def)
    have nxt: "i + k \<le> length buf" "length buf - (i + k) \<le> fuel"
      using w(2,3) True Suc.prems(5) by auto
    obtain s2 where s2: "write_all_loop write_at fuel buf (i + k) (off + (i + k)) s1 = (Ok (), s2)"
      "good s2" "content s2 = pwrite (content s1) (off + (i + k)) (drop (i + k) buf)"
      using Suc.IH [OF w(4) Suc.prems(2,3) nxt] by blast
    have "content s2 = pwrite (content s) (off + i) ?b"
    proof -
      have "drop (i + k) buf = drop k ?b" "off + (i + k) = (off + i) + length (take k ?b)"
        using w(3) by (simp_all add: add.commute)
      then show ?thesis
        using s2(3) w(5) pwrite_append [of "content s" "off + i" "take k ?b" "drop k ?b"]
        by (simp only: append_take_drop_id)
    qed
    with True w(1) adds s2 show ?thesis by simp
  qed
qed

text \<open>With as much fuel as there are bytes, everything is written.\<close>

lemma write_all_at_ok:
  assumes "good s" and "length buf \<le> i32_max" and "off + length buf \<le> i64_max"
    and "length buf \<le> fuel"
  shows "\<exists>s'. write_all_at write_at fuel buf off s = (Ok (), s') \<and> good s' \<and>
              content s' = pwrite (content s) off buf"
  using write_all_loop_ok [OF assms(1-3), of 0 fuel] assms(4) by (simp add: write_all_at_def)

end

locale editable_file =
  chunk_reader read_chunk content good + random_writer write_at resize content good
  for read_chunk :: "'s read_chunk_fn" and write_at :: "'s write_at_fn" and resize :: "'s resize_fn"
    and content :: "'s \<Rightarrow> bytes" and good :: "'s \<Rightarrow> bool"

section \<open>What an untrusted file may serve\<close>

text \<open>The blocks read into a zeroed buffer, and the data read into any buffer, padded with
  zeros to a block.\<close>

definition served_blocks :: "'s read_chunk_fn \<Rightarrow> bytes set" where
  "served_blocks rd = {b. \<exists>i s n s'. rd i (zeros CHUNK_SIZE) s = (Ok (n, b), s')}"

definition served_chunks :: "'s read_chunk_fn \<Rightarrow> bytes set" where
  "served_chunks rd =
     {resize_bytes CHUNK_SIZE (take n b) | n b. \<exists>i buf s s'. rd i buf s = (Ok (n, b), s')}"

section \<open>More fuel never changes a result\<close>

lemma write_all_loop_mono:
  "write_all_loop w fuel buf i k s = (r, s') \<Longrightarrow> r \<noteq> OutOfFuel \<Longrightarrow>
   write_all_loop w (Suc fuel) buf i k s = (r, s')"
proof (induction fuel arbitrary: i k s)
  case 0
  then show ?case by (auto split: if_splits)
next
  case (Suc fuel)
  show ?case
  proof (cases "i < length buf")
    case True
    from Suc.prems(1) True have "bind_prog (w (drop i buf) k) (\<lambda>n.
        bind_prog (ret (u64_add i n)) (\<lambda>i'. bind_prog (ret (u64_add k n)) (\<lambda>k'.
        write_all_loop w fuel buf i' k'))) s = (r, s')"
      by simp
    then have "bind_prog (w (drop i buf) k) (\<lambda>n.
        bind_prog (ret (u64_add i n)) (\<lambda>i'. bind_prog (ret (u64_add k n)) (\<lambda>k'.
        write_all_loop w (Suc fuel) buf i' k'))) s = (r, s')"
      by (elim bind_prog_transfer Suc.IH) (rule Suc.prems(2))
    with True show ?thesis by (subst write_all_loop.simps(2)) (simp only: if_True)
  next
    case False
    with Suc.prems show ?thesis by simp
  qed
qed

text \<open>A file that always accepts zero bytes keeps the loop running: no fuel is enough.\<close>

lemma write_all_at_spins:
  assumes "\<And>b k. w b k s = (Ok 0, s)" and "buf \<noteq> []" and "off < u64_limit"
  shows "fst (write_all_at w fuel buf off s) = OutOfFuel"
proof -
  have "0 < u64_limit" by (simp add: u64_limit_def)
  then have "write_all_loop w fuel buf 0 off s = (OutOfFuel, s)"
    by (induction fuel) (use assms in simp_all)
  then show ?thesis by (simp add: write_all_at_def)
qed

end
