(* ===== verification/Editor.thy ===== *)
theory Editor
  imports Builder FileTraits
begin

text \<open>
  \<^verbatim>\<open>authfs/src/fsverity/editor.rs\<close>: \<open>VerifiedFileEditor\<close>, the writer that keeps the leaves of
  the Merkle tree in trusted memory while the data goes to an untrusted file.

  The state is the tree and the state of the backing file; the methods of the backing file
  are arguments (\<open>rd\<close>, \<open>w\<close>, \<open>rz\<close>). The lock around the tree does not appear: a
  resize holds it throughout, a write once per piece; writes whose pieces interleave are the
  subject of theory \<^verbatim>\<open>EditorThreads\<close>.

  Two groups of lemmas: against any backing file the tree follows what the trusted side has
  written (inside \<open>prefix_reader\<close>); on a backing file that keeps the contract
  \<open>editable_file\<close> the operations succeed and tree and file stay in step.
\<close>

section \<open>Definitions\<close>

record 's VerifiedFileEditor =
  merkle_tree :: MerkleLeaves
  backing :: 's

definition VerifiedFileEditor_new :: "'s \<Rightarrow> 's VerifiedFileEditor" where
  "VerifiedFileEditor_new s = \<lparr>merkle_tree = MerkleLeaves_new, backing = s\<rparr>"

text \<open>A call on the backing file; reading and updating the tree.\<close>

definition on_file :: "('s, 'a, 'e) prog \<Rightarrow> ('s VerifiedFileEditor, 'a, 'e) prog" where
  "on_file p st = (case p (backing st) of (r, s') \<Rightarrow> (r, st\<lparr>backing := s'\<rparr>))"

definition get_tree :: "('s VerifiedFileEditor, MerkleLeaves, 'e) prog" where
  "get_tree st = (Ok (merkle_tree st), st)"

definition update_tree ::
  "(MerkleLeaves \<Rightarrow> (MerkleLeaves, 'e) outcome) \<Rightarrow> ('s VerifiedFileEditor, unit, 'e) prog" where
  "update_tree f st =
     (case f (merkle_tree st) of
        Ok t \<Rightarrow> (Ok (), st\<lparr>merkle_tree := t\<rparr>)
      | Err e \<Rightarrow> (Err e, st)
      | Panic \<Rightarrow> (Panic, st)
      | OutOfFuel \<Rightarrow> (OutOfFuel, st))"

text \<open>\<open>impl From<CryptoError> for io::Error\<close>\<close>

definition io_error_from_crypto :: "CryptoError \<Rightarrow> io_error" where
  "io_error_from_crypto e = KindError Other"

definition sha256_io :: "'c sha256_ffi \<Rightarrow> bytes list \<Rightarrow> (Sha256Hash, io_error) outcome" where
  "sha256_io ffi ds = map_err io_error_from_crypto (sha256_chain ffi ds)"

definition editor_calculate_fsverity_digest ::
  "bool \<Rightarrow> 'c sha256_ffi \<Rightarrow> 's VerifiedFileEditor \<Rightarrow> (Sha256Hash, io_error) outcome" where
  "editor_calculate_fsverity_digest dbg ffi st =
     map_err (\<lambda>_. KindError Other) (calculate_fsverity_digest dbg ffi (merkle_tree st))"

definition editor_size :: "'s VerifiedFileEditor \<Rightarrow> nat" where
  "editor_size st = MerkleLeaves_file_size (merkle_tree st)"

definition editor_read_chunk :: "'s read_chunk_fn \<Rightarrow> 's VerifiedFileEditor read_chunk_fn" where
  "editor_read_chunk rd chunk_index buf = on_file (rd chunk_index buf)"

definition new_hash_for_incomplete_write ::
  "'s read_chunk_fn \<Rightarrow> 'c sha256_ffi \<Rightarrow> bytes \<Rightarrow> nat \<Rightarrow> nat \<Rightarrow>
   ('s VerifiedFileEditor, Sha256Hash, io_error) prog" where
  "new_hash_for_incomplete_write rd ffi source offset_from_alignment output_chunk_index =
     bind_prog get_tree (\<lambda>tree.
     bind_prog
       (if is_index_valid tree output_chunk_index then
          bind_prog (editor_read_chunk rd output_chunk_index (zeros CHUNK_SIZE)) (\<lambda>(_, orig_data).
          bind_prog (ret (sha256_io ffi [orig_data])) (\<lambda>hash.
          if \<not> is_consistent tree output_chunk_index hash then ret (Err (KindError InvalidData))
          else ret (Ok orig_data)))
        else ret (Ok (zeros CHUNK_SIZE))) (\<lambda>orig_data.
     bind_prog (ret (slice_range orig_data 0 offset_from_alignment)) (\<lambda>before.
     bind_prog (ret (u64_add offset_from_alignment (length source))) (\<lambda>end_in_chunk.
     bind_prog (ret (slice_range orig_data end_in_chunk (length orig_data))) (\<lambda>after.
     ret (sha256_io ffi [before, source, after]))))))"

definition new_chunk_hash ::
  "'s read_chunk_fn \<Rightarrow> 'c sha256_ffi \<Rightarrow> bytes \<Rightarrow> nat \<Rightarrow> nat \<Rightarrow> nat \<Rightarrow>
   ('s VerifiedFileEditor, Sha256Hash, io_error) prog" where
  "new_chunk_hash rd ffi source offset_from_alignment current_size output_chunk_index =
     (if current_size = CHUNK_SIZE then ret (sha256_io ffi [source])
      else new_hash_for_incomplete_write rd ffi source offset_from_alignment output_chunk_index)"

text \<open>How the loop of \<open>write_at\<close> is left before its end.\<close>

datatype write_exit = ReturnOk nat | ReturnErr io_error

definition write_piece ::
  "'s read_chunk_fn \<Rightarrow> 's write_at_fn \<Rightarrow> 'c sha256_ffi \<Rightarrow> nat \<Rightarrow> bytes \<Rightarrow> nat \<Rightarrow> unit \<Rightarrow> nat \<times> nat \<Rightarrow>
   ('s VerifiedFileEditor, unit, write_exit) prog" where
  "write_piece rd w ffi fuel buf off _ piece =
     (case piece of (output_offset, current_size) \<Rightarrow>
      bind_prog (ret (u64_sub output_offset off)) (\<lambda>offset_in_buf.
      bind_prog (ret (u64_add offset_in_buf current_size)) (\<lambda>end_in_buf.
      bind_prog (ret (slice_range buf offset_in_buf end_in_buf)) (\<lambda>source.
      let output_chunk_index = output_offset div CHUNK_SIZE;
          offset_from_alignment = output_offset mod CHUNK_SIZE
      in bind_prog (map_err_prog
             (\<lambda>e. if 0 < output_offset - off then ReturnOk (output_offset - off) else ReturnErr e)
             (new_chunk_hash rd ffi source offset_from_alignment current_size output_chunk_index))
           (\<lambda>new_hash.
         bind_prog (map_err_prog ReturnErr (on_file (write_all_at w fuel source output_offset))) (\<lambda>_.
         update_tree (\<lambda>tree. update_hash tree output_chunk_index new_hash
           (saturating_add off (length buf)))))))))"

definition finish_write :: "nat \<Rightarrow> (unit, write_exit) outcome \<Rightarrow> (nat, io_error) outcome" where
  "finish_write n r =
     (case r of
        Ok _ \<Rightarrow> Ok n
      | Err (ReturnOk k) \<Rightarrow> Ok k
      | Err (ReturnErr e) \<Rightarrow> Err e
      | Panic \<Rightarrow> Panic
      | OutOfFuel \<Rightarrow> OutOfFuel)"

definition editor_write_at ::
  "'s read_chunk_fn \<Rightarrow> 's write_at_fn \<Rightarrow> 'c sha256_ffi \<Rightarrow> nat \<Rightarrow> 's VerifiedFileEditor write_at_fn" where
  "editor_write_at rd w ffi fuel buf off st =
     (case chunked_try_fold (write_piece rd w ffi fuel buf off) ()
             (ChunkedSizeIter_new (length buf) off CHUNK_SIZE) st of
        (r, st') \<Rightarrow> (finish_write (length buf) r, st'))"

text \<open>The part of \<open>resize\<close> that recomputes the hash of the new last chunk.\<close>

definition resize_tail ::
  "bool \<Rightarrow> 's read_chunk_fn \<Rightarrow> 'c sha256_ffi \<Rightarrow> nat \<Rightarrow> MerkleLeaves \<Rightarrow>
   ('s VerifiedFileEditor, unit, io_error) prog" where
  "resize_tail dbg rd ffi n tree =
     (if n < MerkleLeaves_file_size tree \<and> 0 < n mod CHUNK_SIZE then
        let new_tail_size = n mod CHUNK_SIZE; chunk_index = n div CHUNK_SIZE in
        if 0 < new_tail_size then
          bind_prog (editor_read_chunk rd chunk_index (zeros CHUNK_SIZE)) (\<lambda>(s, buf).
          bind_prog (ret (debug_assert dbg (new_tail_size \<le> s))) (\<lambda>_.
          bind_prog (ret (slice_range buf 0 new_tail_size)) (\<lambda>tail.
          bind_prog (ret (sha256_io ffi [tail, zeros (CHUNK_SIZE - new_tail_size)])) (\<lambda>new_hash.
          update_tree (\<lambda>tree'. update_hash tree' chunk_index new_hash n)))))
        else ret (Ok ())
      else ret (Ok ()))"

definition editor_resize ::
  "bool \<Rightarrow> 's read_chunk_fn \<Rightarrow> 's resize_fn \<Rightarrow> 'c sha256_ffi \<Rightarrow> 's VerifiedFileEditor resize_fn" where
  "editor_resize dbg rd rz ffi n =
     bind_prog get_tree (\<lambda>tree.
     bind_prog (resize_tail dbg rd ffi n tree) (\<lambda>_.
     bind_prog (on_file (rz n)) (\<lambda>_.
     update_tree (\<lambda>tree'. MerkleLeaves_resize tree' n))))"

section \<open>Steps of the monad\<close>

lemma on_file_Ok: "p (backing st) = (Ok a, s') \<Longrightarrow> on_file p st = (Ok a, st\<lparr>backing := s'\<rparr>)"
  by (simp add: on_file_def)

lemma get_tree_simp [simp]: "get_tree st = (Ok (merkle_tree st), st)"
  by (simp add: get_tree_def)

lemma on_file_tree [simp]: "merkle_tree (snd (on_file p st)) = merkle_tree st"
  by (simp add: on_file_def split: prod.splits)

lemma update_tree_Ok [simp]:
  "f (merkle_tree st) = Ok t \<Longrightarrow> update_tree f st = (Ok (), st\<lparr>merkle_tree := t\<rparr>)"
  by (simp add: update_tree_def)

lemma sha256_io_hash [simp]: "sha256_lib ffi H \<Longrightarrow> sha256_io ffi ds = Ok (H (concat ds))"
  by (simp add: sha256_io_def sha256_chain_hash)

section \<open>Any backing file: the tree follows what was written\<close>

lemma new_chunk_hash_tree [simp]:
  "merkle_tree (snd (new_chunk_hash rd ffi src k m idx st)) = merkle_tree st"
  unfolding new_chunk_hash_def new_hash_for_incomplete_write_def editor_read_chunk_def
  by (auto intro!: bind_prog_state [where P = "\<lambda>x. merkle_tree x = merkle_tree st"]
      split: prod.splits)

lemma page_pwrite_before:
  "off + length b \<le> CHUNK_SIZE * i \<Longrightarrow> page (pwrite c off b) i = page c i"
  by (rule page_eqI [symmetric]) (auto simp: nth_page byte_at_pwrite)

text \<open>The original block is checked against the leaf, so it is the genuine one.\<close>

lemma original_block_sound:
  assumes H: "sha256_lib ffi H" and l: "leaves t = leaf_hashes H c"
    and nf: "\<not> forges H (served_blocks rd) {page c idx}"
    and b: "rd idx (zeros CHUNK_SIZE) s = (Ok (n, b), s')"
    and ok: "is_consistent t idx (H b)"
  shows "b = page c idx"
proof -
  from ok l have "idx < num_chunks c" "H b = H (page c idx)"
    by (auto simp: is_consistent_def nth_leaf_hashes split: if_splits)
  moreover have "b \<in> served_blocks rd"
    using b by (auto simp: served_blocks_def)
  ultimately show ?thesis using not_forgesD [OF nf] by blast
qed

lemma new_chunk_hash_sound:
  assumes H: "sha256_lib ffi H" and l: "leaves (merkle_tree st) = leaf_hashes H c"
    and nf: "\<not> forges H (served_blocks rd) {page c idx}"
    and lo: "CHUNK_SIZE * idx \<le> o1" and hi: "o1 + length src \<le> CHUNK_SIZE * Suc idx"
    and k: "k = o1 - CHUNK_SIZE * idx"
    and res: "new_chunk_hash rd ffi src k (length src) idx st = (Ok h, st')"
  shows "h = H (page (pwrite c o1 src) idx)"
proof (cases "length src = CHUNK_SIZE")
  case True
  with lo hi k have "k = 0" by simp
  with True have "page (pwrite c o1 src) idx = src"
    using page_pwrite_same [OF lo hi k] by simp
  with True res H show ?thesis by (simp add: new_chunk_hash_def)
next
  case False
  note page = page_pwrite_same [OF lo hi k, of c]
  show ?thesis
  proof (cases "is_index_valid (merkle_tree st) idx")
    case True
    with False res H obtain n b s1 where
      b: "rd idx (zeros CHUNK_SIZE) (backing st) = (Ok (n, b), s1)"
        "is_consistent (merkle_tree st) idx (H b)" and
      h: "h = H (take k b @ src @ drop (k + length src) b)"
      by (auto simp: new_chunk_hash_def new_hash_for_incomplete_write_def editor_read_chunk_def
          on_file_def bind_prog_Ok_iff slice_range_def u64_add_def split: if_splits prod.splits)
    have "b = page c idx"
      by (rule original_block_sound [OF H l nf b])
    with h page show ?thesis by simp
  next
    case invalid: False
    then have "page c idx = zeros CHUNK_SIZE"
      using l by (intro page_beyond) (simp add: is_index_valid_def)
    with page invalid False res H show ?thesis
      by (auto simp: new_chunk_hash_def new_hash_for_incomplete_write_def bind_prog_Ok_iff
          slice_range_def u64_add_def split: if_splits)
  qed
qed

text \<open>One turn of the loop, at the \<open>m\<close>-th byte of the buffer.\<close>

lemma write_piece_eq:
  assumes "m + k \<le> length buf" and "off + length buf < u64_limit"
  shows "write_piece rd w ffi fuel buf off u (off + m, k) =
    bind_prog (map_err_prog (\<lambda>e. if 0 < m then ReturnOk m else ReturnErr e)
      (new_chunk_hash rd ffi (take k (drop m buf)) ((off + m) mod CHUNK_SIZE) k ((off + m) div CHUNK_SIZE)))
      (\<lambda>new_hash.
    bind_prog (map_err_prog ReturnErr (on_file (write_all_at w fuel (take k (drop m buf)) (off + m)))) (\<lambda>_.
    update_tree (\<lambda>tree. update_hash tree ((off + m) div CHUNK_SIZE) new_hash (off + length buf))))"
  using assms by (simp add: write_piece_def Let_def saturating_add_def cong: if_cong)

lemma piece_in_chunk:
  assumes "(o1 :: nat) mod CHUNK_SIZE + k \<le> CHUNK_SIZE"
  shows "CHUNK_SIZE * (o1 div CHUNK_SIZE) \<le> o1" "o1 + k \<le> CHUNK_SIZE * Suc (o1 div CHUNK_SIZE)"
    "o1 mod CHUNK_SIZE = o1 - CHUNK_SIZE * (o1 div CHUNK_SIZE)"
  using assms mult_div_mod_eq [of CHUNK_SIZE o1] by (simp_all only: mult_Suc_right)

text \<open>The pieces written before do not touch the chunk of the next one.\<close>

lemma page_of_next_piece:
  assumes "m = 0 \<or> (off + m) mod CHUNK_SIZE = 0" and "m \<le> length buf"
  shows "page (pwrite c off (take m buf)) ((off + m) div CHUNK_SIZE) = page c ((off + m) div CHUNK_SIZE)"
  using assms(1)
proof
  assume "(off + m) mod CHUNK_SIZE = 0"
  then have "off + length (take m buf) \<le> CHUNK_SIZE * ((off + m) div CHUNK_SIZE)"
    using assms(2) mult_div_mod_eq [of CHUNK_SIZE "off + m"] by simp
  then show ?thesis by (rule page_pwrite_before)
qed simp

text \<open>The update a turn makes if it gets that far.\<close>

lemma piece_update_at:
  assumes z: "zero_hash_ok H" and l: "leaves t = leaf_hashes H d"
    and k: "0 < k" "m + k \<le> length buf" "(off + m) mod CHUNK_SIZE + k \<le> CHUNK_SIZE"
    and lim: "off + length buf < u64_limit"
    and hsh: "hsh = H (page (pwrite d (off + m) (take k (drop m buf))) ((off + m) div CHUNK_SIZE))"
  shows "update_hash t ((off + m) div CHUNK_SIZE) hsh (off + length buf) =
      (Ok \<lparr>leaves = leaf_hashes H (pwrite d (off + m) (take k (drop m buf))),
         ml_file_size = max (ml_file_size t) (off + length buf)\<rparr>
       :: (MerkleLeaves, write_exit) outcome)"
proof -
  let ?src = "take k (drop m buf)"
  have src: "?src \<noteq> []" "length ?src = k" using k by auto
  have "(off + m) mod CHUNK_SIZE + length ?src \<le> CHUNK_SIZE" using k(3) src(2) by simp
  note geo = piece_in_chunk [OF this]
  have idx: "Suc ((off + m) div CHUNK_SIZE) < u64_limit"
    using k lim div_le_dividend [of "off + m" CHUNK_SIZE] by linarith
  show ?thesis
    using update_hash_pwrite [OF z src(1) geo(1,2), of t d hsh] l idx hsh by simp
qed

text \<open>After the pieces before it, the next piece extends what has been written of the buffer.\<close>

lemma pwrite_next_piece:
  "m + k \<le> length buf \<Longrightarrow>
   pwrite (pwrite c off (take m buf)) (off + m) (take k (drop m buf)) = pwrite c off (take (m + k) buf)"
  using pwrite_append [of c off "take m buf" "take k (drop m buf)"] by (simp add: take_add)

lemma piece_update:
  assumes "zero_hash_ok H" and "leaves t = leaf_hashes H (pwrite c off (take m buf))"
    and "0 < k" "m + k \<le> length buf" "(off + m) mod CHUNK_SIZE + k \<le> CHUNK_SIZE"
    and "off + length buf < u64_limit"
    and "hsh = H (page (pwrite (pwrite c off (take m buf)) (off + m) (take k (drop m buf)))
      ((off + m) div CHUNK_SIZE))"
  shows "update_hash t ((off + m) div CHUNK_SIZE) hsh (off + length buf) =
      (Ok \<lparr>leaves = leaf_hashes H (pwrite c off (take (m + k) buf)),
         ml_file_size = max (ml_file_size t) (off + length buf)\<rparr>
       :: (MerkleLeaves, write_exit) outcome)"
  using piece_update_at [OF assms] by (simp add: pwrite_next_piece [OF assms(4)])

lemma write_piece_hash:
  assumes H: "sha256_lib ffi H"
    and l: "leaves (merkle_tree st) = leaf_hashes H (pwrite c off (take m buf))"
    and nf: "\<not> forges H (served_blocks rd) (range (page c))"
    and m: "m = 0 \<or> (off + m) mod CHUNK_SIZE = 0"
    and k: "m + k \<le> length buf" "(off + m) mod CHUNK_SIZE + k \<le> CHUNK_SIZE"
    and h: "new_chunk_hash rd ffi (take k (drop m buf)) ((off + m) mod CHUNK_SIZE) k
      ((off + m) div CHUNK_SIZE) st = (Ok hsh, s1)"
  shows "hsh = H (page (pwrite (pwrite c off (take m buf)) (off + m) (take k (drop m buf)))
      ((off + m) div CHUNK_SIZE))"
proof -
  let ?cm = "pwrite c off (take m buf)" and ?idx = "(off + m) div CHUNK_SIZE"
  have src: "length (take k (drop m buf)) = k" using k by simp
  have nf': "\<not> forges H (served_blocks rd) {page ?cm ?idx}"
    using nf forges_mono [of H "served_blocks rd" "{page ?cm ?idx}"] page_of_next_piece [OF m] k(1)
    by fastforce
  have "(off + m) mod CHUNK_SIZE + length (take k (drop m buf)) \<le> CHUNK_SIZE"
    using k(2) src by simp
  from new_chunk_hash_sound [OF H l nf' piece_in_chunk [OF this]] h src show ?thesis by simp
qed

lemma write_piece_sound:
  assumes H: "sha256_lib ffi H" and z: "zero_hash_ok H"
    and l: "leaves (merkle_tree st) = leaf_hashes H (pwrite c off (take m buf))"
    and nf: "\<not> forges H (served_blocks rd) (range (page c))"
    and m: "m = 0 \<or> (off + m) mod CHUNK_SIZE = 0"
    and k: "0 < k" "m + k \<le> length buf" "(off + m) mod CHUNK_SIZE + k \<le> CHUNK_SIZE"
    and lim: "off + length buf < u64_limit"
    and res: "write_piece rd w ffi fuel buf off u (off + m, k) st = (r, st')"
  shows "(r = Ok () \<longrightarrow> merkle_tree st' =
      \<lparr>leaves = leaf_hashes H (pwrite c off (take (m + k) buf)),
       ml_file_size = max (ml_file_size (merkle_tree st)) (off + length buf)\<rparr>) \<and>
    (r \<noteq> Ok () \<longrightarrow> merkle_tree st' = merkle_tree st) \<and>
    (\<forall>n. r = Err (ReturnOk n) \<longrightarrow> n = m \<and> 0 < m)"
proof -
  let ?idx = "(off + m) div CHUNK_SIZE" and ?src = "take k (drop m buf)"
  obtain rh s1 where h: "new_chunk_hash rd ffi ?src ((off + m) mod CHUNK_SIZE) k ?idx st = (rh, s1)"
    by fastforce
  then have t1: "merkle_tree s1 = merkle_tree st" using new_chunk_hash_tree by (metis snd_conv)
  obtain rw s2 where wr: "on_file (write_all_at w fuel ?src (off + m)) s1 = (rw, s2)" by fastforce
  then have t2: "merkle_tree s2 = merkle_tree st" using on_file_tree t1 by (metis snd_conv)
  note eq = res [unfolded write_piece_eq [OF k(2) lim]]
  show ?thesis
  proof (cases rh)
    case (Ok hsh)
    note upd = piece_update [OF z l k lim write_piece_hash [OF H l nf m k(2,3) h [unfolded Ok]]]
    from eq h wr t2 Ok show ?thesis
      by (cases rw) (auto simp: bind_prog_def map_err_prog_def update_tree_def upd)
  qed (use eq h t1 in \<open>auto simp: bind_prog_def map_err_prog_def split: if_splits\<close>)
qed

text \<open>The loop from the \<open>m\<close>-th byte on stops after \<open>m'\<close> bytes.\<close>

lemma piece_next_aligned:
  assumes "k = min n (CHUNK_SIZE - o1 mod CHUNK_SIZE)" and "k \<noteq> n"
  shows "(o1 + k) mod CHUNK_SIZE = 0"
proof -
  have "k = CHUNK_SIZE - o1 mod CHUNK_SIZE" using assms by (auto simp: min_def split: if_splits)
  then have "o1 + k = CHUNK_SIZE * (o1 div CHUNK_SIZE) + CHUNK_SIZE"
    using mult_div_mod_eq [of CHUNK_SIZE o1] mod_less_divisor [OF CHUNK_SIZE_pos, of o1] by linarith
  then show ?thesis by simp
qed

lemma write_pieces_sound:
  assumes H: "sha256_lib ffi H" and z: "zero_hash_ok H"
    and nf: "\<not> forges H (served_blocks rd) (range (page c))"
    and lim: "off + length buf < u64_limit"
    and l: "leaves (merkle_tree st) = leaf_hashes H (pwrite c off (take m buf))"
    and m: "m = 0 \<or> m = length buf \<or> (off + m) mod CHUNK_SIZE = 0" "m \<le> length buf"
    and res: "fold_prog (write_piece rd w ffi fuel buf off) ()
        (chunk_plan CHUNK_SIZE (length buf - m) (off + m)) st = (r, st')"
  shows "\<exists>m'. m \<le> m' \<and> m' \<le> length buf \<and>
     leaves (merkle_tree st') = leaf_hashes H (pwrite c off (take m' buf)) \<and>
     ml_file_size (merkle_tree st') =
       (if m' = m then ml_file_size (merkle_tree st)
        else max (ml_file_size (merkle_tree st)) (off + length buf)) \<and>
     (r = Ok () \<longrightarrow> m' = length buf) \<and> (\<forall>n. r = Err (ReturnOk n) \<longrightarrow> n = m' \<and> 0 < n)"
  using l m res
proof (induction "length buf - m" arbitrary: m st rule: less_induct)
  case less
  show ?case
  proof (cases "m = length buf")
    case True
    with less.prems show ?thesis by auto
  next
    case False
    define k where "k = min (length buf - m) (CHUNK_SIZE - (off + m) mod CHUNK_SIZE)"
    have k: "0 < k" "m + k \<le> length buf" "(off + m) mod CHUNK_SIZE + k \<le> CHUNK_SIZE"
      using False less.prems(3) by (auto simp: k_def min_def less_imp_le)
    obtain r1 s1 where p: "write_piece rd w ffi fuel buf off () (off + m, k) st = (r1, s1)"
      by fastforce
    have m': "m = 0 \<or> (off + m) mod CHUNK_SIZE = 0" using less.prems(2) False by auto
    note step = write_piece_sound [OF H z less.prems(1) nf m' k lim p]
    show ?thesis
    proof (cases "r1 = Ok ()")
      case True
      have "chunk_plan CHUNK_SIZE (length buf - m) (off + m) =
          (off + m, k) # chunk_plan CHUNK_SIZE (length buf - (m + k)) (off + (m + k))"
        using chunk_plan_Cons [OF CHUNK_SIZE_pos _ k_def] False less.prems(3) by (simp add: add.assoc)
      with less.prems(4) p True have rest: "fold_prog (write_piece rd w ffi fuel buf off) ()
          (chunk_plan CHUNK_SIZE (length buf - (m + k)) (off + (m + k))) s1 = (r, st')"
        by simp
      have al: "m + k = 0 \<or> m + k = length buf \<or> (off + (m + k)) mod CHUNK_SIZE = 0"
        using piece_next_aligned [OF k_def] k(2)
        by (cases "k = length buf - m") (simp_all add: add.assoc)
      have "length buf - (m + k) < length buf - m" using k by linarith
      from less.hyps [OF this _ al k(2) rest] step True obtain m' where
        "m + k \<le> m'" "m' \<le> length buf"
        "leaves (merkle_tree st') = leaf_hashes H (pwrite c off (take m' buf))"
        "ml_file_size (merkle_tree st') =
           (if m' = m + k then ml_file_size (merkle_tree s1)
            else max (ml_file_size (merkle_tree s1)) (off + length buf))"
        "r = Ok () \<longrightarrow> m' = length buf" "\<forall>n. r = Err (ReturnOk n) \<longrightarrow> n = m' \<and> 0 < n"
        by auto
      moreover from this step True k have "ml_file_size (merkle_tree st') =
          max (ml_file_size (merkle_tree st)) (off + length buf)"
        by simp
      ultimately show ?thesis using k(1) by (intro exI [of _ m']) simp
    next
      case False
      with less.prems(4) p \<open>m \<noteq> length buf\<close> have "r = r1 \<and> st' = s1"
        using chunk_plan_Cons [OF CHUNK_SIZE_pos _ k_def] less.prems(3)
        by (cases r1) auto
      with False step less.prems show ?thesis by (intro exI [of _ m]) auto
    qed
  qed
qed

text \<open>Whatever the backing file does: the leaves are those of the bytes reported as written.\<close>

lemma editor_write_at_sound:
  assumes H: "sha256_lib ffi H" and z: "zero_hash_ok H"
    and nf: "\<not> forges H (served_blocks rd) (range (page c))"
    and lim: "off + length buf < u64_limit"
    and l: "leaves (merkle_tree st) = leaf_hashes H c"
    and res: "editor_write_at rd w ffi fuel buf off st = (r, st')"
  shows "\<exists>m \<le> length buf.
     leaves (merkle_tree st') = leaf_hashes H (pwrite c off (take m buf)) \<and>
     ml_file_size (merkle_tree st') =
       (if m = 0 then ml_file_size (merkle_tree st)
        else max (ml_file_size (merkle_tree st)) (off + length buf)) \<and>
     (\<forall>n. r = Ok n \<longrightarrow> n = m)"
proof -
  obtain r1 where f: "fold_prog (write_piece rd w ffi fuel buf off) ()
      (chunk_plan CHUNK_SIZE (length buf - 0) (off + 0)) st = (r1, st')"
    and r: "r = finish_write (length buf) r1"
    using res by (auto simp: editor_write_at_def chunked_try_fold_plan [OF CHUNK_SIZE_pos lim]
        split: prod.splits)
  from write_pieces_sound [OF H z nf lim _ _ _ f] l obtain m where m: "m \<le> length buf"
    "leaves (merkle_tree st') = leaf_hashes H (pwrite c off (take m buf))"
    "ml_file_size (merkle_tree st') = (if m = 0 then ml_file_size (merkle_tree st)
       else max (ml_file_size (merkle_tree st)) (off + length buf))"
    "r1 = Ok () \<longrightarrow> m = length buf" "\<forall>n. r1 = Err (ReturnOk n) \<longrightarrow> n = m \<and> 0 < n"
    by auto
  have "\<forall>n. r = Ok n \<longrightarrow> n = m"
    using r m(4,5) by (auto simp: finish_write_def split: outcome.splits write_exit.splits)
  with m show ?thesis by blast
qed

text \<open>A write that is reported as complete keeps the tree that of the content.\<close>

lemma editor_write_at_represents:
  assumes "sha256_lib ffi H" and "zero_hash_ok H"
    and "\<not> forges H (served_blocks rd) (range (page c))"
    and "off + length buf < u64_limit"
    and rep: "represents H (merkle_tree st) c"
    and res: "editor_write_at rd w ffi fuel buf off st = (Ok (length buf), st')"
  shows "represents H (merkle_tree st') (pwrite c off buf)"
  using editor_write_at_sound [OF assms(1-4) _ res] rep
  by (auto simp: represents_def length_pwrite)

text \<open>Changing the length is safe where no data has to be read back.\<close>

lemma editor_resize_represents:
  assumes z: "zero_hash_ok H" and lim: "n + CHUNK_SIZE < u64_limit"
    and rep: "represents H (merkle_tree st) c"
    and safe: "length c \<le> n \<or> n mod CHUNK_SIZE = 0"
    and res: "editor_resize dbg rd rz ffi n st = (Ok (), st')"
  shows "represents H (merkle_tree st') (resize_bytes n c)"
proof -
  have guard: "\<not> (n < MerkleLeaves_file_size (merkle_tree st) \<and> 0 < n mod CHUNK_SIZE)"
    using rep safe by (auto simp: represents_def MerkleLeaves_file_size_def)
  with res obtain s1 where s1: "on_file (rz n) st = (Ok (), s1)"
    "update_tree (\<lambda>t. MerkleLeaves_resize t n) s1 = (Ok () :: (unit, io_error) outcome, st')"
    by (auto simp: editor_resize_def resize_tail_def bind_prog_Ok_iff)
  have t1: "merkle_tree s1 = merkle_tree st"
    using s1(1) on_file_tree by (metis snd_conv)
  then have "leaves (merkle_tree s1) = tail_fixed H n c"
    using rep safe by (auto simp: represents_def tail_fixed_def)
  from MerkleLeaves_resize_represents [OF z this lim, where 'a = io_error] s1(2) show ?thesis
    by (auto simp: represents_def)
qed

section \<open>Sequences of edits\<close>

datatype edit = EditWrite nat bytes | EditResize nat

fun apply_edit :: "edit \<Rightarrow> bytes \<Rightarrow> bytes" where
  "apply_edit (EditWrite off buf) c = pwrite c off buf"
| "apply_edit (EditResize n) c = resize_bytes n c"

definition apply_edits :: "edit list \<Rightarrow> bytes \<Rightarrow> bytes" where
  "apply_edits es c = fold apply_edit es c"

text \<open>An edit counts as done only if it is reported as complete.\<close>

fun editor_edit ::
  "bool \<Rightarrow> 's read_chunk_fn \<Rightarrow> 's write_at_fn \<Rightarrow> 's resize_fn \<Rightarrow> 'c sha256_ffi \<Rightarrow> nat \<Rightarrow> edit \<Rightarrow>
   ('s VerifiedFileEditor, unit, io_error) prog" where
  "editor_edit dbg rd w rz ffi fuel (EditWrite off buf) =
     bind_prog (editor_write_at rd w ffi fuel buf off) (\<lambda>n.
     ret (if n = length buf then Ok () else Err (KindError Other)))"
| "editor_edit dbg rd w rz ffi fuel (EditResize n) = editor_resize dbg rd rz ffi n"

fun editor_edits ::
  "bool \<Rightarrow> 's read_chunk_fn \<Rightarrow> 's write_at_fn \<Rightarrow> 's resize_fn \<Rightarrow> 'c sha256_ffi \<Rightarrow> nat \<Rightarrow> edit list \<Rightarrow>
   ('s VerifiedFileEditor, unit, io_error) prog" where
  "editor_edits dbg rd w rz ffi fuel [] = ret (Ok ())"
| "editor_edits dbg rd w rz ffi fuel (e # es) =
     bind_prog (editor_edit dbg rd w rz ffi fuel e) (\<lambda>_. editor_edits dbg rd w rz ffi fuel es)"

text \<open>The offsets and lengths fit, and no truncation ends inside a chunk.\<close>

fun edits_verified :: "bytes \<Rightarrow> edit list \<Rightarrow> bool" where
  "edits_verified c [] = True"
| "edits_verified c (EditWrite off buf # es) =
     (off + length buf < u64_limit \<and> edits_verified (pwrite c off buf) es)"
| "edits_verified c (EditResize n # es) =
     (n + CHUNK_SIZE < u64_limit \<and> (length c \<le> n \<or> n mod CHUNK_SIZE = 0) \<and>
      edits_verified (resize_bytes n c) es)"

text \<open>The pages of the contents the file goes through.\<close>

fun pages_along :: "bytes \<Rightarrow> edit list \<Rightarrow> bytes set" where
  "pages_along c [] = range (page c)"
| "pages_along c (e # es) = range (page c) \<union> pages_along (apply_edit e c) es"

lemma editor_edits_represents:
  assumes H: "sha256_lib ffi H" and z: "zero_hash_ok H"
  shows "represents H (merkle_tree st) c \<Longrightarrow> edits_verified c es \<Longrightarrow>
    \<not> forges H (served_blocks rd) (pages_along c es) \<Longrightarrow>
    editor_edits dbg rd w rz ffi fuel es st = (Ok (), st') \<Longrightarrow>
    represents H (merkle_tree st') (apply_edits es c)"
proof (induction es arbitrary: c st)
  case Nil
  then show ?case by (simp add: apply_edits_def)
next
  case (Cons e es)
  from Cons.prems(4) obtain s1 where s1: "editor_edit dbg rd w rz ffi fuel e st = (Ok (), s1)"
    "editor_edits dbg rd w rz ffi fuel es s1 = (Ok (), st')"
    by (auto simp: bind_prog_Ok_iff)
  have nf: "\<not> forges H (served_blocks rd) (range (page c))"
    "\<not> forges H (served_blocks rd) (pages_along (apply_edit e c) es)"
    using Cons.prems(3) forges_mono by auto
  have "represents H (merkle_tree s1) (apply_edit e c) \<and> edits_verified (apply_edit e c) es"
  proof (cases e)
    case (EditWrite off buf)
    with s1(1) have "editor_write_at rd w ffi fuel buf off st = (Ok (length buf), s1)"
      by (auto simp: bind_prog_Ok_iff split: if_splits)
    from editor_write_at_represents [OF H z nf(1) _ Cons.prems(1) this] EditWrite Cons.prems(2)
    show ?thesis by simp
  next
    case (EditResize n)
    with editor_resize_represents [OF z _ Cons.prems(1), of n dbg rd rz ffi s1] Cons.prems(2) s1(1)
    show ?thesis by simp
  qed
  then have "represents H (merkle_tree st') (apply_edits es (apply_edit e c))"
    using Cons.IH [OF _ _ nf(2) s1(2)] by blast
  then show ?case by (simp add: apply_edits_def)
qed

section \<open>A backing file that keeps its contract\<close>

lemma chunk_is_page:
  assumes "d = take CHUNK_SIZE (drop (CHUNK_SIZE * i) c)"
  shows "d @ drop (length d) (zeros CHUNK_SIZE) = page c i"
  using assms by (auto simp: page_def resize_bytes_def vec_resize_def zeros_def)

text \<open>Tree, file and abstract content agree.\<close>

definition editor_in_step ::
  "(bytes \<Rightarrow> Sha256Hash) \<Rightarrow> ('s \<Rightarrow> bytes) \<Rightarrow> ('s \<Rightarrow> bool) \<Rightarrow> 's VerifiedFileEditor \<Rightarrow> bytes \<Rightarrow> bool" where
  "editor_in_step H content good st c \<longleftrightarrow>
     represents H (merkle_tree st) c \<and> good (backing st) \<and> content (backing st) = c"

context editable_file
begin

lemma new_chunk_hash_ok:
  assumes H: "sha256_lib ffi H" and l: "leaves (merkle_tree st) = leaf_hashes H c"
    and s: "good (backing st)" "content (backing st) = c"
    and lo: "CHUNK_SIZE * idx \<le> o1" and hi: "o1 + length src \<le> CHUNK_SIZE * Suc idx"
    and k: "k = o1 - CHUNK_SIZE * idx"
  shows "\<exists>s'. new_chunk_hash read_chunk ffi src k (length src) idx st =
      (Ok (H (page (pwrite c o1 src) idx)), st\<lparr>backing := s'\<rparr>) \<and> good s' \<and> content s' = c"
proof -
  have bnd: "k + length src \<le> CHUNK_SIZE" using lo hi k by simp
  then have add: "u64_add k (length src) = (Ok (k + length src) :: (nat, io_error) outcome)"
    by (simp add: CHUNK_SIZE_def u64_limit_def)
  note page = page_pwrite_same [OF lo hi k, of c]
  have st: "st\<lparr>backing := backing st\<rparr> = st" by simp
  consider (full) "length src = CHUNK_SIZE"
    | (valid) "length src \<noteq> CHUNK_SIZE" "idx < num_chunks c"
    | (fresh) "length src \<noteq> CHUNK_SIZE" "num_chunks c \<le> idx"
    by linarith
  then show ?thesis
  proof cases
    case full
    with bnd page H s st show ?thesis
      by (intro exI [of _ "backing st"]) (simp add: new_chunk_hash_def)
  next
    case valid
    then have idx: "CHUNK_SIZE * idx < length (content (backing st))"
      using s(2) by (simp add: num_chunks_def less_ceil_div_iff)
    obtain n s' where r: "read_chunk idx (zeros CHUNK_SIZE) (backing st) = (Ok (n, page c idx), s')"
      "good s'" "content s' = c"
      using read_ok [OF s(1) idx length_zeros refl] s(2) chunk_is_page [OF refl] by metis
    with valid bnd page H l add show ?thesis
      by (intro exI [of _ s']) (simp add: new_chunk_hash_def new_hash_for_incomplete_write_def
          editor_read_chunk_def on_file_def is_index_valid_def is_consistent_def nth_leaf_hashes)
  next
    case fresh
    with bnd page H l s st add show ?thesis
      by (intro exI [of _ "backing st"]) (simp add: new_chunk_hash_def
          new_hash_for_incomplete_write_def is_index_valid_def page_beyond)
  qed
qed

lemma write_piece_at_ok:
  assumes H: "sha256_lib ffi H" and z: "zero_hash_ok H"
    and l: "leaves (merkle_tree st) = leaf_hashes H d" and s: "good (backing st)" "content (backing st) = d"
    and k: "0 < k" "m + k \<le> length buf" "(off + m) mod CHUNK_SIZE + k \<le> CHUNK_SIZE"
    and lim: "off + length buf \<le> i64_max" and fuel: "CHUNK_SIZE \<le> fuel"
  shows "\<exists>s'. write_piece read_chunk write_at ffi fuel buf off u (off + m, k) st =
      (Ok (), \<lparr>merkle_tree =
         \<lparr>leaves = leaf_hashes H (pwrite d (off + m) (take k (drop m buf))),
          ml_file_size = max (ml_file_size (merkle_tree st)) (off + length buf)\<rparr>, backing = s'\<rparr>) \<and>
      good s' \<and> content s' = pwrite d (off + m) (take k (drop m buf))"
proof -
  let ?src = "take k (drop m buf)"
  have src: "length ?src = k" using k by simp
  have lim': "off + length buf < u64_limit" using lim i64_max_less_u64_limit by linarith
  have "(off + m) mod CHUNK_SIZE + length ?src \<le> CHUNK_SIZE" using k(3) src by simp
  from new_chunk_hash_ok [OF H l s piece_in_chunk [OF this]] src obtain s1 where
    h: "new_chunk_hash read_chunk ffi ?src ((off + m) mod CHUNK_SIZE) k ((off + m) div CHUNK_SIZE) st =
      (Ok (H (page (pwrite d (off + m) ?src) ((off + m) div CHUNK_SIZE))), st\<lparr>backing := s1\<rparr>)"
    "good s1" "content s1 = d"
    by auto
  have "length ?src \<le> i32_max" "off + m + length ?src \<le> i64_max" "length ?src \<le> fuel"
    using k lim fuel src by (auto simp: CHUNK_SIZE_def i32_max_def)
  from write_all_at_ok [OF h(2) this] h(3) obtain s2 where
    w: "write_all_at write_at fuel ?src (off + m) s1 = (Ok (), s2)" "good s2"
    "content s2 = pwrite d (off + m) ?src"
    by auto
  with h piece_update_at [OF z l k lim' refl] show ?thesis
    by (intro exI [of _ s2])
       (simp add: write_piece_eq [OF k(2) lim'] bind_prog_def map_err_prog_def on_file_def
         update_tree_def)
qed

lemma write_piece_ok:
  assumes "sha256_lib ffi H" and "zero_hash_ok H"
    and "leaves (merkle_tree st) = leaf_hashes H (pwrite c off (take m buf))"
    and "good (backing st)" "content (backing st) = pwrite c off (take m buf)"
    and "0 < k" "m + k \<le> length buf" "(off + m) mod CHUNK_SIZE + k \<le> CHUNK_SIZE"
    and "off + length buf \<le> i64_max" and "CHUNK_SIZE \<le> fuel"
  shows "\<exists>s'. write_piece read_chunk write_at ffi fuel buf off u (off + m, k) st =
      (Ok (), \<lparr>merkle_tree =
         \<lparr>leaves = leaf_hashes H (pwrite c off (take (m + k) buf)),
          ml_file_size = max (ml_file_size (merkle_tree st)) (off + length buf)\<rparr>, backing = s'\<rparr>) \<and>
      good s' \<and> content s' = pwrite c off (take (m + k) buf)"
  using write_piece_at_ok [OF assms] by (simp add: pwrite_next_piece [OF assms(7)])

lemma write_pieces_ok:
  assumes H: "sha256_lib ffi H" and z: "zero_hash_ok H"
    and lim: "off + length buf \<le> i64_max" and fuel: "CHUNK_SIZE \<le> fuel"
    and l: "leaves (merkle_tree st) = leaf_hashes H (pwrite c off (take m buf))"
    and s: "good (backing st)" "content (backing st) = pwrite c off (take m buf)"
    and m: "m \<le> length buf"
  shows "\<exists>t s'. fold_prog (write_piece read_chunk write_at ffi fuel buf off) ()
        (chunk_plan CHUNK_SIZE (length buf - m) (off + m)) st =
      (Ok (), \<lparr>merkle_tree = \<lparr>leaves = leaf_hashes H (pwrite c off buf), ml_file_size = t\<rparr>,
              backing = s'\<rparr>) \<and>
      t = (if m = length buf then ml_file_size (merkle_tree st)
           else max (ml_file_size (merkle_tree st)) (off + length buf)) \<and>
      good s' \<and> content s' = pwrite c off buf"
  using l s m
proof (induction "length buf - m" arbitrary: m st rule: less_induct)
  case less
  show ?case
  proof (cases "m = length buf")
    case True
    with less.prems show ?thesis by (cases st; cases "merkle_tree st") simp
  next
    case False
    define k where "k = min (length buf - m) (CHUNK_SIZE - (off + m) mod CHUNK_SIZE)"
    have k: "0 < k" "m + k \<le> length buf" "(off + m) mod CHUNK_SIZE + k \<le> CHUNK_SIZE"
      using False less.prems(4) by (auto simp: k_def min_def less_imp_le)
    from write_piece_ok [OF H z less.prems(1-3) k lim fuel, of "()"] obtain s1 where
      p: "write_piece read_chunk write_at ffi fuel buf off () (off + m, k) st =
        (Ok (), \<lparr>merkle_tree =
           \<lparr>leaves = leaf_hashes H (pwrite c off (take (m + k) buf)),
            ml_file_size = max (ml_file_size (merkle_tree st)) (off + length buf)\<rparr>, backing = s1\<rparr>)"
      "good s1" "content s1 = pwrite c off (take (m + k) buf)"
      by blast
    have plan: "chunk_plan CHUNK_SIZE (length buf - m) (off + m) =
        (off + m, k) # chunk_plan CHUNK_SIZE (length buf - (m + k)) (off + (m + k))"
      using chunk_plan_Cons [OF CHUNK_SIZE_pos _ k_def] False less.prems(4) by (simp add: add.assoc)
    have "length buf - (m + k) < length buf - m" using k by linarith
    from less.hyps [OF this, of "\<lparr>merkle_tree =
           \<lparr>leaves = leaf_hashes H (pwrite c off (take (m + k) buf)),
            ml_file_size = max (ml_file_size (merkle_tree st)) (off + length buf)\<rparr>, backing = s1\<rparr>"] p k
    show ?thesis using False by (auto simp: plan cong: if_cong)
  qed
qed

text \<open>A write succeeds in full and keeps tree and file in step.\<close>

lemma editor_write_at_ok:
  assumes H: "sha256_lib ffi H" and z: "zero_hash_ok H"
    and lim: "off + length buf \<le> i64_max" and fuel: "CHUNK_SIZE \<le> fuel"
    and st: "editor_in_step H content good st c"
  shows "\<exists>st'. editor_write_at read_chunk write_at ffi fuel buf off st = (Ok (length buf), st') \<and>
               editor_in_step H content good st' (pwrite c off buf)"
proof -
  have lim': "off + length buf < u64_limit" using lim i64_max_less_u64_limit by linarith
  from write_pieces_ok [OF H z lim fuel, of st c 0] st obtain t s' where
    "fold_prog (write_piece read_chunk write_at ffi fuel buf off) () (chunk_plan CHUNK_SIZE (length buf) off) st =
      (Ok (), \<lparr>merkle_tree = \<lparr>leaves = leaf_hashes H (pwrite c off buf), ml_file_size = t\<rparr>, backing = s'\<rparr>)"
    "t = (if buf = [] then length c else max (length c) (off + length buf))"
    "good s'" "content s' = pwrite c off buf"
    by (auto simp: editor_in_step_def represents_def)
  then show ?thesis
    by (auto simp: editor_write_at_def chunked_try_fold_plan [OF CHUNK_SIZE_pos lim'] finish_write_def
        editor_in_step_def represents_def length_pwrite)
qed

lemma resize_tail_ok:
  assumes H: "sha256_lib ffi H" and n: "n \<le> i64_max"
    and rep: "represents H (merkle_tree st) c" and s: "good (backing st)" "content (backing st) = c"
  shows "\<exists>st'. resize_tail dbg read_chunk ffi n (merkle_tree st) st = (Ok (), st') \<and>
    leaves (merkle_tree st') = tail_fixed H n c \<and> good (backing st') \<and> content (backing st') = c"
proof (cases "n < length c \<and> 0 < n mod CHUNK_SIZE")
  case False
  then have "resize_tail dbg read_chunk ffi n (merkle_tree st) st = (Ok (), st)"
    "tail_fixed H n c = leaf_hashes H c"
    using rep by (auto simp: resize_tail_def tail_fixed_def represents_def MerkleLeaves_file_size_def)
  with rep s show ?thesis by (simp add: represents_def)
next
  case True
  let ?m = "n mod CHUNK_SIZE" and ?i = "n div CHUNK_SIZE"
  have nn: "CHUNK_SIZE * ?i + ?m = n" by simp
  then have i: "CHUNK_SIZE * ?i < length c" using True by linarith
  then have valid: "?i < num_chunks c" by (simp add: num_chunks_def less_ceil_div_iff)
  define d where "d = take CHUNK_SIZE (drop (CHUNK_SIZE * ?i) c)"
  have "?m \<le> length c - CHUNK_SIZE * ?i" using True nn by linarith
  then have m: "?m \<le> length d" "?m \<le> CHUNK_SIZE" by (simp_all add: d_def)
  obtain s' where r: "read_chunk ?i (zeros CHUNK_SIZE) (backing st) = (Ok (length d, page c ?i), s')"
    "good s'" "content s' = c"
    using read_ok [OF s(1) _ length_zeros d_def [folded s(2)]] i s(2) chunk_is_page [OF d_def] by auto
  have lim: "Suc ?i < u64_limit"
  proof -
    have "Suc i64_max < u64_limit" by (simp add: i64_max_def u64_limit_def)
    then show ?thesis using n div_le_dividend [of n CHUNK_SIZE] by linarith
  qed
  show ?thesis
    using True rep r m H valid lim
    by (auto simp: resize_tail_def editor_read_chunk_def on_file_def update_tree_def update_hash_def
        represents_def MerkleLeaves_file_size_def tail_fixed_def page_resize_tail [OF refl refl]
        debug_assert_def Let_def)
qed

lemma editor_resize_ok:
  assumes H: "sha256_lib ffi H" and z: "zero_hash_ok H" and n: "n \<le> i64_max"
    and st: "editor_in_step H content good st c"
  shows "\<exists>st'. editor_resize dbg read_chunk resize ffi n st = (Ok (), st') \<and>
               editor_in_step H content good st' (resize_bytes n c)"
proof -
  have rep: "represents H (merkle_tree st) c" "good (backing st)" "content (backing st) = c"
    using st by (auto simp: editor_in_step_def)
  have lim: "n + CHUNK_SIZE < u64_limit" using n by (simp add: i64_max_def CHUNK_SIZE_def u64_limit_def)
  obtain st1 where st1: "resize_tail dbg read_chunk ffi n (merkle_tree st) st = (Ok (), st1)"
    "leaves (merkle_tree st1) = tail_fixed H n c" "good (backing st1)" "content (backing st1) = c"
    using resize_tail_ok [OF H n rep] by blast
  obtain s2 where s2: "resize n (backing st1) = (Ok (), s2)" "good s2" "content s2 = resize_bytes n c"
    using resize_ok [OF st1(3) n] st1(4) by auto
  show ?thesis
    using st1 s2 MerkleLeaves_resize_represents [OF z st1(2) lim, where 'a = io_error]
    by (auto simp: editor_resize_def on_file_def update_tree_def editor_in_step_def represents_def)
qed

text \<open>Every sequence of edits succeeds and implements the edits of the content.\<close>

lemma editor_edits_ok:
  assumes H: "sha256_lib ffi H" and z: "zero_hash_ok H" and fuel: "CHUNK_SIZE \<le> fuel"
  shows "editor_in_step H content good st c \<Longrightarrow>
    (\<And>off buf. EditWrite off buf \<in> set es \<Longrightarrow> off + length buf \<le> i64_max) \<Longrightarrow>
    (\<And>n. EditResize n \<in> set es \<Longrightarrow> n \<le> i64_max) \<Longrightarrow>
    \<exists>st'. editor_edits dbg read_chunk write_at resize ffi fuel es st = (Ok (), st') \<and>
          editor_in_step H content good st' (apply_edits es c)"
proof (induction es arbitrary: st c)
  case Nil
  then show ?case by (simp add: apply_edits_def)
next
  case (Cons e es)
  have "\<exists>st1. editor_edit dbg read_chunk write_at resize ffi fuel e st = (Ok (), st1) \<and>
      editor_in_step H content good st1 (apply_edit e c)"
  proof (cases e)
    case (EditWrite off buf)
    with Cons.prems(2) have "off + length buf \<le> i64_max" by simp
    from editor_write_at_ok [OF H z this fuel Cons.prems(1)] EditWrite show ?thesis by auto
  next
    case (EditResize n)
    with Cons.prems(3) have "n \<le> i64_max" by simp
    from editor_resize_ok [OF H z this Cons.prems(1)] EditResize show ?thesis by auto
  qed
  then obtain st1 where "editor_edit dbg read_chunk write_at resize ffi fuel e st = (Ok (), st1)"
    "editor_in_step H content good st1 (apply_edit e c)" by blast
  with Cons.IH [of st1 "apply_edit e c"] Cons.prems show ?case
    by (simp add: apply_edits_def)
qed

end

end
