(* ===== verification/Text.thy ===== *)
theory Text
  imports Prelude
begin

text \<open>
  The string operations of the standard library that the command-line parsing uses:
  \<open>str::split\<close> on a character, \<open>parse::<u64>\<close> and \<open>parse::<i32>\<close>, and the decimal
  output of \<open>to_string\<close> and \<open>format!\<close>. The lemmas give the round trips between them.
\<close>

section \<open>Definitions\<close>

text \<open>\<open>s.split(c)\<close>: always at least one piece, empty pieces are kept.\<close>

fun split_on :: "char \<Rightarrow> string \<Rightarrow> string list" where
  "split_on c [] = [[]]"
| "split_on c (x # xs) =
     (if x = c then [] # split_on c xs
      else (case split_on c xs of [] \<Rightarrow> [[x]] | y # ys \<Rightarrow> (x # y) # ys))"

definition is_digit :: "char \<Rightarrow> bool" where
  "is_digit c \<longleftrightarrow> 48 \<le> (of_char c :: nat) \<and> (of_char c :: nat) \<le> 57"

definition digit_value :: "char \<Rightarrow> nat" where
  "digit_value c = of_char c - 48"

definition digits_value :: "string \<Rightarrow> nat" where
  "digits_value s = foldl (\<lambda>acc c. 10 * acc + digit_value c) 0 s"

definition parse_digits :: "string \<Rightarrow> nat option" where
  "parse_digits s = (if s \<noteq> [] \<and> list_all is_digit s then Some (digits_value s) else None)"

text \<open>Unsigned: an optional plus sign, then digits; the value has to fit.\<close>

definition parse_u64 :: "string \<Rightarrow> nat option" where
  "parse_u64 s =
     (let digits = (case s of CHR ''+'' # rest \<Rightarrow> rest | _ \<Rightarrow> s)
      in case parse_digits digits of
           None \<Rightarrow> None
         | Some n \<Rightarrow> if n < u64_limit then Some n else None)"

text \<open>Signed: an optional sign.\<close>

definition parse_i32 :: "string \<Rightarrow> int option" where
  "parse_i32 s =
     (case s of
        CHR ''-'' # rest \<Rightarrow>
          (case parse_digits rest of
             None \<Rightarrow> None
           | Some n \<Rightarrow> if n \<le> i32_max + 1 then Some (- int n) else None)
      | _ \<Rightarrow>
          (case parse_digits (case s of CHR ''+'' # rest \<Rightarrow> rest | _ \<Rightarrow> s) of
             None \<Rightarrow> None
           | Some n \<Rightarrow> if n \<le> i32_max then Some (int n) else None))"

definition digit_char :: "nat \<Rightarrow> char" where
  "digit_char d = char_of (48 + d)"

fun show_nat :: "nat \<Rightarrow> string" where
  "show_nat n = (if n < 10 then [digit_char n] else show_nat (n div 10) @ [digit_char (n mod 10)])"

declare show_nat.simps [simp del]

definition show_int :: "int \<Rightarrow> string" where
  "show_int i = (if i < 0 then CHR ''-'' # show_nat (nat (- i)) else show_nat (nat i))"

section \<open>Digits\<close>

lemma of_char_digit_char: "d < 10 \<Longrightarrow> (of_char (digit_char d) :: nat) = 48 + d"
  by (simp add: digit_char_def)

lemma is_digit_digit_char [simp]: "d < 10 \<Longrightarrow> is_digit (digit_char d)"
  by (simp add: is_digit_def of_char_digit_char)

lemma digit_value_digit_char [simp]: "d < 10 \<Longrightarrow> digit_value (digit_char d) = d"
  by (simp add: digit_value_def of_char_digit_char)

lemma show_nat_nonempty [simp]: "show_nat n \<noteq> []"
  by (subst show_nat.simps) simp

lemma show_nat_digits: "list_all is_digit (show_nat n)"
proof (induction n rule: show_nat.induct)
  case (1 n)
  then show ?case by (subst show_nat.simps) auto
qed

lemma digits_value_show_nat: "digits_value (show_nat n) = n"
proof (induction n rule: show_nat.induct)
  case (1 n)
  show ?case
  proof (cases "n < 10")
    case True
    then show ?thesis by (subst show_nat.simps) (simp add: digits_value_def)
  next
    case False
    with 1 have "digits_value (show_nat (n div 10)) = n div 10" by simp
    with False show ?thesis by (subst show_nat.simps) (simp add: digits_value_def)
  qed
qed

lemma not_is_digit_sign: "is_digit c \<Longrightarrow> c \<noteq> CHR ''+'' \<and> c \<noteq> CHR ''-'' \<and> c \<noteq> CHR '':''"
  by (auto simp: is_digit_def)

lemma parse_digits_show_nat [simp]: "parse_digits (show_nat n) = Some n"
  by (simp add: parse_digits_def show_nat_digits digits_value_show_nat)

lemma show_nat_Cons: "\<exists>c cs. show_nat n = c # cs \<and> is_digit c"
  using show_nat_digits [of n] show_nat_nonempty [of n] by (cases "show_nat n") auto

lemma parse_u64_show_nat: "n < u64_limit \<Longrightarrow> parse_u64 (show_nat n) = Some n"
proof -
  assume n: "n < u64_limit"
  obtain c cs where c: "show_nat n = c # cs" "is_digit c" using show_nat_Cons by blast
  then have "(case show_nat n of CHR ''+'' # rest \<Rightarrow> rest | _ \<Rightarrow> show_nat n) = show_nat n"
    using not_is_digit_sign [OF c(2)] by (auto split: list.splits char.splits bool.splits)
  with n show ?thesis by (simp add: parse_u64_def)
qed

lemma parse_u64_bound: "parse_u64 s = Some n \<Longrightarrow> n < u64_limit"
  by (auto simp: parse_u64_def Let_def split: option.splits if_splits)

lemma parse_i32_show_int:
  assumes "- int (i32_max + 1) \<le> i" "i \<le> int i32_max"
  shows "parse_i32 (show_int i) = Some i"
proof (cases "i < 0")
  case True
  with assms show ?thesis by (auto simp: parse_i32_def show_int_def)
next
  case False
  obtain c cs where c: "show_nat (nat i) = c # cs" "is_digit c" using show_nat_Cons by blast
  have no_minus: "(case show_nat (nat i) of CHR ''-'' # rest \<Rightarrow> x rest | _ \<Rightarrow> y) = y"
    for x :: "string \<Rightarrow> int option" and y
    using c not_is_digit_sign [OF c(2)] by (auto split: char.splits bool.splits)
  have no_plus: "(case show_nat (nat i) of CHR ''+'' # rest \<Rightarrow> rest | _ \<Rightarrow> show_nat (nat i))
      = show_nat (nat i)"
    using c not_is_digit_sign [OF c(2)] by (auto split: char.splits bool.splits)
  show ?thesis
    using False assms by (simp add: parse_i32_def show_int_def no_minus no_plus)
qed

section \<open>Splitting\<close>

lemma split_on_nonempty [simp]: "split_on c s \<noteq> []"
  by (induction s) (auto split: list.splits)

lemma split_on_none: "c \<notin> set s \<Longrightarrow> split_on c s = [s]"
  by (induction s) auto

lemma split_on_append: "c \<notin> set a \<Longrightarrow> split_on c (a @ c # b) = a # split_on c b"
  by (induction a) auto

lemma colon_show_nat [simp]: "CHR '':'' \<notin> set (show_nat n)"
  using show_nat_digits [of n] not_is_digit_sign by (auto simp: list_all_iff)

lemma colon_show_int [simp]: "CHR '':'' \<notin> set (show_int i)"
  by (simp add: show_int_def)

end
