(* ===== verification/BuilderTests.thy ===== *)
theory BuilderTests
  imports Builder Text
begin

text \<open>
  The unit tests of \<^verbatim>\<open>authfs/src/common.rs\<close>, \<^verbatim>\<open>authfs/src/crypto.rs\<close> and
  \<^verbatim>\<open>authfs/src/fsverity/builder.rs\<close>, as programs whose failing assertions are panics. The expected
  values that the tests quote are about the SHA-256 of the crypto library, which is a parameter: a test
  passes exactly when that function has the quoted values, and the lemmas say for which byte strings.

  The helper of the builder's tests that builds a tree from left to right is shown to compute the
  fs-verity digest of its argument, for any data. With debug assertions on, the tests of more than
  one chunk panic.
\<close>

section \<open>Hexadecimal text\<close>

definition hex_digit :: "char \<Rightarrow> nat option" where
  "hex_digit c =
     (let n = (of_char c :: nat) in
      if 48 \<le> n \<and> n \<le> 57 then Some (n - 48)
      else if 97 \<le> n \<and> n \<le> 102 then Some (n - 87)
      else if 65 \<le> n \<and> n \<le> 70 then Some (n - 55)
      else None)"

fun hex_value :: "nat \<Rightarrow> string \<Rightarrow> nat option" where
  "hex_value acc [] = Some acc"
| "hex_value acc (c # cs) = (case hex_digit c of None \<Rightarrow> None | Some d \<Rightarrow> hex_value (16 * acc + d) cs)"

text \<open>\<open>u8::from_str_radix(_, 16)\<close>.\<close>

definition u8_from_hex :: "string \<Rightarrow> u8 option" where
  "u8_from_hex s =
     (let digits = (if s \<noteq> [] \<and> hd s = CHR ''+'' then List.tl s else s)
      in if digits = [] then None
         else case hex_value 0 digits of
                None \<Rightarrow> None
              | Some n \<Rightarrow> if n < 256 then Some (word_of_nat n) else None)"

definition to_u8_vec :: "string \<Rightarrow> (bytes, 'e) outcome" where
  "to_u8_vec hex_str =
     and_then (assertion (length hex_str mod 2 = 0)) (\<lambda>_.
     try_map (\<lambda>k. and_then (slice_range hex_str (2 * k) (2 * k + 2)) (\<lambda>s. unwrap (u8_from_hex s)))
       [0..<length hex_str div 2])"

definition hex_char :: "nat \<Rightarrow> char" where
  "hex_char d = char_of (if d < 10 then 48 + d else 87 + d)"

text \<open>\<open>{:02x}\<close> of every byte.\<close>

definition to_hex_string :: "bytes \<Rightarrow> string" where
  "to_hex_string data = concat (map (\<lambda>b. [hex_char (unat b div 16), hex_char (unat b mod 16)]) data)"

lemma hex_digit_hex_char [simp]: "d < 16 \<Longrightarrow> hex_digit (hex_char d) = Some d"
  by (auto simp: hex_digit_def hex_char_def Let_def of_char_of take_bit_eq_mod)

lemma hex_char_not_plus: "d < 16 \<Longrightarrow> hex_char d \<noteq> CHR ''+''"
  using hex_digit_hex_char [of d] by (auto simp: hex_digit_def)

lemma u8_from_hex_byte:
  assumes "n < 256"
  shows "u8_from_hex [hex_char (n div 16), hex_char (n mod 16)] = Some (word_of_nat n)"
proof -
  have d: "n div 16 < 16" "n mod 16 < 16" using assms by auto
  from d show ?thesis
    using assms hex_char_not_plus [OF d(1)] by (simp add: u8_from_hex_def Let_def)
qed

text \<open>The two conversions of the tests are inverse to each other.\<close>

lemma to_u8_vec_to_hex_string: "to_u8_vec (to_hex_string b) = Ok b"
proof -
  have len: "length (to_hex_string b) = 2 * length b" by (induction b) (simp_all add: to_hex_string_def)
  have "take 2 (drop (2 * k) (to_hex_string b)) = [hex_char (unat (b ! k) div 16), hex_char (unat (b ! k) mod 16)]"
    if "k < length b" for k
    using that unfolding to_hex_string_def
    by (subst slice_concat_same) auto
  then have "u8_from_hex (take 2 (drop (2 * k) (to_hex_string b))) = Some (b ! k)" if "k < length b" for k
    using that u8_from_hex_byte [of "unat (b ! k)"] unsigned_less [of "b ! k", where ?'a = nat] by simp
  then have "try_map (\<lambda>k. and_then (slice_range (to_hex_string b) (2 * k) (2 * k + 2)) (\<lambda>s. unwrap (u8_from_hex s)))
      [0..<length b] = Ok (map ((!) b) [0..<length b])"
    by (intro try_map_Ok) (simp add: len)
  then show ?thesis by (simp add: to_u8_vec_def len map_nth)
qed

lemma to_u8_vec_zeros_hash:
  "to_u8_vec ''ad7facb2586fc6e966c004d7d1d16b024f5805ff7cb47c7a85dabd8b48892ca7'' =
   (Ok HASH_OF_4096_ZEROS :: (bytes, unit) outcome)"
  by code_simp

section \<open>\<^verbatim>\<open>common.rs\<close>\<close>

text \<open>\<open>assert_eq!\<close> of two results.\<close>

definition assert_eq :: "('a, 'e) outcome \<Rightarrow> ('a, 'e) outcome \<Rightarrow> (unit, 'e) outcome" where
  "assert_eq l r = and_then l (\<lambda>a. and_then r (\<lambda>b. assertion (a = b)))"

lemma assert_eq_Ok [simp]: "assert_eq (Ok a) (Ok b) = assertion (a = b)"
  by (simp add: assert_eq_def)

text \<open>\<open>assert!(r.is_ok())\<close> and \<open>assert!(r.is_err())\<close>.\<close>

fun assert_ok :: "('a, 'e) outcome \<Rightarrow> (unit, 'f) outcome" where
  "assert_ok (Ok a) = Ok ()"
| "assert_ok (Err e) = Panic"
| "assert_ok Panic = Panic"
| "assert_ok OutOfFuel = OutOfFuel"

fun assert_err :: "('a, 'e) outcome \<Rightarrow> (unit, 'f) outcome" where
  "assert_err (Ok a) = Panic"
| "assert_err (Err e) = Ok ()"
| "assert_err Panic = Panic"
| "assert_err OutOfFuel = OutOfFuel"

lemma is_ok_assertion [simp]: "is_ok (assertion b) = b"
  by (simp add: assertion_def)

lemma is_ok_and_then_unit:
  "is_ok (and_then (m :: (unit, 'e) outcome) f) \<longleftrightarrow> is_ok m \<and> is_ok (f ())"
  by (cases m) simp_all

lemma is_ok_assert_eq: "is_ok (assert_eq (Ok a) r) \<longleftrightarrow> r = Ok a"
  by (cases r) (auto simp: assert_eq_def)

definition collect_chunk_read_iter :: "nat \<Rightarrow> nat \<Rightarrow> ((nat \<times> nat) list, 'e) outcome" where
  "collect_chunk_read_iter rem off =
     fst (chunked_try_fold (\<lambda>acc x. ret (Ok (acc @ [x]))) [] (ChunkedSizeIter_new rem off 4096) ())"

definition test_chunk_read_iter :: "(unit, 'e) outcome" where
  "test_chunk_read_iter =
     and_then (assert_eq (collect_chunk_read_iter 4096 0) (Ok [(0, 4096)])) (\<lambda>_.
     and_then (assert_eq (collect_chunk_read_iter 8192 0) (Ok [(0, 4096), (4096, 4096)])) (\<lambda>_.
     and_then (assert_eq (collect_chunk_read_iter 8192 4096) (Ok [(4096, 4096), (8192, 4096)])) (\<lambda>_.
     and_then (assert_eq (collect_chunk_read_iter 16384 1)
       (Ok [(1, 4095), (4096, 4096), (8192, 4096), (12288, 4096), (16384, 1)])) (\<lambda>_.
     and_then (assert_eq (collect_chunk_read_iter 0 0) (Ok [])) (\<lambda>_.
     assert_eq (collect_chunk_read_iter 0 100) (Ok []))))))"

lemma fold_prog_collect: "fold_prog (\<lambda>acc x. ret (Ok (acc @ [x]))) acc xs s = (Ok (acc @ xs), s)"
  by (induction xs arbitrary: acc) simp_all

lemma collect_chunk_read_iter_plan:
  "off + n < u64_limit \<Longrightarrow> collect_chunk_read_iter n off = Ok (chunk_plan 4096 n off)"
  by (simp add: collect_chunk_read_iter_def chunked_try_fold_plan fold_prog_collect)

lemma test_chunk_read_iter_passes: "test_chunk_read_iter = Ok ()"
  by (simp add: test_chunk_read_iter_def collect_chunk_read_iter_plan u64_limit_def chunk_plan_Cons)

section \<open>\<^verbatim>\<open>crypto.rs\<close>\<close>

definition verify_hash_values :: "'c sha256_ffi \<Rightarrow> (unit, CryptoError) outcome" where
  "verify_hash_values ffi =
     and_then (sha256_chain ffi [[]]) (\<lambda>hash1.
     and_then (assertion (to_hex_string hash1 =
       ''e3b0c44298fc1c149afbf4c8996fb92427ae41e4649b934ca495991b7852b855'')) (\<lambda>_.
     and_then (sha256_chain ffi [[1], [2], [3]]) (\<lambda>hash2.
     assertion (to_hex_string hash2 =
       ''039058c6f2c0cb492c533b0a4d14ef77cc0f78abccced5287d84a1a2011cfb81''))))"

definition sha256_of_4096_zeros :: "'c sha256_ffi \<Rightarrow> (unit, CryptoError) outcome" where
  "sha256_of_4096_zeros ffi =
     and_then (sha256_chain ffi [zeros 4096]) (\<lambda>hash. assertion (hash = HASH_OF_4096_ZEROS))"

lemma verify_hash_values_passes_iff:
  assumes "sha256_lib ffi H"
  shows "is_ok (verify_hash_values ffi) \<longleftrightarrow>
    to_hex_string (H []) = ''e3b0c44298fc1c149afbf4c8996fb92427ae41e4649b934ca495991b7852b855'' \<and>
    to_hex_string (H [1, 2, 3]) = ''039058c6f2c0cb492c533b0a4d14ef77cc0f78abccced5287d84a1a2011cfb81''"
  using assms by (simp add: verify_hash_values_def sha256_chain_hash is_ok_and_then_unit)

text \<open>The hypothesis on the constant of the hash of a page of zeros is what the test checks.\<close>

lemma sha256_of_4096_zeros_passes_iff:
  assumes "sha256_lib ffi H"
  shows "is_ok (sha256_of_4096_zeros ffi) \<longleftrightarrow> zero_hash_ok H"
  using assms by (simp add: sha256_of_4096_zeros_def sha256_chain_hash zero_hash_ok_def)

section \<open>\<^verbatim>\<open>builder.rs\<close>\<close>

text \<open>The tests' \<open>?\<close> turns both kinds of errors into one.\<close>

definition add_chunk ::
  "'c sha256_ffi \<Rightarrow> MerkleLeaves \<Rightarrow> nat \<times> bytes \<Rightarrow> (MerkleLeaves, FsverityError) outcome" where
  "add_chunk ffi tree ic =
     (case ic of (index, chunk) \<Rightarrow>
      and_then (u64_sub CHUNK_SIZE (length chunk)) (\<lambda>padding.
      and_then (map_err UnexpectedCryptoError (sha256_chain ffi [chunk, zeros padding])) (\<lambda>hash.
      and_then (u64_mul CHUNK_SIZE index) (\<lambda>start.
      and_then (u64_add start (length chunk)) (\<lambda>end_of_chunk.
      update_hash tree index hash end_of_chunk)))))"

definition generate_fsverity_digest_sequentially ::
  "bool \<Rightarrow> 'c sha256_ffi \<Rightarrow> bytes \<Rightarrow> (Sha256Hash, FsverityError) outcome" where
  "generate_fsverity_digest_sequentially dbg ffi test_data =
     and_then (try_fold (add_chunk ffi) MerkleLeaves_new (enumerate 0 (chunks CHUNK_SIZE test_data)))
       (calculate_fsverity_digest dbg ffi)"

lemma add_chunk_represents:
  assumes H: "sha256_lib ffi H" and z: "zero_hash_ok H" and lim: "length c < u64_limit"
    and i: "CHUNK_SIZE * i < length c" and t: "represents H t (take (CHUNK_SIZE * i) c)"
  shows "\<exists>t'. add_chunk ffi t (i, take CHUNK_SIZE (drop (CHUNK_SIZE * i) c)) = Ok t' \<and>
    represents H t' (take (CHUNK_SIZE * Suc i) c)"
proof -
  let ?ch = "take CHUNK_SIZE (drop (CHUNK_SIZE * i) c)"
  have ne: "?ch \<noteq> []" using i by simp
  have pw: "pwrite (take (CHUNK_SIZE * i) c) (CHUNK_SIZE * i) ?ch = take (CHUNK_SIZE * Suc i) c"
    using i by (simp add: pwrite_def take_add add.commute [of CHUNK_SIZE])
  have hsh: "H (?ch @ zeros (CHUNK_SIZE - length ?ch)) = H (page (take (CHUNK_SIZE * Suc i) c) i)"
    using ne by (subst page_of_chunk [of ?ch]) (simp_all add: drop_take)
  have len: "CHUNK_SIZE * i + length ?ch = length (take (CHUNK_SIZE * Suc i) c)" using i by (auto simp: min_def)
  have "update_hash t i (H (?ch @ zeros (CHUNK_SIZE - length ?ch))) (CHUNK_SIZE * i + length ?ch) =
      (Ok \<lparr>leaves = leaf_hashes H (take (CHUNK_SIZE * Suc i) c),
         ml_file_size = max (ml_file_size t) (CHUNK_SIZE * i + length ?ch)\<rparr> :: (MerkleLeaves, FsverityError) outcome)"
    unfolding pw [symmetric]
    by (rule update_hash_pwrite [OF z ne]) (use t i lim hsh pw in \<open>auto simp: represents_def CHUNK_SIZE_def\<close>)
  moreover have "CHUNK_SIZE * i < u64_limit" "CHUNK_SIZE * i + length ?ch < u64_limit" using i lim by simp_all
  moreover have "max (ml_file_size t) (CHUNK_SIZE * i + length ?ch) = CHUNK_SIZE * i + length ?ch"
    using t i by (simp add: represents_def)
  ultimately show ?thesis using len by (simp add: add_chunk_def sha256_chain_hash [OF H] represents_def)
qed

lemma try_fold_append: "try_fold f a (xs @ ys) = and_then (try_fold f a xs) (\<lambda>b. try_fold f b ys)"
proof (induction xs arbitrary: a)
  case (Cons x xs)
  then show ?case by (cases "f a x") simp_all
qed simp

lemma enumerate_map_upt: "enumerate 0 (map g [0..<n]) = map (\<lambda>i. (i, g i)) [0..<n]"
  by (rule nth_equalityI) (simp_all add: nth_enumerate_eq)

lemma add_chunks_represent:
  assumes "sha256_lib ffi H" and "zero_hash_ok H" and "length c < u64_limit"
  shows "k \<le> num_chunks c \<Longrightarrow>
    \<exists>t. try_fold (add_chunk ffi) MerkleLeaves_new (map (\<lambda>i. (i, take CHUNK_SIZE (drop (CHUNK_SIZE * i) c))) [0..<k]) =
      Ok t \<and> represents H t (take (CHUNK_SIZE * k) c)"
proof (induction k)
  case 0
  show ?case by (simp add: represents_new)
next
  case (Suc k)
  then obtain t where t: "try_fold (add_chunk ffi) MerkleLeaves_new
      (map (\<lambda>i. (i, take CHUNK_SIZE (drop (CHUNK_SIZE * i) c))) [0..<k]) = Ok t"
      "represents H t (take (CHUNK_SIZE * k) c)"
    by auto
  from Suc.prems have "CHUNK_SIZE * k < length c" by (simp add: num_chunks_def Suc_le_eq less_ceil_div_iff)
  from add_chunk_represents [OF assms this t(2)] t(1) show ?case by (auto simp: try_fold_append)
qed

lemma sequential_tree:
  assumes "sha256_lib ffi H" and "zero_hash_ok H" and "length c < u64_limit"
  shows "\<exists>t. try_fold (add_chunk ffi) MerkleLeaves_new (enumerate 0 (chunks CHUNK_SIZE c)) = Ok t \<and> represents H t c"
proof -
  have "enumerate 0 (chunks CHUNK_SIZE c) =
      map (\<lambda>i. (i, take CHUNK_SIZE (drop (CHUNK_SIZE * i) c))) [0..<num_chunks c]"
    by (simp add: chunks_by_index num_chunks_def enumerate_map_upt)
  moreover have "take (CHUNK_SIZE * num_chunks c) c = c"
    using le_mult_ceil_div [of CHUNK_SIZE "length c"] by (simp add: num_chunks_def)
  ultimately show ?thesis using add_chunks_represent [OF assms, of "num_chunks c"] by simp
qed

text \<open>The digest of any data, from left to right, is the reference digest.\<close>

lemma generate_fsverity_digest_sequentially_correct:
  assumes H: "sha256_lib ffi H" and z: "zero_hash_ok H" and lim: "length c + 129 * CHUNK_SIZE < u64_limit"
  shows "generate_fsverity_digest_sequentially False ffi c = Ok (fsverity_digest H c)"
  using sequential_tree [OF H z, of c] lim calculate_fsverity_digest_correct [OF H _ lim]
  by (auto simp: generate_fsverity_digest_sequentially_def)

text \<open>A test of one vector of the digest.\<close>

definition digest_test :: "bool \<Rightarrow> 'c sha256_ffi \<Rightarrow> string \<Rightarrow> bytes \<Rightarrow> (unit, FsverityError) outcome" where
  "digest_test dbg ffi hex_str test_data =
     and_then (to_u8_vec hex_str) (\<lambda>expected.
     and_then (generate_fsverity_digest_sequentially dbg ffi test_data) (\<lambda>digest.
     assertion (expected = digest)))"

definition merkle_tree_empty_file :: "bool \<Rightarrow> 'c sha256_ffi \<Rightarrow> (unit, FsverityError) outcome" where
  "merkle_tree_empty_file dbg ffi =
     digest_test dbg ffi ''3d248ca542a24fc62d1c43b916eae5016878e2533c88238480b26128a1f1af95'' []"

definition merkle_tree_file_size_less_than_or_equal_to_4k ::
  "bool \<Rightarrow> 'c sha256_ffi \<Rightarrow> (unit, FsverityError) outcome" where
  "merkle_tree_file_size_less_than_or_equal_to_4k dbg ffi =
     digest_test dbg ffi ''cd0875ca59c7d37e962c5e8f5acd3770750ac80225e2df652ce5672fd34500af'' (replicate 4096 1)"

definition merkle_tree_more_sizes :: "bool \<Rightarrow> 'c sha256_ffi \<Rightarrow> (unit, FsverityError) outcome" where
  "merkle_tree_more_sizes dbg ffi =
     and_then (digest_test dbg ffi ''2901b849fda2d91e3929524561c4a47e77bb64734319759507b2029f18b9cc52''
       (replicate 4097 1)) (\<lambda>_.
     and_then (digest_test dbg ffi ''2a476d58eb80394052a3a783111e1458ac3ecf68a7878183fed86ca0ff47ec0d''
       (replicate 8192 1)) (\<lambda>_.
     and_then (digest_test dbg ffi ''26b7c190a34e19f420808ee7ec233b09fa6c34543b5a9d2950530114c205d14f''
       (replicate 524288 1)) (\<lambda>_.
     digest_test dbg ffi ''316835d9be1c95b5cd55d07ae7965d651689efad186e26cbf680e40b683a3262''
       (replicate 524289 1))))"

lemma digest_test_passes_iff:
  assumes "sha256_lib ffi H" and "zero_hash_ok H" and "length c + 129 * CHUNK_SIZE < u64_limit"
  shows "is_ok (digest_test False ffi hex_str c) \<longleftrightarrow> to_u8_vec hex_str = (Ok (fsverity_digest H c) :: (bytes, FsverityError) outcome)"
  using generate_fsverity_digest_sequentially_correct [OF assms]
  by (cases "to_u8_vec hex_str :: (bytes, FsverityError) outcome") (simp_all add: digest_test_def)

lemma merkle_tree_small_files_pass_iff:
  assumes "sha256_lib ffi H" and "zero_hash_ok H"
  shows "is_ok (merkle_tree_empty_file False ffi) \<longleftrightarrow>
      to_u8_vec ''3d248ca542a24fc62d1c43b916eae5016878e2533c88238480b26128a1f1af95'' =
        (Ok (fsverity_digest H []) :: (bytes, FsverityError) outcome)"
    "is_ok (merkle_tree_file_size_less_than_or_equal_to_4k False ffi) \<longleftrightarrow>
      to_u8_vec ''cd0875ca59c7d37e962c5e8f5acd3770750ac80225e2df652ce5672fd34500af'' =
        (Ok (fsverity_digest H (replicate 4096 1)) :: (bytes, FsverityError) outcome)"
  using digest_test_passes_iff [OF assms]
  by (simp_all add: merkle_tree_empty_file_def merkle_tree_file_size_less_than_or_equal_to_4k_def CHUNK_SIZE_def
      u64_limit_def)

lemma merkle_tree_more_sizes_passes_iff:
  assumes "sha256_lib ffi H" and "zero_hash_ok H"
  shows "is_ok (merkle_tree_more_sizes False ffi) \<longleftrightarrow>
    list_all (\<lambda>(hex_str, n). to_u8_vec hex_str = (Ok (fsverity_digest H (replicate n 1)) :: (bytes, FsverityError) outcome))
      [(''2901b849fda2d91e3929524561c4a47e77bb64734319759507b2029f18b9cc52'', 4097),
       (''2a476d58eb80394052a3a783111e1458ac3ecf68a7878183fed86ca0ff47ec0d'', 8192),
       (''26b7c190a34e19f420808ee7ec233b09fa6c34543b5a9d2950530114c205d14f'', 524288),
       (''316835d9be1c95b5cd55d07ae7965d651689efad186e26cbf680e40b683a3262'', 524289)]"
  using digest_test_passes_iff [OF assms]
  by (simp add: merkle_tree_more_sizes_def is_ok_and_then_unit CHUNK_SIZE_def u64_limit_def)

text \<open>With debug assertions on, a test of more than one chunk panics.\<close>

lemma digest_test_debug_panics:
  assumes "sha256_lib ffi H" and "zero_hash_ok H" and "length c < u64_limit" and "CHUNK_SIZE < length c"
  shows "\<not> is_ok (digest_test True ffi hex_str c)"
proof -
  have "generate_fsverity_digest_sequentially True ffi c = Panic"
    using sequential_tree [OF assms(1-3)]
      calculate_root_hash_debug_panics [OF _ assms(4), where ffi = ffi and H = H]
    by (auto simp: generate_fsverity_digest_sequentially_def calculate_fsverity_digest_def)
  then show ?thesis
    by (cases "to_u8_vec hex_str :: (bytes, FsverityError) outcome") (simp_all add: digest_test_def)
qed

definition merkle_tree_non_sequential :: "bool \<Rightarrow> 'c sha256_ffi \<Rightarrow> (unit, FsverityError) outcome" where
  "merkle_tree_non_sequential dbg ffi =
     and_then (map_err UnexpectedCryptoError (sha256_chain ffi [replicate CHUNK_SIZE 1])) (\<lambda>hash.
     and_then (update_hash MerkleLeaves_new 1 hash (CHUNK_SIZE * 2)) (\<lambda>tree1.
     and_then (update_hash tree1 3 hash (CHUNK_SIZE * 4)) (\<lambda>tree2.
     and_then (update_hash tree2 0 hash CHUNK_SIZE) (\<lambda>tree3.
     and_then (update_hash tree3 2 hash (CHUNK_SIZE * 3)) (\<lambda>tree.
     and_then (to_u8_vec ''7d3c0d2e1dc54230b20ed875f5f3a4bd3f9873df601936b3ca8127d4db3548f3'') (\<lambda>expected.
     and_then (calculate_fsverity_digest dbg ffi tree) (\<lambda>digest.
     assertion (expected = digest))))))))"

text \<open>The order in which the leaves are set does not matter: the tree is that of the four chunks.\<close>

lemma page_replicate: "CHUNK_SIZE * Suc i \<le> n \<Longrightarrow> page (replicate n b) i = replicate CHUNK_SIZE b"
  by (simp add: page_def resize_bytes_def vec_resize_def min_def)

lemma leaf_hashes_replicate:
  "leaf_hashes H (replicate (CHUNK_SIZE * k) b) = replicate k (H (replicate CHUNK_SIZE b))"
  by (rule nth_equalityI) (simp_all add: num_chunks_def nth_leaf_hashes page_replicate [OF mult_le_mono2 [OF Suc_leI]])

lemma replicate_2: "replicate 2 x = [x, x]"
  by (simp add: numeral_2_eq_2)

lemma merkle_tree_non_sequential_passes_iff:
  assumes H: "sha256_lib ffi H"
  shows "is_ok (merkle_tree_non_sequential False ffi) \<longleftrightarrow>
    to_u8_vec ''7d3c0d2e1dc54230b20ed875f5f3a4bd3f9873df601936b3ca8127d4db3548f3'' =
      (Ok (fsverity_digest H (replicate (CHUNK_SIZE * 4) 1)) :: (bytes, FsverityError) outcome)"
proof -
  let ?h = "H (replicate CHUNK_SIZE 1)" and ?hex = "''7d3c0d2e1dc54230b20ed875f5f3a4bd3f9873df601936b3ca8127d4db3548f3''"
  let ?t = "\<lparr>leaves = [?h, ?h, ?h, ?h], ml_file_size = CHUNK_SIZE * 4\<rparr>"
  have "represents H ?t (replicate (CHUNK_SIZE * 4) 1)"
    unfolding represents_def leaf_hashes_replicate by (simp add: eval_nat_numeral)
  then have "calculate_fsverity_digest False ffi ?t = Ok (fsverity_digest H (replicate (CHUNK_SIZE * 4) 1))"
    by (rule calculate_fsverity_digest_correct [OF H]) (simp add: CHUNK_SIZE_def u64_limit_def)
  then show ?thesis
    by (cases "to_u8_vec ?hex :: (bytes, FsverityError) outcome")
       (simp_all add: merkle_tree_non_sequential_def sha256_chain_hash [OF H] update_hash_def MerkleLeaves_new_def
         vec_resize_def u64_limit_def replicate_2)
qed

definition merkle_tree_grow_leaves :: "(unit, FsverityError) outcome" where
  "merkle_tree_grow_leaves =
     and_then (update_hash MerkleLeaves_new 0 (replicate HASH_SIZE 42) CHUNK_SIZE) (\<lambda>tree0.
     and_then (MerkleLeaves_resize tree0 (4096 * 3 - 100)) (\<lambda>tree.
     and_then (assertion (is_index_valid tree 0)) (\<lambda>_.
     and_then (assertion (is_index_valid tree 1)) (\<lambda>_.
     and_then (assertion (is_index_valid tree 2)) (\<lambda>_.
     and_then (assertion (\<not> is_index_valid tree 3)) (\<lambda>_.
     and_then (assertion (is_consistent tree 1 HASH_OF_4096_ZEROS)) (\<lambda>_.
     assertion (is_consistent tree 2 HASH_OF_4096_ZEROS))))))))"

definition merkle_tree_shrink_leaves :: "(unit, FsverityError) outcome" where
  "merkle_tree_shrink_leaves =
     and_then (update_hash MerkleLeaves_new 0 (replicate HASH_SIZE 42) CHUNK_SIZE) (\<lambda>tree0.
     and_then (update_hash tree0 0 (replicate HASH_SIZE 42) (CHUNK_SIZE * 3)) (\<lambda>tree1.
     and_then (MerkleLeaves_resize tree1 (CHUNK_SIZE * 2 - 100)) (\<lambda>tree.
     and_then (assertion (is_index_valid tree 0)) (\<lambda>_.
     and_then (assertion (is_index_valid tree 1)) (\<lambda>_.
     and_then (assertion (\<not> is_index_valid tree 2)) (\<lambda>_.
     assertion (is_consistent tree 1 HASH_OF_4096_ZEROS)))))))"

lemma merkle_tree_leaves_tests_pass: "merkle_tree_grow_leaves = Ok ()" "merkle_tree_shrink_leaves = Ok ()"
  by (simp_all add: merkle_tree_grow_leaves_def merkle_tree_shrink_leaves_def update_hash_def MerkleLeaves_new_def
      MerkleLeaves_resize_def divide_roundup_def vec_resize_def is_index_valid_def is_consistent_def u64_limit_def
      CHUNK_SIZE_def nth_append)

end
