(* ===== verification/EditorTests.thy ===== *)
theory EditorTests
  imports Editor BuilderTests
begin

text \<open>
  The unit tests of \<^verbatim>\<open>authfs/src/fsverity/editor.rs\<close>. Their backing file \<open>InMemoryEditor\<close> is modelled
  and shown to keep the contract of an editable file, so the lemmas on the editor apply to it. A test is
  a list of steps on one or more new editors; a failing assertion is a panic.

  The lemmas: a test of writes, resizes and digests passes exactly when the hash function has the quoted
  digests, each for the byte string that the test has written by then; the tests of a failing or
  inconsistent backing file pass.
\<close>

section \<open>The backing file of the tests\<close>

record InMemoryEditor =
  im_data :: bytes
  fail_read :: bool

definition InMemoryEditor_new :: InMemoryEditor where
  "InMemoryEditor_new = \<lparr>im_data = [], fail_read = False\<rparr>"

definition mem_write_at :: "InMemoryEditor write_at_fn" where
  "mem_write_at buf off =
     bind_prog (ret (u64_add off (length buf))) (\<lambda>end_of_write.
     bind_prog (\<lambda>s. (Ok (), if length (im_data s) < end_of_write
                          then s\<lparr>im_data := resize_bytes end_of_write (im_data s)\<rparr> else s)) (\<lambda>_.
     bind_prog (\<lambda>s. (copy_into (im_data s) off end_of_write buf, s)) (\<lambda>data'.
     bind_prog (\<lambda>s. (Ok (), s\<lparr>im_data := data'\<rparr>)) (\<lambda>_.
     ret (Ok (length buf))))))"

definition mem_resize :: "InMemoryEditor resize_fn" where
  "mem_resize n s = (Ok (), s\<lparr>im_data := resize_bytes n (im_data s)\<rparr>)"

text \<open>\<open>Iterator::nth\<close> of the chunks.\<close>

definition mem_read_chunk :: "InMemoryEditor read_chunk_fn" where
  "mem_read_chunk chunk_index buf s =
     (if fail_read s then (Err (KindError Other), s)
      else
        let cs = chunks CHUNK_SIZE (im_data s) in
        if chunk_index < length cs
        then (and_then (copy_into buf 0 (length (cs ! chunk_index)) (cs ! chunk_index)) (\<lambda>buf'.
                Ok (length (cs ! chunk_index), buf')), s)
        else (Err (KindError InvalidInput), s))"

lemma mem_write_at_pwrite:
  assumes "off + length buf < u64_limit" and "buf \<noteq> []"
  shows "mem_write_at buf off s = (Ok (length buf), s\<lparr>im_data := pwrite (im_data s) off buf\<rparr>)"
  using assms
  by (auto simp: mem_write_at_def bind_prog_def resize_bytes_def vec_resize_def pwrite_def zeros_def min_def)

lemma mem_read_chunk_eq:
  assumes "\<not> fail_read s" and "d = take CHUNK_SIZE (drop (CHUNK_SIZE * i) (im_data s))"
    and "CHUNK_SIZE * i < length (im_data s)" and "length buf = CHUNK_SIZE"
  shows "mem_read_chunk i buf s = (Ok (length d, d @ drop (length d) buf), s)"
  using assms by (simp add: mem_read_chunk_def Let_def nth_chunks less_ceil_div_iff)

lemma mem_read_chunk_fails: "fail_read s \<Longrightarrow> mem_read_chunk i buf s = (Err (KindError Other), s)"
  by (simp add: mem_read_chunk_def)

lemma mem_read_prefix:
  assumes "mem_read_chunk i buf s = (Ok (n, buf'), s')" and "length buf = CHUNK_SIZE"
  shows "n \<le> CHUNK_SIZE \<and> (\<exists>d. length d = n \<and> buf' = d @ drop n buf)"
  using assms
  by (auto simp: mem_read_chunk_def Let_def nth_chunks and_then_Ok_iff copy_into_def split: if_splits)

abbreviation mem_good :: "InMemoryEditor \<Rightarrow> bool" where
  "mem_good s \<equiv> \<not> fail_read s"

interpretation mem: editable_file mem_read_chunk mem_write_at mem_resize im_data mem_good
proof unfold_locales
  fix s off and buf :: bytes
  assume "mem_good s" and buf: "buf \<noteq> []" and "off + length buf \<le> i64_max"
  then have "off + length buf < u64_limit" using i64_max_less_u64_limit by linarith
  from mem_write_at_pwrite [OF this buf] \<open>mem_good s\<close> buf
  show "\<exists>k s'. mem_write_at buf off s = (Ok k, s') \<and> 0 < k \<and> k \<le> length buf \<and> mem_good s' \<and>
      im_data s' = pwrite (im_data s) off (take k buf)"
    by simp
qed (auto dest: mem_read_prefix simp: mem_read_chunk_eq mem_resize_def)

section \<open>Steps of a test\<close>

type_synonym mem_test = "(InMemoryEditor VerifiedFileEditor, unit, io_error) prog"

definition file_write :: "'c sha256_ffi \<Rightarrow> InMemoryEditor VerifiedFileEditor write_at_fn" where
  "file_write ffi buf off = editor_write_at mem_read_chunk mem_write_at ffi CHUNK_SIZE buf off"

definition file_resize :: "bool \<Rightarrow> 'c sha256_ffi \<Rightarrow> InMemoryEditor VerifiedFileEditor resize_fn" where
  "file_resize dbg ffi n = editor_resize dbg mem_read_chunk mem_resize ffi n"

text \<open>\<open>WriteAt buf off n\<close> asserts that the write returns \<open>n\<close>. \<open>SetHash\<close> replaces a leaf behind the
  editor's back.\<close>

datatype test_step = WriteAt bytes nat nat | WriteFails bytes nat | ResizeTo nat | ResizeFails nat | SizeIs nat
  | DigestIs string | SetHash nat Sha256Hash nat

fun run_step :: "bool \<Rightarrow> 'c sha256_ffi \<Rightarrow> test_step \<Rightarrow> mem_test" where
  "run_step dbg ffi (WriteAt buf off n) = bind_prog (file_write ffi buf off) (\<lambda>k. ret (assertion (k = n)))"
| "run_step dbg ffi (WriteFails buf off) = (\<lambda>st. case file_write ffi buf off st of (r, st') \<Rightarrow> (assert_err r, st'))"
| "run_step dbg ffi (ResizeTo n) = file_resize dbg ffi n"
| "run_step dbg ffi (ResizeFails n) = (\<lambda>st. case file_resize dbg ffi n st of (r, st') \<Rightarrow> (assert_err r, st'))"
| "run_step dbg ffi (SizeIs n) = (\<lambda>st. (assertion (editor_size st = n), st))"
| "run_step dbg ffi (DigestIs hex_str) =
     (\<lambda>st. (assert_eq (editor_calculate_fsverity_digest dbg ffi st) (to_u8_vec hex_str), st))"
| "run_step dbg ffi (SetHash i hash n) = update_tree (\<lambda>tree. update_hash tree i hash n)"

fun run_steps :: "bool \<Rightarrow> 'c sha256_ffi \<Rightarrow> test_step list \<Rightarrow> mem_test" where
  "run_steps dbg ffi [] = ret (Ok ())"
| "run_steps dbg ffi (step # steps) = bind_prog (run_step dbg ffi step) (\<lambda>_. run_steps dbg ffi steps)"

text \<open>The steps on a new file.\<close>

definition on_new_file :: "bool \<Rightarrow> 'c sha256_ffi \<Rightarrow> bool \<Rightarrow> test_step list \<Rightarrow> (unit, io_error) outcome" where
  "on_new_file dbg ffi fails steps =
     fst (run_steps dbg ffi steps (VerifiedFileEditor_new (InMemoryEditor_new\<lparr>fail_read := fails\<rparr>)))"

section \<open>What the steps check\<close>

text \<open>The digests a test quotes, each with the content of the file at that point, and the side
  conditions of its other steps.\<close>

fun quoted :: "bytes \<Rightarrow> test_step list \<Rightarrow> (string \<times> bytes) list" where
  "quoted c [] = []"
| "quoted c (WriteAt buf off n # steps) = quoted (pwrite c off buf) steps"
| "quoted c (ResizeTo n # steps) = quoted (resize_bytes n c) steps"
| "quoted c (DigestIs hex_str # steps) = (hex_str, c) # quoted c steps"
| "quoted c (_ # steps) = quoted c steps"

fun steps_plain :: "bytes \<Rightarrow> test_step list \<Rightarrow> bool" where
  "steps_plain c [] = True"
| "steps_plain c (WriteAt buf off n # steps) =
     (n = length buf \<and> off + length buf \<le> i64_max \<and> steps_plain (pwrite c off buf) steps)"
| "steps_plain c (ResizeTo n # steps) = (n \<le> i64_max \<and> steps_plain (resize_bytes n c) steps)"
| "steps_plain c (DigestIs hex_str # steps) = (length c \<le> i64_max \<and> steps_plain c steps)"
| "steps_plain c (SizeIs n # steps) = (n = length c \<and> steps_plain c steps)"
| "steps_plain c (_ # steps) = False"

definition digest_ok :: "(bytes \<Rightarrow> Sha256Hash) \<Rightarrow> string \<times> bytes \<Rightarrow> bool" where
  "digest_ok H v \<longleftrightarrow> to_u8_vec (fst v) = (Ok (fsverity_digest H (snd v)) :: (bytes, io_error) outcome)"

lemma run_steps_pass_iff:
  assumes H: "sha256_lib ffi H" and z: "zero_hash_ok H"
  shows "steps_plain c steps \<Longrightarrow> editor_in_step H im_data mem_good st c \<Longrightarrow>
    is_ok (fst (run_steps False ffi steps st)) \<longleftrightarrow> list_all (digest_ok H) (quoted c steps)"
proof (induction c steps arbitrary: st rule: steps_plain.induct)
  case (2 c buf off n steps)
  from mem.editor_write_at_ok [OF H z _ le_refl 2(3), of off buf] 2(2) obtain st' where
    "editor_write_at mem_read_chunk mem_write_at ffi CHUNK_SIZE buf off st = (Ok (length buf), st')"
    "editor_in_step H im_data mem_good st' (pwrite c off buf)"
    by auto
  with 2 show ?case by (simp add: file_write_def)
next
  case (3 c n steps)
  from mem.editor_resize_ok [OF H z _ 3(3), of n False] 3(2) obtain st' where
    "editor_resize False mem_read_chunk mem_resize ffi n st = (Ok (), st')"
    "editor_in_step H im_data mem_good st' (resize_bytes n c)"
    by auto
  with 3 show ?case by (simp add: file_resize_def)
next
  case (4 c hex_str steps)
  have "calculate_fsverity_digest False ffi (merkle_tree st) = Ok (fsverity_digest H c)"
    by (rule calculate_fsverity_digest_correct [OF H])
       (use 4(2,3) in \<open>auto simp: editor_in_step_def CHUNK_SIZE_def u64_limit_def i64_max_def\<close>)
  with 4 show ?case
    by (cases "to_u8_vec hex_str :: (bytes, io_error) outcome")
       (simp_all add: bind_prog_def editor_calculate_fsverity_digest_def assert_eq_def digest_ok_def assertion_def)
next
  case (5 c n steps)
  then show ?case
    by (simp add: bind_prog_def editor_size_def MerkleLeaves_file_size_def editor_in_step_def represents_def)
qed simp_all

lemma new_file_in_step: "editor_in_step H im_data mem_good (VerifiedFileEditor_new InMemoryEditor_new) []"
  by (simp add: editor_in_step_def VerifiedFileEditor_new_def InMemoryEditor_new_def represents_new)

lemma on_new_file_passes_iff:
  assumes "sha256_lib ffi H" and "zero_hash_ok H" and "steps_plain [] steps"
  shows "is_ok (on_new_file False ffi False steps) \<longleftrightarrow> list_all (digest_ok H) (quoted [] steps)"
  using run_steps_pass_iff [OF assms new_file_in_step] by (simp add: on_new_file_def InMemoryEditor_new_def)

section \<open>The tests\<close>

abbreviation ones :: "nat \<Rightarrow> bytes" where
  "ones n \<equiv> replicate n 1"

definition test_writer :: "(InMemoryEditor, unit, io_error) prog" where
  "test_writer =
     bind_prog (\<lambda>s. (assertion (length (im_data s) = 0), s)) (\<lambda>_.
     bind_prog (mem_write_at (ones 4096) 16384) (\<lambda>n.
     bind_prog (ret (assertion (n = 4096))) (\<lambda>_.
     bind_prog (\<lambda>s. (slice_range (im_data s) 16384 (16384 + 4096), s)) (\<lambda>d.
     bind_prog (ret (assertion (d = ones 4096))) (\<lambda>_.
     bind_prog (mem_write_at (ones 4096) 2048) (\<lambda>n.
     bind_prog (ret (assertion (n = 4096))) (\<lambda>_.
     bind_prog (\<lambda>s. (slice_range (im_data s) 2048 (2048 + 4096), s)) (\<lambda>d.
     bind_prog (ret (assertion (d = ones 4096))) (\<lambda>_.
     (\<lambda>s. (assertion (length (im_data s) = 16384 + 4096), s)))))))))))"

definition test_verified_writer_no_write :: "bool \<Rightarrow> 'c sha256_ffi \<Rightarrow> (unit, io_error) outcome" where
  "test_verified_writer_no_write dbg ffi =
     on_new_file dbg ffi False
       [DigestIs ''3d248ca542a24fc62d1c43b916eae5016878e2533c88238480b26128a1f1af95'']"

definition test_verified_writer_from_zero :: "bool \<Rightarrow> 'c sha256_ffi \<Rightarrow> (unit, io_error) outcome" where
  "test_verified_writer_from_zero dbg ffi =
     and_then (on_new_file dbg ffi False
       [WriteAt (ones 4096) 0 4096,
        DigestIs ''cd0875ca59c7d37e962c5e8f5acd3770750ac80225e2df652ce5672fd34500af'']) (\<lambda>_.
     and_then (on_new_file dbg ffi False
       [WriteAt (ones 4097) 0 4097,
        DigestIs ''2901b849fda2d91e3929524561c4a47e77bb64734319759507b2029f18b9cc52'']) (\<lambda>_.
     on_new_file dbg ffi False
       [WriteAt (ones 10000) 0 10000,
        DigestIs ''7545409b556071554d18973a29b96409588c7cda4edd00d5586b27a11e1a523b'']))"

definition test_verified_writer_unaligned :: "bool \<Rightarrow> 'c sha256_ffi \<Rightarrow> (unit, io_error) outcome" where
  "test_verified_writer_unaligned dbg ffi =
     and_then (on_new_file dbg ffi False
       [WriteAt (ones 5) 3 5,
        DigestIs ''a23fc5130d3d7b3323fc4b4a5e79d5d3e9ddf3a3f5872639e867713512c6702f'']) (\<lambda>_.
     on_new_file dbg ffi False
       [WriteAt (ones 6000) 4000 6000,
        DigestIs ''d16d4c1c186d757e646f76208b21254f50d7f07ea07b1505ff48b2a6f603f989''])"

definition test_verified_writer_with_hole :: "bool \<Rightarrow> 'c sha256_ffi \<Rightarrow> (unit, io_error) outcome" where
  "test_verified_writer_with_hole dbg ffi =
     and_then (on_new_file dbg ffi False
       [WriteAt (ones 4096) 4096 4096,
        DigestIs ''4df2aefd8c2a9101d1d8770dca3ede418232eabce766bb8e020395eae2e97103'']) (\<lambda>_.
     and_then (on_new_file dbg ffi False
       [WriteAt (ones 5000) 6000 5000,
        DigestIs ''47d5da26f6934484e260630a69eb2eebb21b48f69bc8fbf8486d1694b7dba94f'']) (\<lambda>_.
     on_new_file dbg ffi False
       [WriteAt (ones 5) 16381 5,
        DigestIs ''8bd118821fb4aff26bb4b51d485cc481a093c68131b7f4f112e9546198449752'']))"

definition test_verified_writer_various_writes :: "bool \<Rightarrow> 'c sha256_ffi \<Rightarrow> (unit, io_error) outcome" where
  "test_verified_writer_various_writes dbg ffi =
     on_new_file dbg ffi False
       [WriteAt (ones 2048) 0 2048, WriteAt (ones 2048) (4096 + 2048) 2048,
        DigestIs ''4c433d8640c888b629dc673d318cbb8d93b1eebcc784d9353e07f09f0dcfe707'',
        WriteAt (ones 2048) 2048 2048, WriteAt (ones 2048) 4096 2048,
        DigestIs ''2a476d58eb80394052a3a783111e1458ac3ecf68a7878183fed86ca0ff47ec0d'',
        WriteAt (zeros 2048) 2048 2048, WriteAt (zeros 2048) 4096 2048,
        DigestIs ''4c433d8640c888b629dc673d318cbb8d93b1eebcc784d9353e07f09f0dcfe707'',
        WriteAt (ones 4096) 2048 4096,
        DigestIs ''2a476d58eb80394052a3a783111e1458ac3ecf68a7878183fed86ca0ff47ec0d'',
        WriteAt (ones 2048) 8192 2048, WriteAt (ones 2048) (8192 + 2048) 2048,
        DigestIs ''23cbac08371e6ee838ebcc7ae6512b939d2226e802337be7b383c3e046047d24'']"

definition test_resize_to_same_size :: "bool \<Rightarrow> 'c sha256_ffi \<Rightarrow> (unit, io_error) outcome" where
  "test_resize_to_same_size dbg ffi =
     on_new_file dbg ffi False
       [WriteAt (ones 2048) 0 2048, ResizeTo 2048, SizeIs 2048,
        DigestIs ''fef1b4f19bb7a2cd944d7cdee44d1accb12726389ca5b0f61ac0f548ae40876f'']"

definition test_resize_to_grow :: "bool \<Rightarrow> 'c sha256_ffi \<Rightarrow> (unit, io_error) outcome" where
  "test_resize_to_grow dbg ffi =
     on_new_file dbg ffi False
       [WriteAt (ones 2048) 0 2048, ResizeTo 4096, SizeIs 4096,
        DigestIs ''9e0e2745c21e4e74065240936d2047340d96a466680c3c9d177b82433e7a0bb1'']"

definition test_resize_to_shrink :: "bool \<Rightarrow> 'c sha256_ffi \<Rightarrow> (unit, io_error) outcome" where
  "test_resize_to_shrink dbg ffi =
     on_new_file dbg ffi False
       [WriteAt (ones 4096) 0 4096, ResizeTo 2048, SizeIs 2048,
        DigestIs ''fef1b4f19bb7a2cd944d7cdee44d1accb12726389ca5b0f61ac0f548ae40876f'']"

lemma test_writer_passes: "is_ok (fst (test_writer InMemoryEditor_new))"
  by (simp add: test_writer_def InMemoryEditor_new_def mem_write_at_pwrite u64_limit_def pwrite_def bind_prog_def
      slice_range_def zeros_def)

lemma replicate_join: "replicate m x @ replicate n x = replicate (m + n) x"
  "replicate m x @ replicate n x @ ys = replicate (m + n) x @ ys"
  by (simp_all add: replicate_add)

lemma pwrite_new: "b \<noteq> [] \<Longrightarrow> pwrite [] off b = zeros off @ b"
  by (simp add: pwrite_def)

lemmas content_simps = pwrite_def zeros_def resize_bytes_def vec_resize_def replicate_join i64_max_def

lemma writer_tests_pass_iff:
  assumes "sha256_lib ffi H" and "zero_hash_ok H"
  shows "is_ok (test_verified_writer_no_write False ffi) \<longleftrightarrow>
      digest_ok H (''3d248ca542a24fc62d1c43b916eae5016878e2533c88238480b26128a1f1af95'', [])"
    "is_ok (test_verified_writer_from_zero False ffi) \<longleftrightarrow> list_all (digest_ok H)
      [(''cd0875ca59c7d37e962c5e8f5acd3770750ac80225e2df652ce5672fd34500af'', ones 4096),
       (''2901b849fda2d91e3929524561c4a47e77bb64734319759507b2029f18b9cc52'', ones 4097),
       (''7545409b556071554d18973a29b96409588c7cda4edd00d5586b27a11e1a523b'', ones 10000)]"
    "is_ok (test_verified_writer_unaligned False ffi) \<longleftrightarrow> list_all (digest_ok H)
      [(''a23fc5130d3d7b3323fc4b4a5e79d5d3e9ddf3a3f5872639e867713512c6702f'', zeros 3 @ ones 5),
       (''d16d4c1c186d757e646f76208b21254f50d7f07ea07b1505ff48b2a6f603f989'', zeros 4000 @ ones 6000)]"
    "is_ok (test_verified_writer_with_hole False ffi) \<longleftrightarrow> list_all (digest_ok H)
      [(''4df2aefd8c2a9101d1d8770dca3ede418232eabce766bb8e020395eae2e97103'', zeros 4096 @ ones 4096),
       (''47d5da26f6934484e260630a69eb2eebb21b48f69bc8fbf8486d1694b7dba94f'', zeros 6000 @ ones 5000),
       (''8bd118821fb4aff26bb4b51d485cc481a093c68131b7f4f112e9546198449752'', zeros 16381 @ ones 5)]"
  using on_new_file_passes_iff [OF assms]
  by (simp_all add: test_verified_writer_no_write_def test_verified_writer_from_zero_def
      test_verified_writer_unaligned_def test_verified_writer_with_hole_def is_ok_and_then_unit pwrite_new i64_max_def)

text \<open>The writes that undo each other lead back to the first digest.\<close>

lemma test_verified_writer_various_writes_passes_iff:
  assumes "sha256_lib ffi H" and "zero_hash_ok H"
  shows "is_ok (test_verified_writer_various_writes False ffi) \<longleftrightarrow> list_all (digest_ok H)
      [(''4c433d8640c888b629dc673d318cbb8d93b1eebcc784d9353e07f09f0dcfe707'', ones 2048 @ zeros 4096 @ ones 2048),
       (''2a476d58eb80394052a3a783111e1458ac3ecf68a7878183fed86ca0ff47ec0d'', ones 8192),
       (''23cbac08371e6ee838ebcc7ae6512b939d2226e802337be7b383c3e046047d24'', ones 12288)]"
  using on_new_file_passes_iff [OF assms]
  by (simp add: test_verified_writer_various_writes_def content_simps) blast

lemma resize_tests_pass_iff:
  assumes "sha256_lib ffi H" and "zero_hash_ok H"
  shows "is_ok (test_resize_to_same_size False ffi) \<longleftrightarrow>
      digest_ok H (''fef1b4f19bb7a2cd944d7cdee44d1accb12726389ca5b0f61ac0f548ae40876f'', ones 2048)"
    "is_ok (test_resize_to_grow False ffi) \<longleftrightarrow>
      digest_ok H (''9e0e2745c21e4e74065240936d2047340d96a466680c3c9d177b82433e7a0bb1'', ones 2048 @ zeros 2048)"
    "is_ok (test_resize_to_shrink False ffi) \<longleftrightarrow>
      digest_ok H (''fef1b4f19bb7a2cd944d7cdee44d1accb12726389ca5b0f61ac0f548ae40876f'', ones 2048)"
  using on_new_file_passes_iff [OF assms]
  by (simp_all add: test_resize_to_same_size_def test_resize_to_grow_def test_resize_to_shrink_def content_simps)

section \<open>The tests with a faulty backing file\<close>

definition test_verified_writer_inconsistent_read :: "bool \<Rightarrow> 'c sha256_ffi \<Rightarrow> (unit, io_error) outcome" where
  "test_verified_writer_inconsistent_read dbg ffi =
     (let overriding_hash = replicate HASH_SIZE 42 in
      on_new_file dbg ffi False
       [WriteAt (ones 8192) 0 8192,
        SetHash 0 overriding_hash 8192,
        WriteFails (ones 1) 2048,
        WriteAt (ones 4096) 4096 4096,
        SetHash 1 overriding_hash 8192,
        WriteAt (replicate 8000 10) 0 4096,
        WriteFails (replicate (8000 - 4096) 10) 4096])"

definition test_verified_writer_failed_read_back :: "bool \<Rightarrow> 'c sha256_ffi \<Rightarrow> (unit, io_error) outcome" where
  "test_verified_writer_failed_read_back dbg ffi =
     on_new_file dbg ffi True [WriteAt (ones 8192) 0 8192, WriteFails (ones 1) 2048]"

definition test_resize_to_shrink_with_read_failure :: "bool \<Rightarrow> 'c sha256_ffi \<Rightarrow> (unit, io_error) outcome" where
  "test_resize_to_shrink_with_read_failure dbg ffi =
     on_new_file dbg ffi True [WriteAt (ones 4096) 0 4096, ResizeFails 2048]"

definition test_resize_to_shirink_to_chunk_boundary :: "bool \<Rightarrow> 'c sha256_ffi \<Rightarrow> (unit, io_error) outcome" where
  "test_resize_to_shirink_to_chunk_boundary dbg ffi =
     on_new_file dbg ffi True
       [WriteAt (ones 8192) 0 8192, ResizeTo 4096, SizeIs 4096,
        DigestIs ''cd0875ca59c7d37e962c5e8f5acd3770750ac80225e2df652ce5672fd34500af'']"

text \<open>A full chunk is written without reading; \<open>mem_state\<close> names the states the tests pass through.\<close>

definition mem_state :: "Sha256Hash list \<Rightarrow> nat \<Rightarrow> bytes \<Rightarrow> bool \<Rightarrow> InMemoryEditor VerifiedFileEditor" where
  "mem_state hs n d fails =
     \<lparr>merkle_tree = \<lparr>leaves = hs, ml_file_size = n\<rparr>, backing = \<lparr>im_data = d, fail_read = fails\<rparr>\<rparr>"

lemma mem_write_all_at:
  assumes "off + length buf < u64_limit" and "buf \<noteq> []"
  shows "write_all_at mem_write_at CHUNK_SIZE buf off s = (Ok (), s\<lparr>im_data := pwrite (im_data s) off buf\<rparr>)"
proof -
  have "write_all_loop mem_write_at (Suc f) buf 0 off s = (Ok (), s\<lparr>im_data := pwrite (im_data s) off buf\<rparr>)" for f
    using assms mem_write_at_pwrite [OF assms, of s] by (cases f) simp_all
  from this [of 4095] show ?thesis by (simp add: write_all_at_def CHUNK_SIZE_def)
qed

lemma full_piece:
  assumes H: "sha256_lib ffi H" and m: "m + CHUNK_SIZE \<le> length buf" "(off + m) mod CHUNK_SIZE = 0"
    and lim: "off + length buf < u64_limit" and i: "i = (off + m) div CHUNK_SIZE"
    and u: "update_hash \<lparr>leaves = hs, ml_file_size = n\<rparr> i (H (take CHUNK_SIZE (drop m buf))) (off + length buf) =
      (Ok \<lparr>leaves = hs', ml_file_size = n'\<rparr> :: (MerkleLeaves, write_exit) outcome)"
  shows "write_piece mem_read_chunk mem_write_at ffi CHUNK_SIZE buf off x (off + m, CHUNK_SIZE) (mem_state hs n d fails) =
    (Ok (), mem_state hs' n' (pwrite d (off + m) (take CHUNK_SIZE (drop m buf))) fails)"
proof -
  have "write_all_at mem_write_at CHUNK_SIZE (take CHUNK_SIZE (drop m buf)) (off + m) s =
      (Ok (), s\<lparr>im_data := pwrite (im_data s) (off + m) (take CHUNK_SIZE (drop m buf))\<rparr>)" for s
    by (rule mem_write_all_at) (use m lim in \<open>auto simp: CHUNK_SIZE_def\<close>)
  then show ?thesis
    unfolding write_piece_eq [OF m(1) lim]
    using u H by (simp add: new_chunk_hash_def map_err_prog_def on_file_def mem_state_def i bind_prog_def update_tree_def)
qed

text \<open>A write of part of a chunk fails if the chunk cannot be read or does not have its hash.\<close>

lemma part_piece_fails:
  assumes H: "sha256_lib ffi H" and m: "m + k \<le> length buf" and lim: "off + length buf < u64_limit" and k: "k < CHUNK_SIZE"
    and i: "i = (off + m) div CHUNK_SIZE" "i < length hs" "CHUNK_SIZE * i < length d"
    and bad: "fails \<or> hs ! i \<noteq> H (page d i)"
  shows "\<exists>e. write_piece mem_read_chunk mem_write_at ffi CHUNK_SIZE buf off x (off + m, k) (mem_state hs n d fails) =
    (Err (if 0 < m then ReturnOk m else ReturnErr e), mem_state hs n d fails)"
proof (cases fails)
  case True
  then show ?thesis
    unfolding write_piece_eq [OF m lim]
    using i k by (simp add: new_chunk_hash_def new_hash_for_incomplete_write_def is_index_valid_def mem_state_def
        editor_read_chunk_def on_file_def mem_read_chunk_fails map_err_prog_def bind_prog_def)
next
  case False
  let ?c = "take CHUNK_SIZE (drop (CHUNK_SIZE * i) d)"
  have "mem_read_chunk i (zeros CHUNK_SIZE) \<lparr>im_data = d, fail_read = False\<rparr> =
      (Ok (length ?c, page d i), \<lparr>im_data = d, fail_read = False\<rparr>)"
    using mem_read_chunk_eq [of "\<lparr>im_data = d, fail_read = False\<rparr>" ?c i "zeros CHUNK_SIZE"] i(3)
      chunk_is_page [OF refl, of i d] by simp
  with False show ?thesis
    unfolding write_piece_eq [OF m lim]
    using i k bad H by (simp add: new_chunk_hash_def new_hash_for_incomplete_write_def is_index_valid_def mem_state_def
        editor_read_chunk_def on_file_def map_err_prog_def bind_prog_def is_consistent_def)
qed

lemma file_write_plan:
  "off + length buf < u64_limit \<Longrightarrow> file_write ffi buf off st =
    (case fold_prog (write_piece mem_read_chunk mem_write_at ffi CHUNK_SIZE buf off) ()
            (chunk_plan CHUNK_SIZE (length buf) off) st of
       (r, st') \<Rightarrow> (finish_write (length buf) r, st'))"
  by (simp add: file_write_def editor_write_at_def chunked_try_fold_plan)

text \<open>The writes of the tests, on any state they meet.\<close>

lemma write_one_chunk:
  assumes H: "sha256_lib ffi H" and b: "length buf = CHUNK_SIZE" and off: "off mod CHUNK_SIZE = 0" "off + CHUNK_SIZE < u64_limit"
    and u: "update_hash \<lparr>leaves = hs, ml_file_size = n\<rparr> (off div CHUNK_SIZE) (H buf) (off + CHUNK_SIZE) =
      (Ok \<lparr>leaves = hs', ml_file_size = n'\<rparr> :: (MerkleLeaves, write_exit) outcome)"
  shows "file_write ffi buf off (mem_state hs n d fails) =
    (Ok CHUNK_SIZE, mem_state hs' n' (pwrite d off buf) fails)"
proof -
  have "chunk_plan CHUNK_SIZE (length buf) off = [(off, CHUNK_SIZE)]"
    using b off(1) chunk_plan_single [of CHUNK_SIZE off CHUNK_SIZE] by simp
  with b off full_piece [OF H, of 0 buf off "off div CHUNK_SIZE" hs n hs' n' "()" d fails] u show ?thesis
    by (simp add: file_write_plan finish_write_def)
qed

lemma write_two_chunks:
  assumes H: "sha256_lib ffi H"
  shows "file_write ffi (ones 8192) 0 (mem_state [] 0 [] fails) =
    (Ok 8192, mem_state [H (ones 4096), H (ones 4096)] 8192 (ones 8192) fails)"
proof -
  have plan: "chunk_plan CHUNK_SIZE 8192 0 = [(0, CHUNK_SIZE), (0 + CHUNK_SIZE, CHUNK_SIZE)]"
    by (simp add: chunk_plan_Cons CHUNK_SIZE_def)
  have "write_piece mem_read_chunk mem_write_at ffi CHUNK_SIZE (ones 8192) 0 () (0 + 0, CHUNK_SIZE) (mem_state [] 0 [] fails) =
      (Ok (), mem_state [H (ones 4096)] 8192 (pwrite [] (0 + 0) (take CHUNK_SIZE (drop 0 (ones 8192)))) fails)"
    by (rule full_piece [where i = 0, OF H]) (simp_all add: CHUNK_SIZE_def update_hash_def vec_resize_def u64_limit_def)
  moreover have "write_piece mem_read_chunk mem_write_at ffi CHUNK_SIZE (ones 8192) 0 () (0 + CHUNK_SIZE, CHUNK_SIZE)
        (mem_state [H (ones 4096)] 8192 (ones 4096) fails) =
      (Ok (), mem_state [H (ones 4096), H (ones 4096)] 8192
        (pwrite (ones 4096) (0 + CHUNK_SIZE) (take CHUNK_SIZE (drop CHUNK_SIZE (ones 8192)))) fails)"
    by (rule full_piece [where i = 1, OF H]) (simp_all add: CHUNK_SIZE_def update_hash_def vec_resize_def u64_limit_def)
  ultimately show ?thesis
    by (simp add: file_write_plan plan [unfolded CHUNK_SIZE_def] u64_limit_def finish_write_def pwrite_def CHUNK_SIZE_def
        replicate_join)
qed

lemma write_part_fails:
  assumes H: "sha256_lib ffi H" and b: "0 < length buf" "length buf < CHUNK_SIZE" "off mod CHUNK_SIZE + length buf \<le> CHUNK_SIZE"
    and lim: "off + length buf < u64_limit"
    and i: "i = off div CHUNK_SIZE" "i < length hs" "CHUNK_SIZE * i < length d"
    and bad: "fails \<or> hs ! i \<noteq> H (page d i)"
  shows "\<exists>e. file_write ffi buf off (mem_state hs n d fails) = (Err e, mem_state hs n d fails)"
proof -
  have "chunk_plan CHUNK_SIZE (length buf) off = [(off + 0, length buf)]"
    using chunk_plan_single [OF b(1) b(3)] by simp
  moreover obtain e where
    "write_piece mem_read_chunk mem_write_at ffi CHUNK_SIZE buf off () (off + 0, length buf) (mem_state hs n d fails) =
      (Err (ReturnErr e), mem_state hs n d fails)"
    using part_piece_fails [OF H, of 0 "length buf" buf off i hs d fails "()" n] b lim i bad by auto
  ultimately show ?thesis using lim by (auto simp: file_write_plan finish_write_def)
qed

lemma new_file_mem_state: "VerifiedFileEditor_new (InMemoryEditor_new\<lparr>fail_read := fails\<rparr>) = mem_state [] 0 [] fails"
  by (simp add: VerifiedFileEditor_new_def InMemoryEditor_new_def mem_state_def MerkleLeaves_new_def)

lemma test_verified_writer_failed_read_back_passes:
  assumes H: "sha256_lib ffi H"
  shows "is_ok (test_verified_writer_failed_read_back dbg ffi)"
proof -
  let ?st = "mem_state [H (ones 4096), H (ones 4096)] 8192 (ones 8192) True"
  obtain e where "file_write ffi (ones 1) 2048 ?st = (Err e, ?st)"
    using write_part_fails [OF H, of "ones 1" 2048 0 "[H (ones 4096), H (ones 4096)]" "ones 8192" True 8192]
    by (auto simp: CHUNK_SIZE_def u64_limit_def)
  then show ?thesis
    using write_two_chunks [OF H, of True]
    by (simp add: test_verified_writer_failed_read_back_def on_new_file_def new_file_mem_state bind_prog_def)
qed

lemma write_one_chunk_new:
  assumes "sha256_lib ffi H"
  shows "file_write ffi (ones 4096) 0 (mem_state [] 0 [] fails) = (Ok 4096, mem_state [H (ones 4096)] 4096 (ones 4096) fails)"
  using write_one_chunk [OF assms, of "ones 4096" 0 "[]" 0 "[H (ones 4096)]" 4096 "[]" fails]
  by (simp add: CHUNK_SIZE_def update_hash_def vec_resize_def u64_limit_def pwrite_def)

lemma test_resize_to_shrink_with_read_failure_passes:
  assumes H: "sha256_lib ffi H"
  shows "is_ok (test_resize_to_shrink_with_read_failure dbg ffi)"
  using write_one_chunk_new [OF H, of True]
  by (simp add: test_resize_to_shrink_with_read_failure_def on_new_file_def new_file_mem_state bind_prog_def
      file_resize_def editor_resize_def resize_tail_def editor_read_chunk_def on_file_def mem_state_def
      mem_read_chunk_fails MerkleLeaves_file_size_def CHUNK_SIZE_def)

text \<open>Shrinking to a multiple of the chunk size needs no reading.\<close>

lemma test_resize_to_shirink_to_chunk_boundary_passes_iff:
  assumes H: "sha256_lib ffi H"
  shows "is_ok (test_resize_to_shirink_to_chunk_boundary False ffi) \<longleftrightarrow>
    digest_ok H (''cd0875ca59c7d37e962c5e8f5acd3770750ac80225e2df652ce5672fd34500af'', ones 4096)"
proof -
  let ?hex = "''cd0875ca59c7d37e962c5e8f5acd3770750ac80225e2df652ce5672fd34500af''"
  have "file_resize False ffi 4096 (mem_state [H (ones 4096), H (ones 4096)] 8192 (ones 8192) True) =
      (Ok (), mem_state [H (ones 4096)] 4096 (ones 4096) True)"
    by (simp add: file_resize_def editor_resize_def resize_tail_def on_file_def mem_state_def mem_resize_def bind_prog_def
        MerkleLeaves_resize_def divide_roundup_def vec_resize_def resize_bytes_def CHUNK_SIZE_def u64_limit_def)
  moreover have "represents H \<lparr>leaves = [H (ones 4096)], ml_file_size = 4096\<rparr> (ones 4096)"
    using leaf_hashes_replicate [of H 1 1] by (simp add: represents_def CHUNK_SIZE_def)
  then have "calculate_fsverity_digest False ffi \<lparr>leaves = [H (ones 4096)], ml_file_size = 4096\<rparr> =
      Ok (fsverity_digest H (ones 4096))"
    by (rule calculate_fsverity_digest_correct [OF H]) (simp add: CHUNK_SIZE_def u64_limit_def)
  ultimately show ?thesis
    using write_two_chunks [OF H, of True]
    by (cases "to_u8_vec ?hex :: (bytes, io_error) outcome")
       (simp_all add: test_resize_to_shirink_to_chunk_boundary_def on_new_file_def new_file_mem_state bind_prog_def
         editor_size_def MerkleLeaves_file_size_def mem_state_def editor_calculate_fsverity_digest_def assert_eq_def
         digest_ok_def assertion_def)
qed

text \<open>The overriding hash stands for a chunk that was changed behind the editor's back; the test
  relies on it not being the hash of the chunk.\<close>

lemma write_stops_at_bad_chunk:
  assumes H: "sha256_lib ffi H" and d: "length d = 8192" and bad: "h1 \<noteq> H (page d 1)"
  shows "file_write ffi (replicate 8000 10) 0 (mem_state [h0, h1] 8192 d False) =
    (Ok 4096, mem_state [H (replicate 4096 10), h1] 8192 (replicate 4096 10 @ drop 4096 d) False)"
proof -
  let ?b = "replicate 8000 (10 :: u8)" and ?d = "pwrite d (0 + 0) (take CHUNK_SIZE (drop 0 (replicate 8000 10)))"
  let ?st = "mem_state [H (replicate 4096 10), h1] 8192 ?d False"
  have "chunk_plan CHUNK_SIZE 8000 0 = [(0 + 0, CHUNK_SIZE), (0 + CHUNK_SIZE, 3904)]"
    by (simp add: chunk_plan_Cons CHUNK_SIZE_def)
  moreover have "write_piece mem_read_chunk mem_write_at ffi CHUNK_SIZE ?b 0 () (0 + 0, CHUNK_SIZE)
      (mem_state [h0, h1] 8192 d False) = (Ok (), ?st)"
    by (rule full_piece [where i = 0, OF H]) (simp_all add: CHUNK_SIZE_def update_hash_def vec_resize_def u64_limit_def)
  moreover have "page ?d 1 = page d 1" by (rule page_pwrite_other [of 0]) (simp_all add: CHUNK_SIZE_def)
  then have "\<exists>e. write_piece mem_read_chunk mem_write_at ffi CHUNK_SIZE ?b 0 () (0 + CHUNK_SIZE, 3904) ?st =
      (Err (if 0 < CHUNK_SIZE then ReturnOk CHUNK_SIZE else ReturnErr e), ?st)"
    by (intro part_piece_fails [where i = 1, OF H])
       (use bad d in \<open>simp_all add: CHUNK_SIZE_def u64_limit_def length_pwrite\<close>)
  ultimately show ?thesis
    by (auto simp: file_write_plan u64_limit_def finish_write_def pwrite_def CHUNK_SIZE_def)
qed

lemma set_hash_mem_state:
  "i < length hs \<Longrightarrow> Suc i < u64_limit \<Longrightarrow>
   run_step dbg ffi (SetHash i hash n) (mem_state hs n d fails) = (Ok (), mem_state (hs[i := hash]) n d fails)"
  by (simp add: update_tree_def mem_state_def update_hash_def)

lemma ones_pages: "page (ones 8192) 0 = ones 4096" "page (ones 8192) 1 = ones 4096"
    "page (replicate 4096 10 @ ones 4096) 1 = ones 4096"
  by (simp_all add: page_def resize_bytes_def vec_resize_def CHUNK_SIZE_def)

lemma inconsistent_read_detected:
  assumes H: "sha256_lib ffi H" and ov: "H (ones 4096) \<noteq> replicate HASH_SIZE 42"
  shows "is_ok (test_verified_writer_inconsistent_read dbg ffi)"
proof -
  let ?h = "H (ones 4096)" and ?o = "replicate HASH_SIZE (42 :: u8)" and ?t = "H (replicate 4096 (10 :: u8))"
  obtain e1 where w1: "file_write ffi (ones 1) 2048 (mem_state [?o, ?h] 8192 (ones 8192) False) =
      (Err e1, mem_state [?o, ?h] 8192 (ones 8192) False)"
    using write_part_fails [OF H, of "ones 1" 2048 0 "[?o, ?h]" "ones 8192" False 8192] ov ones_pages
    by (auto simp: CHUNK_SIZE_def u64_limit_def)
  have w2: "file_write ffi (ones 4096) 4096 (mem_state [?o, ?h] 8192 (ones 8192) False) =
      (Ok 4096, mem_state [?o, ?h] 8192 (ones 8192) False)"
    using write_one_chunk [OF H, of "ones 4096" 4096 "[?o, ?h]" 8192 "[?o, ?h]" 8192 "ones 8192" False]
    by (simp add: CHUNK_SIZE_def update_hash_def u64_limit_def pwrite_def replicate_join)
  have w3: "file_write ffi (replicate 8000 10) 0 (mem_state [?o, ?o] 8192 (ones 8192) False) =
      (Ok 4096, mem_state [?t, ?o] 8192 (replicate 4096 10 @ ones 4096) False)"
    using write_stops_at_bad_chunk [OF H, of "ones 8192" ?o ?o] ov ones_pages by simp
  obtain e2 where w4: "file_write ffi (replicate 3904 10) 4096
        (mem_state [?t, ?o] 8192 (replicate 4096 10 @ ones 4096) False) =
      (Err e2, mem_state [?t, ?o] 8192 (replicate 4096 10 @ ones 4096) False)"
    using write_part_fails [OF H, of "replicate 3904 10" 4096 1 "[?t, ?o]" "replicate 4096 10 @ ones 4096" False 8192]
      ov ones_pages by (auto simp: CHUNK_SIZE_def u64_limit_def)
  show ?thesis
    using write_two_chunks [OF H, of False] w1 w2 w3 w4
    by (simp add: test_verified_writer_inconsistent_read_def on_new_file_def new_file_mem_state Let_def bind_prog_def
        set_hash_mem_state u64_limit_def del: run_step.simps(7))
qed

text \<open>The same test would not notice a hash function for which the overriding hash is the right one.\<close>

lemma test_verified_writer_inconsistent_read_passes_iff:
  assumes H: "sha256_lib ffi H" and z: "zero_hash_ok H"
  shows "is_ok (test_verified_writer_inconsistent_read dbg ffi) \<longleftrightarrow> H (ones 4096) \<noteq> replicate HASH_SIZE 42"
proof
  assume ok: "is_ok (test_verified_writer_inconsistent_read dbg ffi)"
  show "H (ones 4096) \<noteq> replicate HASH_SIZE 42"
  proof
    let ?h = "H (ones 4096)" and ?st = "mem_state [H (ones 4096), H (ones 4096)] 8192 (ones 8192) False"
    assume h: "?h = replicate HASH_SIZE 42"
    have "leaf_hashes H (ones 8192) = [?h, ?h]"
      using leaf_hashes_replicate [of H 2 1] by (simp add: CHUNK_SIZE_def replicate_2)
    then have "editor_in_step H im_data mem_good ?st (ones 8192)"
      by (simp add: editor_in_step_def mem_state_def represents_def)
    from mem.editor_write_at_ok [OF H z _ le_refl this, of 2048 "ones 1"] obtain st' where
      "file_write ffi (ones 1) 2048 ?st = (Ok 1, st')"
      by (auto simp: file_write_def i64_max_def)
    moreover have "run_step dbg ffi (SetHash 0 (replicate HASH_SIZE 42) 8192) ?st = (Ok (), ?st)"
      by (subst set_hash_mem_state) (simp_all add: h u64_limit_def)
    ultimately show False
      using ok write_two_chunks [OF H, of False]
      by (simp add: test_verified_writer_inconsistent_read_def on_new_file_def new_file_mem_state Let_def bind_prog_def
          del: run_step.simps(7))
  qed
next
  assume "H (ones 4096) \<noteq> replicate HASH_SIZE 42"
  then show "is_ok (test_verified_writer_inconsistent_read dbg ffi)" by (rule inconsistent_read_detected [OF H])
qed

end
