(* ===== verification/Verifier.thy ===== *)
theory Verifier
  imports MerkleSpec FileTraits
begin

text \<open>
  \<^verbatim>\<open>authfs/src/fsverity/verifier.rs\<close> and \<^verbatim>\<open>authfs/src/auth.rs\<close>: \<open>VerifiedFileReader\<close>, which
  reads chunks of an untrusted file and checks each against a root hash by walking an
  untrusted Merkle tree from the leaf to the root.

  Both files are read through one state (a service that serves both, or a pair). The
  authenticator is a parameter. The lemmas: the walk visits, level by level, the page that
  holds the hash of the page below (\<open>walk_steps_plan\<close>); a chunk that passes the check is
  the genuine chunk unless a served block is a forgery (\<open>verity_check_sound\<close>); the genuine
  chunks and tree pass (\<open>verified_read_chunk_complete\<close>); and a reader that was created for a
  signature carries the genuine root (\<open>VerifiedFileReader_new_sound\<close>).
\<close>

section \<open>Definitions\<close>

type_synonym authenticator = "bytes \<Rightarrow> bytes \<Rightarrow> (bool, io_error) outcome"

record FakeAuthenticator =
  should_allow :: bool

definition always_succeed :: FakeAuthenticator where
  "always_succeed = \<lparr>should_allow = True\<rparr>"

definition always_fail :: FakeAuthenticator where
  "always_fail = \<lparr>should_allow = False\<rparr>"

definition fake_verify :: "FakeAuthenticator \<Rightarrow> authenticator" where
  "fake_verify a _ _ = Ok (should_allow a)"

definition hash_with_padding :: "'c sha256_ffi \<Rightarrow> bytes \<Rightarrow> nat \<Rightarrow> (Sha256Hash, CryptoError) outcome" where
  "hash_with_padding ffi chunk pad_to =
     and_then (u64_sub pad_to (length chunk)) (\<lambda>padding_size.
     and_then (slice_range (zeros CHUNK_SIZE) 0 padding_size) (\<lambda>padding.
     sha256_chain ffi [chunk, padding]))"

text \<open>The closure of the first \<open>map\<close> of \<open>fsverity_walk\<close>, for the level \<open>x\<close>.\<close>

definition walk_level :: "nat \<Rightarrow> nat \<Rightarrow> nat \<Rightarrow> (nat \<times> nat, FsverityError) outcome" where
  "walk_level chunk_index file_size x =
     and_then (u64_div CHUNK_SIZE HASH_SIZE) (\<lambda>hashes_per_node.
     and_then (u64_pow hashes_per_node x) (\<lambda>leaves_per_hash.
     and_then (u64_mul CHUNK_SIZE leaves_per_hash) (\<lambda>leaves_size_per_hash.
     and_then (u64_mul leaves_size_per_hash hashes_per_node) (\<lambda>leaves_size_per_node.
     and_then (divide_roundup file_size leaves_size_per_node) (\<lambda>nodes_at_level.
     and_then (u64_mul nodes_at_level CHUNK_SIZE) (\<lambda>level_size.
     and_then (u64_div chunk_index leaves_per_hash) (\<lambda>hash_index.
     and_then (u64_mul hash_index HASH_SIZE) (\<lambda>offset_in_level.
     Ok (level_size, offset_in_level)))))))))"

text \<open>The \<open>scan\<close> that turns offsets in a level into offsets in the file.\<close>

fun walk_scan :: "nat \<Rightarrow> (nat \<times> nat) list \<Rightarrow> (nat list, FsverityError) outcome" where
  "walk_scan level_offset [] = Ok []"
| "walk_scan level_offset ((level_size, offset_in_level) # levels) =
     and_then (u64_add level_offset level_size) (\<lambda>level_offset'.
     and_then (u64_add level_offset offset_in_level) (\<lambda>global_hash_offset.
     and_then (walk_scan level_offset' levels) (\<lambda>rest.
     Ok (global_hash_offset # rest))))"

definition walk_steps :: "bool \<Rightarrow> nat \<Rightarrow> nat \<Rightarrow> ((nat \<times> nat) list, FsverityError) outcome" where
  "walk_steps dbg chunk_index file_size =
     and_then (debug_assert dbg (CHUNK_SIZE div HASH_SIZE = 128)) (\<lambda>_.
     and_then (merkle_tree_height file_size) (\<lambda>height.
     and_then (unwrap height) (\<lambda>max_level.
     and_then (try_map (walk_level chunk_index file_size) (rev [0..<Suc max_level])) (\<lambda>levels.
     and_then (walk_scan 0 levels) (\<lambda>global_hash_offsets.
     Ok (rev (map (\<lambda>g. (g div CHUNK_SIZE, g mod CHUNK_SIZE)) global_hash_offsets)))))))"

text \<open>One turn of the \<open>try_fold\<close>: read the node, compare the hash in it, hash the node.\<close>

definition verity_step ::
  "'s read_chunk_fn \<Rightarrow> 'c sha256_ffi \<Rightarrow> Sha256Hash \<Rightarrow> nat \<times> nat \<Rightarrow> ('s, Sha256Hash, FsverityError) prog" where
  "verity_step rd_tree ffi actual_hash step =
     (case step of (tree_index, hash_offset_in_chunk) \<Rightarrow>
      bind_prog (map_err_prog Io (rd_tree tree_index (zeros CHUNK_SIZE))) (\<lambda>(_, merkle_chunk).
      bind_prog (ret (u64_add hash_offset_in_chunk HASH_SIZE)) (\<lambda>hash_end.
      bind_prog (ret (slice_range merkle_chunk hash_offset_in_chunk hash_end)) (\<lambda>expected_hash.
      if actual_hash \<noteq> expected_hash then ret (Err CannotVerify)
      else ret (map_err UnexpectedCryptoError (hash_with_padding ffi merkle_chunk CHUNK_SIZE))))))"

definition verity_check ::
  "bool \<Rightarrow> 's read_chunk_fn \<Rightarrow> 'c sha256_ffi \<Rightarrow> bytes \<Rightarrow> nat \<Rightarrow> nat \<Rightarrow>
   ('s, Sha256Hash, FsverityError) prog" where
  "verity_check dbg rd_tree ffi chunk chunk_index file_size =
     bind_prog (ret (assertion (file_size \<noteq> 0))) (\<lambda>_.
     bind_prog (ret (map_err UnexpectedCryptoError (hash_with_padding ffi chunk CHUNK_SIZE))) (\<lambda>chunk_hash.
     bind_prog (ret (walk_steps dbg chunk_index file_size)) (\<lambda>steps.
     fold_prog (verity_step rd_tree ffi) chunk_hash steps)))"

definition build_fsverity_formatted_digest ::
  "'c sha256_ffi \<Rightarrow> Sha256Hash \<Rightarrow> nat \<Rightarrow> (bytes, CryptoError) outcome" where
  "build_fsverity_formatted_digest ffi root_hash file_size =
     and_then (build_fsverity_digest ffi root_hash file_size) (\<lambda>digest.
     and_then (copy_into (zeros (12 + HASH_SIZE)) 0 8 FS_VERITY_MAGIC) (\<lambda>b1.
     and_then (copy_into b1 8 10 (to_le_bytes 2 (unat FS_VERITY_HASH_ALG_SHA256))) (\<lambda>b2.
     and_then (copy_into b2 10 12 (to_le_bytes 2 HASH_SIZE)) (\<lambda>b3.
     copy_into b3 12 (length b3) digest))))"

record VerifiedFileReader =
  vr_file_size :: nat
  vr_root_hash :: Sha256Hash

definition VerifiedFileReader_new ::
  "authenticator \<Rightarrow> 's read_chunk_fn \<Rightarrow> 'c sha256_ffi \<Rightarrow> nat \<Rightarrow> bytes \<Rightarrow>
   ('s, VerifiedFileReader, FsverityError) prog" where
  "VerifiedFileReader_new verify rd_tree ffi file_size sig =
     bind_prog (map_err_prog Io (rd_tree 0 (zeros CHUNK_SIZE))) (\<lambda>(n, buf).
     if length buf \<noteq> n then ret (Err (InsufficientData n))
     else
       bind_prog (ret (map_err UnexpectedCryptoError (sha256_chain ffi [buf]))) (\<lambda>root_hash.
       bind_prog (ret (map_err UnexpectedCryptoError
         (build_fsverity_formatted_digest ffi root_hash file_size))) (\<lambda>formatted_digest.
       bind_prog (ret (map_err Io (verify sig formatted_digest))) (\<lambda>valid.
       if valid then ret (Ok \<lparr>vr_file_size = file_size, vr_root_hash = root_hash\<rparr>)
       else ret (Err BadSignature)))))"

definition verified_read_chunk ::
  "bool \<Rightarrow> 's read_chunk_fn \<Rightarrow> 's read_chunk_fn \<Rightarrow> 'c sha256_ffi \<Rightarrow> VerifiedFileReader \<Rightarrow> 's read_chunk_fn" where
  "verified_read_chunk dbg rd_file rd_tree ffi r chunk_index buf =
     bind_prog (rd_file chunk_index buf) (\<lambda>(n, buf').
     bind_prog (ret (slice_range buf' 0 n)) (\<lambda>chunk.
     bind_prog (map_err_prog (\<lambda>_. OsError EIO)
       (verity_check dbg rd_tree ffi chunk chunk_index (vr_file_size r))) (\<lambda>root_hash.
     if root_hash \<noteq> vr_root_hash r then ret (Err (OsError EIO)) else ret (Ok (n, buf')))))"

text \<open>What both readers keep, the verified reader keeps.\<close>

lemma verified_read_chunk_state:
  assumes f: "\<And>i buf t. P t \<Longrightarrow> P (snd (rd_file i buf t))"
    and t: "\<And>i buf t. P t \<Longrightarrow> P (snd (rd_tree i buf t))" and s: "P s"
  shows "P (snd (verified_read_chunk dbg rd_file rd_tree ffi r i buf s))"
proof -
  have step: "P u \<Longrightarrow> P (snd (verity_step rd_tree ffi a x u))" for a x u
    by (cases x) (auto simp: verity_step_def intro!: bind_prog_state [where P = P] t)
  have check: "P u \<Longrightarrow> P (snd (verity_check dbg rd_tree ffi chunk i n u))" for chunk n u
    by (auto simp: verity_check_def intro!: bind_prog_state [where P = P] fold_prog_state [where P = P] step)
  show ?thesis
    using s by (auto simp: verified_read_chunk_def intro!: bind_prog_state [where P = P] f check)
qed

section \<open>The layers of the tree\<close>

text \<open>\<open>layer H c x\<close> is the content hashed \<open>x\<close> times; the pages of the layers \<open>1, 2, \<dots>\<close> are
  the nodes of the tree.\<close>

definition layer :: "(bytes \<Rightarrow> Sha256Hash) \<Rightarrow> bytes \<Rightarrow> nat \<Rightarrow> bytes" where
  "layer H c x = (hash_layer H ^^ x) c"

definition verity_root :: "(bytes \<Rightarrow> Sha256Hash) \<Rightarrow> bytes \<Rightarrow> Sha256Hash" where
  "verity_root H c = merkle_root H (hash_layer H c)"

lemma layer_0 [simp]: "layer H c 0 = c"
  by (simp add: layer_def)

lemma layer_Suc: "layer H c (Suc x) = hash_layer H (layer H c x)"
  by (simp add: layer_def)

lemma num_chunks_layer:
  assumes "sha256_lib ffi H"
  shows "num_chunks (layer H c x) = ceil_div (length c) (CHUNK_SIZE * 128 ^ x)"
proof (induction x)
  case 0
  then show ?case by (simp add: num_chunks_def)
next
  case (Suc x)
  then show ?case
    using assms by (simp add: layer_Suc num_chunks_hash_layer ceil_div_ceil_div ac_simps)
qed

lemma index_in_layer:
  assumes "sha256_lib ffi H" and "i < num_chunks c"
  shows "i div 128 ^ x < num_chunks (layer H c x)"
proof -
  have "CHUNK_SIZE * (128 ^ x * (i div 128 ^ x)) \<le> CHUNK_SIZE * i"
    by (intro mult_le_mono2 times_div_less_eq_dividend)
  also have "\<dots> < length c"
    using assms(2) by (simp add: num_chunks_def less_ceil_div_iff)
  finally show ?thesis
    by (simp add: num_chunks_layer [OF assms(1)] less_ceil_div_iff mult.assoc)
qed

text \<open>The node above a page holds the hash of the page.\<close>

lemma slice_page:
  assumes "k + m \<le> CHUNK_SIZE" and "CHUNK_SIZE * i + k + m \<le> length c"
  shows "take m (drop k (page c i)) = take m (drop (CHUNK_SIZE * i + k) c)"
  by (rule nth_equalityI) (use assms in \<open>auto simp: nth_page byte_at_nth add.assoc\<close>)

lemma hash_offset_split: "j * HASH_SIZE = CHUNK_SIZE * (j div 128) + j mod 128 * HASH_SIZE"
  using mult_div_mod_eq [of 128 j] unfolding CHUNK_SIZE_def HASH_SIZE_def by linarith

lemma hash_offset_less: "j mod 128 * HASH_SIZE + HASH_SIZE \<le> CHUNK_SIZE"
  using mod_less_divisor [of 128 j] by (simp add: CHUNK_SIZE_def HASH_SIZE_def)

lemma hash_in_node:
  assumes H: "sha256_lib ffi H" and j: "j < num_chunks c"
  shows "take HASH_SIZE (drop (j mod 128 * HASH_SIZE) (page (hash_layer H c) (j div 128))) = H (page c j)"
proof -
  have split: "CHUNK_SIZE * (j div 128) + j mod 128 * HASH_SIZE = HASH_SIZE * j"
    using hash_offset_split [of j] by (simp add: mult.commute)
  note hash_offset_less [of j]
  moreover have "HASH_SIZE * Suc j \<le> HASH_SIZE * num_chunks c"
    using j by (intro mult_le_mono2) simp
  then have "HASH_SIZE * j + HASH_SIZE \<le> length (hash_layer H c)"
    by (simp add: length_hash_layer [OF H])
  ultimately have "take HASH_SIZE (drop (j mod 128 * HASH_SIZE) (page (hash_layer H c) (j div 128))) =
      take HASH_SIZE (drop (HASH_SIZE * j) (hash_layer H c))"
    by (subst slice_page) (simp_all add: split)
  with slice_hash_layer [OF H j] show ?thesis by simp
qed

section \<open>The walk\<close>

text \<open>The number of nodes of a level, and the path of a chunk: at level \<open>x\<close> the node with the
  hash of the page \<open>i div 128 ^ x\<close>, after all the nodes of the levels above.\<close>

definition nodes_at :: "nat \<Rightarrow> nat \<Rightarrow> nat" where
  "nodes_at n x = ceil_div n (CHUNK_SIZE * 128 ^ Suc x)"

definition walk_node :: "nat \<Rightarrow> nat \<Rightarrow> nat \<Rightarrow> nat" where
  "walk_node n i x = sum (nodes_at n) {Suc x..<Suc (tree_height n)} + i div 128 ^ Suc x"

definition walk_plan :: "nat \<Rightarrow> nat \<Rightarrow> (nat \<times> nat) list" where
  "walk_plan n i =
     map (\<lambda>x. (walk_node n i x, i div 128 ^ x mod 128 * HASH_SIZE)) [0..<Suc (tree_height n)]"

lemma tree_height_le_6: "0 < n \<Longrightarrow> n \<le> 2 ^ 61 \<Longrightarrow> tree_height n \<le> 6"
  by (simp add: tree_height_le_iff CHUNK_SIZE_def)

lemma nodes_at_bound:
  assumes "n \<le> 2 ^ 61"
  shows "nodes_at n x * CHUNK_SIZE \<le> 2 ^ 54"
proof -
  have "nodes_at n x \<le> 2 ^ 42"
    unfolding nodes_at_def
  proof (subst ceil_div_le_iff)
    have "(2::nat) ^ 61 \<le> CHUNK_SIZE * 128 ^ Suc 0 * 2 ^ 42" by (simp add: CHUNK_SIZE_def)
    also have "\<dots> \<le> CHUNK_SIZE * 128 ^ Suc x * 2 ^ 42"
      by (intro mult_le_mono1 mult_le_mono2 power_increasing) auto
    finally show "n \<le> CHUNK_SIZE * 128 ^ Suc x * 2 ^ 42" using assms by linarith
  qed simp
  then have "nodes_at n x * CHUNK_SIZE \<le> 2 ^ 42 * CHUNK_SIZE" by (rule mult_le_mono1)
  also have "\<dots> = 2 ^ 54" by (simp add: CHUNK_SIZE_def)
  finally show ?thesis .
qed

lemma walk_index_bound: "i < ceil_div n CHUNK_SIZE \<Longrightarrow> n \<le> 2 ^ 61 \<Longrightarrow> i div 128 ^ x * HASH_SIZE \<le> 2 ^ 54"
proof -
  assume "i < ceil_div n CHUNK_SIZE" and "n \<le> 2 ^ 61"
  then have "CHUNK_SIZE * i < 2 ^ 61" by (simp add: less_ceil_div_iff)
  then have "i \<le> 2 ^ 49" by (simp add: CHUNK_SIZE_def)
  with div_le_dividend [of i "128 ^ x"] have "i div 128 ^ x \<le> 2 ^ 49" by linarith
  then show ?thesis by (simp add: HASH_SIZE_def)
qed

lemma walk_level_Ok:
  assumes "x \<le> 6" and "n \<le> 2 ^ 61" and "i < ceil_div n CHUNK_SIZE"
  shows "walk_level i n x = Ok (nodes_at n x * CHUNK_SIZE, i div 128 ^ x * HASH_SIZE)"
proof -
  have p: "(128::nat) ^ x \<le> 2 ^ 42"
    using power_increasing [of x 6 "128::nat"] assms(1) by simp
  then have "CHUNK_SIZE * 128 ^ x \<le> CHUNK_SIZE * 2 ^ 42" by (rule mult_le_mono2)
  then have a: "CHUNK_SIZE * 128 ^ x \<le> 2 ^ 54" by (simp add: CHUNK_SIZE_def)
  then have b: "CHUNK_SIZE * 128 ^ x * 128 \<le> 2 ^ 61" by simp
  have mul: "u64_mul a b = Ok (a * b)" if "a * b \<le> 2 ^ 61" for a b
    using that by (simp add: u64_limit_def)
  have pw: "u64_pow 128 x = Ok (128 ^ x)" using p by (simp add: u64_limit_def)
  have rd: "divide_roundup n (CHUNK_SIZE * 128 ^ x * 128) = Ok (nodes_at n x)"
    using b assms(2) by (simp add: divide_roundup_ceil u64_limit_def nodes_at_def ac_simps)
  have dv: "u64_div CHUNK_SIZE HASH_SIZE = (Ok 128 :: (nat, FsverityError) outcome)"
    by (simp add: hashes_per_node)
  have nb: "nodes_at n x * CHUNK_SIZE \<le> 2 ^ 61" "i div 128 ^ x * HASH_SIZE \<le> 2 ^ 61"
    using nodes_at_bound [OF assms(2), of x] walk_index_bound [OF assms(3,2), of x] by simp_all
  have a': "CHUNK_SIZE * 128 ^ x \<le> 2 ^ 61" using a by simp
  have "u64_div i (128 ^ x) = (Ok (i div 128 ^ x) :: (nat, FsverityError) outcome)" by simp
  then show ?thesis
    by (simp only: walk_level_def dv pw rd mul [OF a'] mul [OF b] mul [OF nb(1)] mul [OF nb(2)]
        and_then.simps)
qed

text \<open>The scan adds up the sizes of the levels above.\<close>

lemma walk_scan_levels:
  assumes "\<And>x. x < k \<Longrightarrow> ls x \<le> b" and "\<And>x. x < k \<Longrightarrow> os x \<le> b" and "lo + Suc k * b < u64_limit"
  shows "walk_scan lo (map (\<lambda>x. (ls x, os x)) (rev [0..<k])) =
         Ok (map (\<lambda>x. lo + sum ls {Suc x..<k} + os x) (rev [0..<k]))"
  using assms
proof (induction k arbitrary: lo)
  case 0
  then show ?case by simp
next
  case (Suc k)
  have fit: "lo + ls k + Suc k * b < u64_limit" "lo + os k < u64_limit"
    using Suc.prems(1) [of k] Suc.prems(2) [of k] Suc.prems(3) by auto
  have "walk_scan (lo + ls k) (map (\<lambda>x. (ls x, os x)) (rev [0..<k])) =
      Ok (map (\<lambda>x. lo + ls k + sum ls {Suc x..<k} + os x) (rev [0..<k]))"
    using Suc.prems(1,2) by (intro Suc.IH fit(1)) auto
  moreover have "lo + ls k + sum ls {Suc x..<k} = lo + sum ls {Suc x..<Suc k}" if "x < k" for x
    using that by simp
  ultimately show ?case using fit by simp
qed

lemma walk_steps_plan:
  assumes n: "0 < n" "n \<le> 2 ^ 61" and i: "i < ceil_div n CHUNK_SIZE"
  shows "walk_steps dbg i n = Ok (walk_plan n i)"
proof -
  let ?h = "tree_height n" and ?ls = "\<lambda>x. nodes_at n x * CHUNK_SIZE" and ?os = "\<lambda>x. i div 128 ^ x * HASH_SIZE"
  have h: "?h \<le> 6" by (rule tree_height_le_6 [OF n])
  have height: "merkle_tree_height n = (Ok (Some ?h) :: (nat option, FsverityError) outcome)"
    using n by (intro merkle_tree_height_Some) (simp_all add: CHUNK_SIZE_def u64_limit_def)
  have levels: "try_map (walk_level i n) (rev [0..<Suc ?h]) = Ok (map (\<lambda>x. (?ls x, ?os x)) (rev [0..<Suc ?h]))"
    by (rule try_map_Ok) (use h n(2) i in \<open>auto intro!: walk_level_Ok\<close>)
  have "0 + Suc (Suc ?h) * 2 ^ 54 < u64_limit" using h by (simp add: u64_limit_def)
  then have scan: "walk_scan 0 (map (\<lambda>x. (?ls x, ?os x)) (rev [0..<Suc ?h])) =
      Ok (map (\<lambda>x. 0 + sum ?ls {Suc x..<Suc ?h} + ?os x) (rev [0..<Suc ?h]))"
    using nodes_at_bound [OF n(2)] walk_index_bound [OF i n(2)] by (intro walk_scan_levels [where b = "2 ^ 54"])
  have split: "(sum ?ls {Suc x..<Suc ?h} + ?os x) div CHUNK_SIZE = walk_node n i x \<and>
      (sum ?ls {Suc x..<Suc ?h} + ?os x) mod CHUNK_SIZE = i div 128 ^ x mod 128 * HASH_SIZE" for x
  proof -
    let ?j = "i div 128 ^ x"
    have "?os x = CHUNK_SIZE * (?j div 128) + ?j mod 128 * HASH_SIZE"
      by (rule hash_offset_split)
    moreover have "?j div 128 = i div 128 ^ Suc x" by (simp add: power_Suc2 div_mult2_eq del: power_Suc)
    ultimately have "sum ?ls {Suc x..<Suc ?h} + ?os x =
        CHUNK_SIZE * walk_node n i x + ?j mod 128 * HASH_SIZE"
      by (simp add: walk_node_def sum_distrib_left algebra_simps del: sum.op_ivl_Suc)
    moreover have "?j mod 128 * HASH_SIZE < CHUNK_SIZE"
      using hash_offset_less [of ?j] HASH_SIZE_pos by linarith
    ultimately show ?thesis by simp
  qed
  show ?thesis
    unfolding walk_steps_def walk_plan_def
    by (simp add: height levels scan split hashes_per_node rev_map del: upt_Suc sum.op_ivl_Suc)
qed

section \<open>Soundness\<close>

text \<open>The genuine blocks of a file: the pages of its content and of the layers above.\<close>

definition verity_pages :: "(bytes \<Rightarrow> Sha256Hash) \<Rightarrow> bytes \<Rightarrow> bytes set" where
  "verity_pages H c = {page (layer H c x) i | x i. True}"

lemma hash_with_padding_hash:
  assumes "sha256_lib ffi H" and "length b \<le> CHUNK_SIZE"
  shows "hash_with_padding ffi b CHUNK_SIZE = Ok (H (resize_bytes CHUNK_SIZE b))"
  using assms by (simp add: hash_with_padding_def sha256_chain_hash resize_bytes_def vec_resize_def
      zeros_def)

lemma resize_bytes_same: "length b = n \<Longrightarrow> resize_bytes n b = b"
  by (auto simp: resize_bytes_def)

text \<open>The root of the walk is the hash of the only page of the last layer.\<close>

lemma num_chunks_top_layer:
  assumes "sha256_lib ffi H" and "c \<noteq> []"
  shows "num_chunks (layer H c (Suc (tree_height (length c)))) = 1"
proof -
  let ?h = "tree_height (length c)"
  have "num_chunks (layer H c (Suc ?h)) \<le> 1"
    using assms tree_height_le_iff [of "length c" ?h]
    by (simp add: num_chunks_layer ceil_div_le_iff)
  moreover have "num_chunks (layer H c (Suc ?h)) \<noteq> 0"
    using assms by (simp add: num_chunks_layer del: num_chunks_eq_0_iff)
  ultimately show ?thesis by linarith
qed

lemma merkle_root_layers:
  assumes H: "sha256_lib ffi H"
  shows "num_chunks (layer H d x) = 1 \<Longrightarrow> (\<And>y. y < x \<Longrightarrow> 1 < num_chunks (layer H d y)) \<Longrightarrow>
    merkle_root H d = H (page (layer H d x) 0)"
proof (induction x arbitrary: d)
  case 0
  then have "d \<noteq> []" by auto
  with 0 show ?case
    using num_chunks_le_1_iff [of d] by (simp add: merkle_root_single)
next
  case (Suc x)
  have shift: "layer H d (Suc y) = layer H (hash_layer H d) y" for y
    by (simp add: layer_def funpow_swap1)
  have "1 < num_chunks d" using Suc.prems(2) [of 0] by simp
  then have "CHUNK_SIZE < length d" using num_chunks_le_1_iff [of d] by linarith
  then have "merkle_root H d = merkle_root H (hash_layer H d)" by (rule merkle_root_layer [OF H])
  also have "\<dots> = H (page (layer H (hash_layer H d) x) 0)"
    using Suc.prems(1) Suc.prems(2) [of "Suc _"] by (intro Suc.IH) (simp_all flip: shift)
  finally show ?case by (simp add: shift)
qed

lemma verity_root_top:
  assumes H: "sha256_lib ffi H" and c: "c \<noteq> []"
  shows "verity_root H c = H (page (layer H c (Suc (tree_height (length c)))) 0)"
proof -
  let ?h = "tree_height (length c)"
  have shift: "layer H c (Suc y) = layer H (hash_layer H c) y" for y
    by (simp add: layer_def funpow_swap1)
  have low: "1 < num_chunks (layer H c (Suc y))" if "y < ?h" for y
    using that tree_height_le_iff [of "length c" y] c
    by (simp add: num_chunks_layer [OF H] less_ceil_div_iff)
  show ?thesis
    unfolding verity_root_def shift
    by (rule merkle_root_layers [OF H]) (use num_chunks_top_layer [OF H c] low in \<open>simp_all add: shift\<close>)
qed

text \<open>The signed bytes: magic, algorithm and size in little-endian, digest.\<close>

definition formatted_digest :: "(bytes \<Rightarrow> Sha256Hash) \<Rightarrow> Sha256Hash \<Rightarrow> nat \<Rightarrow> bytes" where
  "formatted_digest H root n = FS_VERITY_MAGIC @ [1, 0, 32, 0] @ H (fsverity_descriptor root n)"

lemma build_fsverity_formatted_digest_hash:
  assumes H: "sha256_lib ffi H"
  shows "build_fsverity_formatted_digest ffi root n = Ok (formatted_digest H root n)"
proof -
  have le: "to_le_bytes 2 (unat FS_VERITY_HASH_ALG_SHA256) = [1, 0]" "to_le_bytes 2 HASH_SIZE = [32, 0]"
    by (simp_all add: to_le_bytes_def FS_VERITY_HASH_ALG_SHA256_def HASH_SIZE_def upt_rec)
  have len: "length FS_VERITY_MAGIC = 8" "length (H (fsverity_descriptor root n)) = 32"
    using length_hash [OF H] by (simp_all add: FS_VERITY_MAGIC_def HASH_SIZE_def)
  show ?thesis
    using len by (simp add: build_fsverity_formatted_digest_def build_fsverity_digest_hash [OF H] le
        le(2) [unfolded HASH_SIZE_def] copy_into_def formatted_digest_def HASH_SIZE_def)
qed

lemma verity_step_Ok_iff:
  "verity_step rd ffi a (ti, k) s = (Ok h, s') \<longleftrightarrow>
     (\<exists>n b. rd ti (zeros CHUNK_SIZE) s = (Ok (n, b), s') \<and> k + HASH_SIZE < u64_limit \<and>
            k + HASH_SIZE \<le> length b \<and> a = take HASH_SIZE (drop k b) \<and>
            hash_with_padding ffi b CHUNK_SIZE = Ok h)"
  by (auto simp: verity_step_def bind_prog_Ok_iff map_err_prog_Ok_iff slice_range_def u64_add_def
      split: if_splits)

context prefix_reader
begin

text \<open>
  A walk from level \<open>x\<close> on that ends in the genuine root started from the hash of the
  genuine page of that level.
\<close>

lemma verity_fold_sound:
  assumes H: "sha256_lib ffi H" and i: "i < num_chunks c"
    and nf: "\<not> forges H (served_blocks read_chunk) (verity_pages H c)"
  shows "x \<le> Suc (tree_height (length c)) \<Longrightarrow>
    fold_prog (verity_step read_chunk ffi) a
      (map (\<lambda>y. (walk_node (length c) i y, i div 128 ^ y mod 128 * HASH_SIZE))
        [x..<Suc (tree_height (length c))]) s = (Ok (verity_root H c), s') \<Longrightarrow>
    a = H (page (layer H c x) (i div 128 ^ x))"
proof (induction "Suc (tree_height (length c)) - x" arbitrary: x a s)
  case 0
  have c: "c \<noteq> []" using i by auto
  have "x = Suc (tree_height (length c))" using 0 by simp
  moreover have "i div 128 ^ Suc (tree_height (length c)) = 0"
    using index_in_layer [OF H i, of "Suc (tree_height (length c))"] num_chunks_top_layer [OF H c] by simp
  ultimately show ?case
    using 0 verity_root_top [OF H c] by (simp del: upt_Suc)
next
  case (Suc k)
  let ?h = "tree_height (length c)" and ?j = "i div 128 ^ x"
  have "[x..<Suc ?h] = x # [Suc x..<Suc ?h]" using Suc.hyps(2) by (intro upt_conv_Cons) simp
  with Suc.prems(2) obtain h1 s1 where
    step: "verity_step read_chunk ffi a (walk_node (length c) i x, ?j mod 128 * HASH_SIZE) s = (Ok h1, s1)"
    and rest: "fold_prog (verity_step read_chunk ffi) h1
      (map (\<lambda>y. (walk_node (length c) i y, i div 128 ^ y mod 128 * HASH_SIZE)) [Suc x..<Suc ?h]) s1 =
      (Ok (verity_root H c), s')"
    by (auto simp: bind_prog_Ok_iff simp del: upt_Suc)
  then obtain n b where
    b: "read_chunk (walk_node (length c) i x) (zeros CHUNK_SIZE) s = (Ok (n, b), s1)"
      "a = take HASH_SIZE (drop (?j mod 128 * HASH_SIZE) b)"
      "hash_with_padding ffi b CHUNK_SIZE = Ok h1"
    by (auto simp: verity_step_Ok_iff)
  have len: "length b = CHUNK_SIZE" using length_read [OF b(1)] by simp
  then have "h1 = H b"
    using b(3) by (simp add: hash_with_padding_hash [OF H] resize_bytes_same)
  with Suc.hyps(1) [OF _ _ rest] Suc.hyps(2)
  have "H b = H (page (layer H c (Suc x)) (i div 128 ^ Suc x))" by simp
  moreover have "b \<in> served_blocks read_chunk" using b(1) by (auto simp: served_blocks_def)
  moreover have "page (layer H c (Suc x)) (i div 128 ^ Suc x) \<in> verity_pages H c"
    by (auto simp: verity_pages_def)
  ultimately have "b = page (layer H c (Suc x)) (i div 128 ^ Suc x)"
    using not_forgesD [OF nf] by blast
  then show ?case
    using b(2) hash_in_node [OF H index_in_layer [OF H i]]
    by (simp add: layer_Suc power_Suc2 div_mult2_eq del: power_Suc)
qed

lemma verity_check_sound:
  assumes H: "sha256_lib ffi H" and i: "i < num_chunks c" and n: "length c \<le> 2 ^ 61"
    and nf: "\<not> forges H (insert (resize_bytes CHUNK_SIZE chunk) (served_blocks read_chunk)) (verity_pages H c)"
    and res: "verity_check dbg read_chunk ffi chunk i (length c) s = (Ok (verity_root H c), s')"
  shows "length chunk \<le> CHUNK_SIZE \<and> resize_bytes CHUNK_SIZE chunk = page c i"
proof -
  have c: "0 < length c" using i by (cases c) auto
  have steps: "walk_steps dbg i (length c) = Ok (walk_plan (length c) i)"
    by (rule walk_steps_plan [OF c n]) (use i in \<open>simp add: num_chunks_def\<close>)
  have nf_tree: "\<not> forges H (served_blocks read_chunk) (verity_pages H c)"
    using nf forges_mono by blast
  have len: "length chunk \<le> CHUNK_SIZE"
    using res by (auto simp: verity_check_def bind_prog_Ok_iff hash_with_padding_def and_then_Ok_iff u64_sub_def
        split: if_splits)
  then have "fold_prog (verity_step read_chunk ffi) (H (resize_bytes CHUNK_SIZE chunk)) (walk_plan (length c) i) s =
      (Ok (verity_root H c), s')"
    using res c by (simp add: verity_check_def steps hash_with_padding_hash [OF H])
  from verity_fold_sound [OF H i nf_tree, of 0, unfolded layer_0, OF _ this [unfolded walk_plan_def]]
  have "H (resize_bytes CHUNK_SIZE chunk) = H (page c i)" by simp
  moreover have "page c i \<in> verity_pages H c"
    unfolding verity_pages_def by (metis (mono_tags, lifting) layer_0 mem_Collect_eq)
  ultimately show ?thesis using not_forgesD [OF nf] len by blast
qed

text \<open>What a verified reader returns is genuine: padded with zeros it is the page of the file.\<close>

lemma verified_read_chunk_sound:
  assumes H: "sha256_lib ffi H" and i: "i < num_chunks c" and n: "length c \<le> 2 ^ 61"
    and r: "vr_file_size r = length c" "vr_root_hash r = verity_root H c"
    and nf: "\<not> forges H (served_chunks rd_file \<union> served_blocks read_chunk) (verity_pages H c)"
    and res: "verified_read_chunk dbg rd_file read_chunk ffi r i buf s = (Ok (k, buf'), s')"
  shows "k \<le> CHUNK_SIZE \<and> k \<le> length buf' \<and> resize_bytes CHUNK_SIZE (take k buf') = page c i"
proof -
  from res r obtain s1 where f: "rd_file i buf s = (Ok (k, buf'), s1)" "k \<le> length buf'"
    and v: "verity_check dbg read_chunk ffi (take k buf') i (length c) s1 = (Ok (verity_root H c), s')"
    by (auto simp: verified_read_chunk_def bind_prog_Ok_iff map_err_prog_Ok_iff slice_range_def
        split: if_splits)
  have "resize_bytes CHUNK_SIZE (take k buf') \<in> served_chunks rd_file"
    using f(1) unfolding served_chunks_def by blast
  then have "insert (resize_bytes CHUNK_SIZE (take k buf')) (served_blocks read_chunk) \<subseteq>
      served_chunks rd_file \<union> served_blocks read_chunk"
    by simp
  with nf forges_mono have "\<not> forges H (insert (resize_bytes CHUNK_SIZE (take k buf')) (served_blocks read_chunk))
      (verity_pages H c)"
    by blast
  from verity_check_sound [OF H i n this v] f(2) show ?thesis by simp
qed

text \<open>
  A reader exists only for a signature the authenticator accepts. If that is the signature
  of one file, the reader has the size and the root of that file.
\<close>

lemma VerifiedFileReader_new_sound:
  assumes H: "sha256_lib ffi H"
    and signed: "\<And>d. verify sig d = Ok True \<Longrightarrow>
      build_fsverity_formatted_digest ffi (verity_root H c) (length c) = Ok d"
    and fs: "file_size < u64_limit" "length c < u64_limit"
    and nf: "\<not> forges H ((\<lambda>b. fsverity_descriptor (H b) file_size) ` served_blocks read_chunk)
      {fsverity_descriptor (verity_root H c) (length c)}"
    and res: "VerifiedFileReader_new verify read_chunk ffi file_size sig s = (Ok r, s')"
  shows "vr_file_size r = length c \<and> vr_root_hash r = verity_root H c"
proof -
  from res obtain n b s1 where b: "read_chunk 0 (zeros CHUNK_SIZE) s = (Ok (n, b), s1)"
    and v: "verify sig (formatted_digest H (H b) file_size) = Ok True"
    and r: "r = \<lparr>vr_file_size = file_size, vr_root_hash = H b\<rparr>"
    by (auto simp: VerifiedFileReader_new_def bind_prog_Ok_iff map_err_prog_Ok_iff
        sha256_chain_hash [OF H] build_fsverity_formatted_digest_hash [OF H] split: if_splits)
  have "H (fsverity_descriptor (H b) file_size) = H (fsverity_descriptor (verity_root H c) (length c))"
    using signed [OF v] length_hash [OF H]
    by (simp add: build_fsverity_formatted_digest_hash [OF H] formatted_digest_def)
  moreover have "b \<in> served_blocks read_chunk"
    using b by (auto simp: served_blocks_def)
  ultimately have "fsverity_descriptor (H b) file_size = fsverity_descriptor (verity_root H c) (length c)"
    using not_forgesD [OF nf] by blast
  then have "H b = verity_root H c \<and> file_size = length c"
    by (rule fsverity_descriptor_inj)
       (use fs H in \<open>simp_all add: length_hash [OF H] length_merkle_root [OF H] verity_root_def\<close>)
  with r show ?thesis by simp
qed

end

section \<open>Completeness\<close>

text \<open>The bytes of the Merkle tree as fs-verity stores it: the nodes of each level, padded to
  full pages, from the root level down to the level of the leaves.\<close>

definition level_pages :: "(bytes \<Rightarrow> Sha256Hash) \<Rightarrow> bytes \<Rightarrow> nat \<Rightarrow> bytes list" where
  "level_pages H c x = map (page (layer H c (Suc x))) [0..<num_chunks (layer H c (Suc x))]"

definition tree_pages :: "(bytes \<Rightarrow> Sha256Hash) \<Rightarrow> bytes \<Rightarrow> bytes list" where
  "tree_pages H c = concat (map (level_pages H c) (rev [0..<Suc (tree_height (length c))]))"

definition tree_bytes :: "(bytes \<Rightarrow> Sha256Hash) \<Rightarrow> bytes \<Rightarrow> bytes" where
  "tree_bytes H c = concat (tree_pages H c)"

lemma nth_concat_levels:
  "x < k \<Longrightarrow> j < length (f x) \<Longrightarrow> p = (\<Sum>y = Suc x..<k. length (f y)) + j \<Longrightarrow>
   p < length (concat (map f (rev [0..<k]))) \<and> concat (map f (rev [0..<k])) ! p = f x ! j"
proof (induction k arbitrary: p)
  case 0
  then show ?case by simp
next
  case (Suc k)
  show ?case
  proof (cases "x = k")
    case True
    with Suc.prems show ?thesis by (simp add: nth_append)
  next
    case False
    define q where "q = (\<Sum>y = Suc x..<k. length (f y)) + j"
    have p: "p = length (f k) + q" using Suc.prems(1,3) False by (simp add: q_def)
    from Suc.IH [OF _ Suc.prems(2) q_def] Suc.prems(1) False
    have "q < length (concat (map f (rev [0..<k])))" "concat (map f (rev [0..<k])) ! q = f x ! j"
      by auto
    with p show ?thesis by (simp add: nth_append)
  qed
qed

lemma length_level_pages: "sha256_lib ffi H \<Longrightarrow> length (level_pages H c x) = nodes_at (length c) x"
  by (simp add: level_pages_def num_chunks_layer nodes_at_def)

lemma tree_page:
  assumes H: "sha256_lib ffi H" and i: "i < num_chunks c" and x: "x \<le> tree_height (length c)"
  shows "walk_node (length c) i x < length (tree_pages H c)"
    and "tree_pages H c ! walk_node (length c) i x = page (layer H c (Suc x)) (i div 128 ^ Suc x)"
proof -
  have j: "i div 128 ^ Suc x < length (level_pages H c x)"
    using index_in_layer [OF H i, of "Suc x"] by (simp add: level_pages_def)
  have "walk_node (length c) i x =
      (\<Sum>y = Suc x..<Suc (tree_height (length c)). length (level_pages H c y)) + i div 128 ^ Suc x"
    by (simp add: walk_node_def length_level_pages [OF H] del: sum.op_ivl_Suc)
  moreover have "level_pages H c x ! (i div 128 ^ Suc x) = page (layer H c (Suc x)) (i div 128 ^ Suc x)"
    using j by (simp add: level_pages_def)
  ultimately show "walk_node (length c) i x < length (tree_pages H c)"
    and "tree_pages H c ! walk_node (length c) i x = page (layer H c (Suc x)) (i div 128 ^ Suc x)"
    using nth_concat_levels [of x "Suc (tree_height (length c))" "i div 128 ^ Suc x" "level_pages H c"] x j
    by (simp_all add: tree_pages_def del: upt_Suc power_Suc sum.op_ivl_Suc)
qed

lemma length_tree_page: "b \<in> set (tree_pages H c) \<Longrightarrow> length b = CHUNK_SIZE"
  by (auto simp: tree_pages_def level_pages_def)

lemma length_tree_bytes: "length (tree_bytes H c) = CHUNK_SIZE * length (tree_pages H c)"
  unfolding tree_bytes_def by (rule length_concat_same) (rule length_tree_page)

lemma chunk_of_tree:
  assumes "p < length (tree_pages H c)"
  shows "CHUNK_SIZE * p < length (tree_bytes H c)"
    and "take CHUNK_SIZE (drop (CHUNK_SIZE * p) (tree_bytes H c)) = tree_pages H c ! p"
  using assms slice_concat_same [of "tree_pages H c" CHUNK_SIZE p] length_tree_page
  by (auto simp: length_tree_bytes tree_bytes_def [symmetric])

text \<open>The node at level \<open>x\<close> on the way from chunk \<open>i\<close> to the root is genuine in the stored tree \<open>t\<close>.\<close>

definition node_ok :: "(bytes \<Rightarrow> Sha256Hash) \<Rightarrow> bytes \<Rightarrow> bytes \<Rightarrow> nat \<Rightarrow> nat \<Rightarrow> bool" where
  "node_ok H c t i x \<longleftrightarrow>
     CHUNK_SIZE * walk_node (length c) i x < length t \<and>
     take CHUNK_SIZE (drop (CHUNK_SIZE * walk_node (length c) i x) t) = page (layer H c (Suc x)) (i div 128 ^ Suc x)"

lemma node_ok_tree_bytes:
  assumes "sha256_lib ffi H" and "i < num_chunks c" and "x \<le> tree_height (length c)"
  shows "node_ok H c (tree_bytes H c) i x"
  using chunk_of_tree [OF tree_page(1) [OF assms]] tree_page(2) [OF assms] by (simp add: node_ok_def)

text \<open>A file and its tree, read through one state.\<close>

locale verity_files =
  fl: chunk_reader rd_file file_content good + tr: chunk_reader rd_tree tree_content good
  for rd_file :: "'s read_chunk_fn" and file_content :: "'s \<Rightarrow> bytes" and good :: "'s \<Rightarrow> bool"
    and rd_tree :: "'s read_chunk_fn" and tree_content :: "'s \<Rightarrow> bytes" +
  assumes tree_kept: "good s \<Longrightarrow> rd_file i buf s = (r, s') \<Longrightarrow> tree_content s' = tree_content s"
    and file_kept: "good s \<Longrightarrow> rd_tree i buf s = (r, s') \<Longrightarrow> file_content s' = file_content s"
begin

lemma read_node_ok:
  assumes "good s" and "node_ok H c (tree_content s) i x" and "file_content s = c"
  shows "\<exists>s'. rd_tree (walk_node (length c) i x) (zeros CHUNK_SIZE) s =
      (Ok (CHUNK_SIZE, page (layer H c (Suc x)) (i div 128 ^ Suc x)), s') \<and>
      good s' \<and> tree_content s' = tree_content s \<and> file_content s' = c"
proof -
  let ?p = "walk_node (length c) i x" and ?b = "page (layer H c (Suc x)) (i div 128 ^ Suc x)"
  have n: "CHUNK_SIZE * ?p < length (tree_content s)" "?b = take CHUNK_SIZE (drop (CHUNK_SIZE * ?p) (tree_content s))"
    using assms(2) by (simp_all add: node_ok_def del: power_Suc)
  from tr.read_ok [OF assms(1) n(1) length_zeros n(2)] obtain s1 where
    s1: "rd_tree ?p (zeros CHUNK_SIZE) s = (Ok (CHUNK_SIZE, ?b), s1)" "good s1" "tree_content s1 = tree_content s"
    by auto
  with file_kept [OF assms(1) s1(1)] assms(3) show ?thesis by auto
qed

text \<open>A step of the walk over a page that can be read compares one hash and goes on with the hash of
  the page.\<close>

lemma verity_step_page:
  assumes H: "sha256_lib ffi H" and rd: "rd_tree p (zeros CHUNK_SIZE) s = (Ok (k, b), s')"
    and b: "length b = CHUNK_SIZE"
  shows "verity_step rd_tree ffi a (p, j mod 128 * HASH_SIZE) s =
    (if a = take HASH_SIZE (drop (j mod 128 * HASH_SIZE) b) then Ok (H b) else Err CannotVerify, s')"
proof -
  have "j mod 128 * HASH_SIZE + HASH_SIZE < u64_limit" "j mod 128 * HASH_SIZE + HASH_SIZE \<le> length b"
    using hash_offset_less [of j] b by (simp_all add: CHUNK_SIZE_def u64_limit_def)
  then show ?thesis
    using rd b by (simp add: verity_step_def map_err_prog_def bind_prog_def hash_with_padding_hash [OF H] resize_bytes_same)
qed

lemma verity_fold_complete:
  assumes H: "sha256_lib ffi H" and i: "i < num_chunks c"
    and t: "\<And>y. y \<le> tree_height (length c) \<Longrightarrow> node_ok H c t i y"
  shows "x \<le> Suc (tree_height (length c)) \<Longrightarrow> good s \<Longrightarrow> tree_content s = t \<Longrightarrow>
    file_content s = c \<Longrightarrow>
    \<exists>s'. fold_prog (verity_step rd_tree ffi) (H (page (layer H c x) (i div 128 ^ x)))
      (map (\<lambda>y. (walk_node (length c) i y, i div 128 ^ y mod 128 * HASH_SIZE))
        [x..<Suc (tree_height (length c))]) s = (Ok (verity_root H c), s') \<and>
      good s' \<and> tree_content s' = t \<and> file_content s' = c"
proof (induction "Suc (tree_height (length c)) - x" arbitrary: x s)
  case 0
  have c: "c \<noteq> []" using i by auto
  have x: "x = Suc (tree_height (length c))" using 0 by simp
  moreover have "i div 128 ^ x = 0"
    using index_in_layer [OF H i, of x] num_chunks_top_layer [OF H c] x by simp
  ultimately show ?case
    using 0 verity_root_top [OF H c] by (simp del: upt_Suc power_Suc)
next
  case (Suc k)
  let ?h = "tree_height (length c)" and ?j = "i div 128 ^ x" and ?p = "walk_node (length c) i x"
  let ?b = "page (layer H c (Suc x)) (i div 128 ^ Suc x)"
  have up: "[x..<Suc ?h] = x # [Suc x..<Suc ?h]" using Suc.hyps(2) by (intro upt_conv_Cons) simp
  have "x \<le> ?h" using Suc.hyps(2) by simp
  from read_node_ok [OF Suc.prems(2) t [OF this, folded Suc.prems(3)] Suc.prems(4)] obtain s1 where
    s1: "rd_tree ?p (zeros CHUNK_SIZE) s = (Ok (CHUNK_SIZE, ?b), s1)" "good s1" "tree_content s1 = t" "file_content s1 = c"
    using Suc.prems(3) by auto
  have "H (page (layer H c x) ?j) = take HASH_SIZE (drop (?j mod 128 * HASH_SIZE) ?b)"
    using hash_in_node [OF H index_in_layer [OF H i, of x]]
    by (simp add: layer_Suc power_Suc2 div_mult2_eq del: power_Suc)
  then have "verity_step rd_tree ffi (H (page (layer H c x) ?j)) (?p, ?j mod 128 * HASH_SIZE) s = (Ok (H ?b), s1)"
    by (simp add: verity_step_page [OF H s1(1)])
  moreover have "k = Suc ?h - Suc x" "Suc x \<le> Suc ?h" using Suc.hyps(2) by simp_all
  note Suc.hyps(1) [OF this s1(2-4)]
  ultimately show ?case by (simp add: up del: upt_Suc power_Suc)
qed

text \<open>A read gets its chunk and the walk's result; the state keeps both files.\<close>

lemma verified_read_chunk_walk:
  assumes H: "sha256_lib ffi H" and i: "i < num_chunks c" and n: "length c \<le> 2 ^ 61"
    and r: "vr_file_size r = length c" and s: "good s" "tree_content s = t" "file_content s = c"
    and buf: "length buf = CHUNK_SIZE" and d: "d = take CHUNK_SIZE (drop (CHUNK_SIZE * i) c)"
  shows "\<exists>s1. good s1 \<and> tree_content s1 = t \<and> file_content s1 = c \<and>
    verified_read_chunk dbg rd_file rd_tree ffi r i buf s =
      bind_prog (map_err_prog (\<lambda>_. OsError EIO)
        (fold_prog (verity_step rd_tree ffi) (H (page c i)) (walk_plan (length c) i))) (\<lambda>root_hash.
      if root_hash \<noteq> vr_root_hash r then ret (Err (OsError EIO)) else ret (Ok (length d, d @ drop (length d) buf))) s1"
proof -
  have c: "0 < length c" using i by (cases c) auto
  have "CHUNK_SIZE * i < length (file_content s)"
    using i s(3) by (simp add: num_chunks_def less_ceil_div_iff)
  from fl.read_ok [OF s(1) this buf d [folded s(3)]] obtain s1 where
    f: "rd_file i buf s = (Ok (length d, d @ drop (length d) buf), s1)" "good s1" "file_content s1 = c"
    using s(3) by auto
  have t1: "tree_content s1 = t" using tree_kept [OF s(1) f(1)] s(2) by simp
  have steps: "walk_steps dbg i (length c) = Ok (walk_plan (length c) i)"
    by (rule walk_steps_plan [OF c n]) (use i in \<open>simp add: num_chunks_def\<close>)
  have "length d \<le> CHUNK_SIZE" "resize_bytes CHUNK_SIZE d = page c i"
    by (simp_all add: d page_def)
  then have "verity_check dbg rd_tree ffi d i (length c) =
      fold_prog (verity_step rd_tree ffi) (H (page c i)) (walk_plan (length c) i)"
    using c by (simp add: verity_check_def steps hash_with_padding_hash [OF H])
  with f t1 r show ?thesis by (auto simp: verified_read_chunk_def)
qed

text \<open>The genuine chunk of a file passes the check if the nodes above it are genuine.\<close>

lemma verified_read_chunk_path:
  assumes H: "sha256_lib ffi H" and i: "i < num_chunks c" and n: "length c \<le> 2 ^ 61"
    and t: "\<And>y. y \<le> tree_height (length c) \<Longrightarrow> node_ok H c t i y"
    and r: "vr_file_size r = length c" "vr_root_hash r = verity_root H c"
    and s: "good s" "tree_content s = t" "file_content s = c"
    and buf: "length buf = CHUNK_SIZE" and d: "d = take CHUNK_SIZE (drop (CHUNK_SIZE * i) c)"
  shows "\<exists>s'. verified_read_chunk dbg rd_file rd_tree ffi r i buf s =
      (Ok (length d, d @ drop (length d) buf), s') \<and> good s' \<and> tree_content s' = t \<and> file_content s' = c"
proof -
  obtain s1 where s1: "good s1" "tree_content s1 = t" "file_content s1 = c"
    and v: "verified_read_chunk dbg rd_file rd_tree ffi r i buf s =
      bind_prog (map_err_prog (\<lambda>_. OsError EIO)
        (fold_prog (verity_step rd_tree ffi) (H (page c i)) (walk_plan (length c) i))) (\<lambda>root_hash.
      if root_hash \<noteq> vr_root_hash r then ret (Err (OsError EIO)) else ret (Ok (length d, d @ drop (length d) buf))) s1"
    using verified_read_chunk_walk [OF H i n r(1) s buf d] by blast
  from verity_fold_complete [OF H i t, of 0 s1] s1 obtain s2 where
    "fold_prog (verity_step rd_tree ffi) (H (page c i)) (walk_plan (length c) i) s1 = (Ok (verity_root H c), s2)"
    "good s2" "tree_content s2 = t" "file_content s2 = c"
    by (auto simp: walk_plan_def simp del: upt_Suc)
  with v r(2) show ?thesis by (simp add: map_err_prog_def bind_prog_def)
qed

lemma verified_read_chunk_complete:
  assumes H: "sha256_lib ffi H" and i: "i < num_chunks c" and n: "length c \<le> 2 ^ 61"
    and r: "vr_file_size r = length c" "vr_root_hash r = verity_root H c"
    and s: "good s" "tree_content s = tree_bytes H c" "file_content s = c"
    and buf: "length buf = CHUNK_SIZE" and d: "d = take CHUNK_SIZE (drop (CHUNK_SIZE * i) c)"
  shows "\<exists>s'. verified_read_chunk dbg rd_file rd_tree ffi r i buf s =
      (Ok (length d, d @ drop (length d) buf), s') \<and>
      good s' \<and> tree_content s' = tree_bytes H c \<and> file_content s' = c"
  by (rule verified_read_chunk_path [OF H i n node_ok_tree_bytes [OF H i] r s buf d])

text \<open>A damaged node of the lowest level fails the read of every chunk under it, if the node above it
  is genuine.\<close>

lemma verified_read_chunk_bad_leaf:
  assumes H: "sha256_lib ffi H" and i: "i < num_chunks c" and n: "length c \<le> 2 ^ 61"
    and up: "0 < tree_height (length c)" "node_ok H c t i 1"
    and b: "CHUNK_SIZE * walk_node (length c) i 0 < length t"
      "b = take CHUNK_SIZE (drop (CHUNK_SIZE * walk_node (length c) i 0) t)" "length b = CHUNK_SIZE"
      "H b \<noteq> H (page (layer H c 1) (i div 128))"
    and r: "vr_file_size r = length c" and s: "good s" "tree_content s = t" "file_content s = c"
    and buf: "length buf = CHUNK_SIZE"
  shows "\<exists>s'. verified_read_chunk dbg rd_file rd_tree ffi r i buf s = (Err (OsError EIO), s') \<and>
    good s' \<and> tree_content s' = t \<and> file_content s' = c"
proof -
  let ?d = "take CHUNK_SIZE (drop (CHUNK_SIZE * i) c)" and ?h = "tree_height (length c)"
  obtain s1 where s1: "good s1" "tree_content s1 = t" "file_content s1 = c"
    and v: "verified_read_chunk dbg rd_file rd_tree ffi r i buf s =
      bind_prog (map_err_prog (\<lambda>_. OsError EIO)
        (fold_prog (verity_step rd_tree ffi) (H (page c i)) (walk_plan (length c) i))) (\<lambda>root_hash.
      if root_hash \<noteq> vr_root_hash r then ret (Err (OsError EIO)) else ret (Ok (length ?d, ?d @ drop (length ?d) buf))) s1"
    using verified_read_chunk_walk [OF H i n r s buf refl] by blast
  obtain s2 where s2: "rd_tree (walk_node (length c) i 0) (zeros CHUNK_SIZE) s1 = (Ok (CHUNK_SIZE, b), s2)" "good s2"
      "tree_content s2 = t" "file_content s2 = c"
    using tr.read_ok [OF s1(1), of "walk_node (length c) i 0" "zeros CHUNK_SIZE" b] b s1 file_kept [OF s1(1)] by fastforce
  obtain s3 where s3: "rd_tree (walk_node (length c) i 1) (zeros CHUNK_SIZE) s2 =
      (Ok (CHUNK_SIZE, page (layer H c (Suc 1)) (i div 128 ^ Suc 1)), s3)" "good s3" "tree_content s3 = t" "file_content s3 = c"
    using read_node_ok [OF s2(2) up(2) [folded s2(3)] s2(4)] s2(3) by auto
  obtain ps where plan: "walk_plan (length c) i = (walk_node (length c) i 0, i mod 128 * HASH_SIZE) #
      (walk_node (length c) i 1, i div 128 mod 128 * HASH_SIZE) # ps"
    using up(1) upt_conv_Cons [of 0 "Suc ?h"] upt_conv_Cons [of 1 "Suc ?h"]
    by (simp add: walk_plan_def del: upt_Suc)
  have "take HASH_SIZE (drop (i div 128 mod 128 * HASH_SIZE) (page (layer H c (Suc 1)) (i div 128 ^ Suc 1))) =
      H (page (layer H c 1) (i div 128))"
    using hash_in_node [OF H index_in_layer [OF H i, of 1]] by (simp add: layer_Suc div_mult2_eq [symmetric])
  with b(4) have "verity_step rd_tree ffi (H b) (walk_node (length c) i 1, i div 128 mod 128 * HASH_SIZE) s2 =
      (Err CannotVerify, s3)"
    using verity_step_page [OF H s3(1) length_page, of "H b" "i div 128"] by simp
  with verity_step_page [OF H s2(1) b(3), of "H (page c i)" i] s2 s3
  have "\<exists>s'. fold_prog (verity_step rd_tree ffi) (H (page c i)) (walk_plan (length c) i) s1 =
      (Err CannotVerify, s') \<and> good s' \<and> tree_content s' = t \<and> file_content s' = c"
    unfolding plan by (cases "H (page c i) = take HASH_SIZE (drop (i mod 128 * HASH_SIZE) b)") (simp_all add: bind_prog_def)
  with v show ?thesis by (auto simp: map_err_prog_def bind_prog_def)
qed

text \<open>The first page of the tree is its top, so a signed file is accepted.\<close>

lemma VerifiedFileReader_new_top:
  assumes H: "sha256_lib ffi H" and c: "c \<noteq> []"
    and signed: "verify sig (formatted_digest H (verity_root H c) (length c)) = Ok True"
    and t: "node_ok H c t 0 (tree_height (length c))"
    and s: "good s" "tree_content s = t" "file_content s = c"
  shows "\<exists>s'. VerifiedFileReader_new verify rd_tree ffi (length c) sig s =
      (Ok \<lparr>vr_file_size = length c, vr_root_hash = verity_root H c\<rparr>, s') \<and>
      good s' \<and> tree_content s' = t \<and> file_content s' = c"
proof -
  let ?p = "page (layer H c (Suc (tree_height (length c)))) 0"
  have "walk_node (length c) 0 (tree_height (length c)) = 0" by (simp add: walk_node_def)
  with read_node_ok [OF s(1) t [folded s(2)] s(3)] s(2) obtain s1 where
    "rd_tree 0 (zeros CHUNK_SIZE) s = (Ok (CHUNK_SIZE, ?p), s1)" "good s1" "tree_content s1 = t" "file_content s1 = c"
    by auto
  with signed show ?thesis
    by (auto simp: VerifiedFileReader_new_def map_err_prog_def bind_prog_def sha256_chain_hash [OF H]
        build_fsverity_formatted_digest_hash [OF H] verity_root_top [OF H c])
qed

lemma VerifiedFileReader_new_complete:
  assumes H: "sha256_lib ffi H" and c: "c \<noteq> []"
    and signed: "verify sig (formatted_digest H (verity_root H c) (length c)) = Ok True"
    and s: "good s" "tree_content s = tree_bytes H c" "file_content s = c"
  shows "\<exists>s'. VerifiedFileReader_new verify rd_tree ffi (length c) sig s =
      (Ok \<lparr>vr_file_size = length c, vr_root_hash = verity_root H c\<rparr>, s') \<and>
      good s' \<and> tree_content s' = tree_bytes H c \<and> file_content s' = c"
  using node_ok_tree_bytes [OF H, of 0 c] c by (intro VerifiedFileReader_new_top [where verify = verify and sig = sig, OF H c signed _ s])
    (simp add: num_chunks_pos_iff)

end

lemma VerifiedFileReader_new_file_size:
  "VerifiedFileReader_new verify rd ffi n sig s = (Ok r, s') \<Longrightarrow> vr_file_size r = n"
  by (auto simp: VerifiedFileReader_new_def bind_prog_Ok_iff split: if_splits)

end
