(* ===== verification/OsFile.thy ===== *)
theory OsFile
  imports Prelude
begin

text \<open>
  \<open>std::fs::File\<close> as far as the sources use it: \<open>metadata().len()\<close>, \<open>read_exact_at\<close>,
  \<open>write_at\<close> and \<open>set_len\<close> on an open regular file.

  What the operating system decides (an I/O error, a write of fewer bytes than asked) is a
  schedule: every call takes one event from it, an empty schedule means that calls succeed
  in full. An offset that is negative as an \<open>off64_t\<close> is refused. Statements quantify over the schedules; \<open>benign\<close> is the class of schedules
  without errors and with progress in every short write.
\<close>

section \<open>Definitions\<close>

datatype sys_event = SysOk | SysShort nat | SysFail errno

record File =
  contents :: bytes
  schedule :: "sys_event list"

definition next_event :: "File \<Rightarrow> sys_event \<times> File" where
  "next_event f =
     (case schedule f of
        [] \<Rightarrow> (SysOk, f)
      | e # es \<Rightarrow> (e, f\<lparr>schedule := es\<rparr>))"

definition file_len :: "(File, nat, io_error) prog" where
  "file_len f =
     (case next_event f of
        (SysFail e, f') \<Rightarrow> (Err (OsError e), f')
      | (_, f') \<Rightarrow> (Ok (length (contents f)), f'))"

definition read_exact_at :: "nat \<Rightarrow> nat \<Rightarrow> (File, bytes, io_error) prog" where
  "read_exact_at n off f =
     (if n = 0 then (Ok [], f)
      else case next_event f of
        (SysFail e, f') \<Rightarrow> (Err (OsError e), f')
      | (_, f') \<Rightarrow>
          (if i64_max < off then Err (OsError EINVAL)
           else if off + n \<le> length (contents f) then Ok (take n (drop off (contents f)))
           else Err (KindError UnexpectedEof), f'))"

definition file_write_at :: "bytes \<Rightarrow> nat \<Rightarrow> (File, nat, io_error) prog" where
  "file_write_at buf off f =
     (if i64_max < off then (Err (OsError EINVAL), f)
      else case next_event f of
        (SysFail e, f') \<Rightarrow> (Err (OsError e), f')
      | (SysOk, f') \<Rightarrow> (Ok (length buf), f'\<lparr>contents := pwrite (contents f) off buf\<rparr>)
      | (SysShort k, f') \<Rightarrow>
          (Ok (min k (length buf)), f'\<lparr>contents := pwrite (contents f) off (take k buf)\<rparr>))"

definition set_len :: "nat \<Rightarrow> (File, unit, io_error) prog" where
  "set_len n f =
     (if i64_max < n then (Err (OsError EINVAL), f)
      else case next_event f of
        (SysFail e, f') \<Rightarrow> (Err (OsError e), f')
      | (_, f') \<Rightarrow> (Ok (), f'\<lparr>contents := resize_bytes n (contents f)\<rparr>))"

fun benign_event :: "sys_event \<Rightarrow> bool" where
  "benign_event SysOk = True"
| "benign_event (SysShort k) = (0 < k)"
| "benign_event (SysFail e) = False"

definition benign :: "File \<Rightarrow> bool" where
  "benign f \<longleftrightarrow> list_all benign_event (schedule f)"

text \<open>The parts of \<open>stat64\<close> and the mode bits of \<^verbatim>\<open>libc\<close> the file systems set.\<close>

definition S_IFREG :: u32 where "S_IFREG = 0x8000"
definition S_IFDIR :: u32 where "S_IFDIR = 0x4000"
definition S_IRUSR :: u32 where "S_IRUSR = 0x100"
definition S_IWUSR :: u32 where "S_IWUSR = 0x80"
definition S_IXUSR :: u32 where "S_IXUSR = 0x40"

record stat64 =
  st_ino :: nat
  st_mode :: u32
  st_nlink :: nat
  st_size :: int
  st_blksize :: nat
  st_blocks :: nat

section \<open>Writers\<close>

type_synonym 'w write_fn = "bytes \<Rightarrow> ('w, nat, io_error) prog"

text \<open>\<open>io::Write\<close>: a write stores a prefix of the bytes and returns its length.\<close>

locale byte_sink =
  fixes wr :: "'w write_fn" and view :: "'w \<Rightarrow> bytes"
  assumes write_prefix:
    "wr b w = (Ok n, w') \<Longrightarrow> n \<le> length b \<and> view w' = view w @ take n b"

text \<open>\<open>impl Write for Vec<u8>\<close>\<close>

definition vec_write :: "bytes write_fn" where
  "vec_write b v = (Ok (length b), v @ b)"

interpretation vec: byte_sink vec_write "\<lambda>v. v"
  by unfold_locales (auto simp: vec_write_def)

section \<open>Calls on a benign file\<close>

lemma contents_next_event [simp]: "contents (snd (next_event f)) = contents f"
  by (simp add: next_event_def split: list.splits)

lemma next_event_contents: "next_event f = (e, f') \<Longrightarrow> contents f' = contents f"
  using contents_next_event [of f] by simp

lemma contents_file_len [simp]: "contents (snd (file_len f)) = contents f"
  by (auto simp: file_len_def split: sys_event.splits prod.splits dest: next_event_contents)

lemma contents_read_exact_at [simp]: "contents (snd (read_exact_at n off f)) = contents f"
  by (auto simp: read_exact_at_def split: sys_event.splits prod.splits dest: next_event_contents)

lemma benign_next_event:
  "benign f \<Longrightarrow> next_event f = (e, f') \<Longrightarrow> benign_event e \<and> benign f' \<and> contents f' = contents f"
  by (auto simp: next_event_def benign_def split: list.splits)

lemma benign_contents_update [simp]: "benign (f\<lparr>contents := c\<rparr>) = benign f"
  by (simp add: benign_def)

lemma file_len_benign:
  "benign f \<Longrightarrow> \<exists>f'. file_len f = (Ok (length (contents f)), f') \<and> benign f' \<and> contents f' = contents f"
  by (cases "next_event f") (auto simp: file_len_def split: sys_event.splits dest: benign_next_event)

lemma read_exact_at_benign:
  "benign f \<Longrightarrow> off + n \<le> length (contents f) \<Longrightarrow> off \<le> i64_max \<Longrightarrow>
   \<exists>f'. read_exact_at n off f = (Ok (take n (drop off (contents f))), f') \<and> benign f' \<and>
        contents f' = contents f"
  by (cases "next_event f")
     (auto simp: read_exact_at_def split: sys_event.splits dest: benign_next_event)

lemma file_write_at_benign:
  assumes "benign f" and "buf \<noteq> []" and "off \<le> i64_max"
  shows "\<exists>k f'. file_write_at buf off f = (Ok k, f') \<and> 0 < k \<and> k \<le> length buf \<and> benign f' \<and>
                contents f' = pwrite (contents f) off (take k buf)"
proof -
  obtain e f' where e: "next_event f = (e, f')" by fastforce
  with assms benign_next_event have "benign_event e" "benign f'" by blast+
  with e assms show ?thesis
    by (cases e) (auto simp: file_write_at_def min_def)
qed

text \<open>Whatever the schedule, a completed read returns as many bytes as asked.\<close>

lemma read_exact_at_length: "read_exact_at n off f = (Ok d, f') \<Longrightarrow> length d = n"
  by (auto simp: read_exact_at_def split: if_splits prod.splits sys_event.splits)

lemma set_len_benign:
  "benign f \<Longrightarrow> n \<le> i64_max \<Longrightarrow> \<exists>f'. set_len n f = (Ok (), f') \<and> benign f' \<and> contents f' = resize_bytes n (contents f)"
  by (cases "next_event f") (auto simp: set_len_def split: sys_event.splits dest: benign_next_event)

end
