(* ===== verification/LocalFile.thy ===== *)
theory LocalFile
  imports OsFile FileTraits
begin

text \<open>
  \<^verbatim>\<open>authfs/src/file/local_file.rs\<close>: a read-only local file read by chunks. The length is
  the one recorded when the reader is created; the file itself is the state. The reader
  satisfies the contract \<open>prefix_reader\<close> always and \<open>chunk_reader\<close> while the file still
  has the recorded length.
\<close>

section \<open>Definitions\<close>

record LocalFileReader =
  lf_size :: nat

definition LocalFileReader_new :: "(File, LocalFileReader, io_error) prog" where
  "LocalFileReader_new = bind_prog file_len (\<lambda>n. ret (Ok \<lparr>lf_size = n\<rparr>))"

definition LocalFileReader_len :: "LocalFileReader \<Rightarrow> nat" where
  "LocalFileReader_len r = lf_size r"

definition local_read_chunk :: "bool \<Rightarrow> LocalFileReader \<Rightarrow> File read_chunk_fn" where
  "local_read_chunk dbg r chunk_index buf =
     bind_prog (ret (u64_mul chunk_index CHUNK_SIZE)) (\<lambda>start.
     if lf_size r \<le> start then ret (Ok (0, buf))
     else
       bind_prog (ret (u64_add start CHUNK_SIZE)) (\<lambda>limit.
       let read_size = min (lf_size r) limit - start in
       bind_prog (ret (debug_assert dbg (read_size \<le> length buf))) (\<lambda>_.
       bind_prog (ret (slice_range buf 0 read_size)) (\<lambda>_.
       bind_prog (read_exact_at read_size start) (\<lambda>d.
       bind_prog (ret (copy_into buf 0 read_size d)) (\<lambda>buf'.
       ret (Ok (read_size, buf'))))))))"

definition local_good :: "LocalFileReader \<Rightarrow> File \<Rightarrow> bool" where
  "local_good r f \<longleftrightarrow> benign f \<and> length (contents f) = lf_size r \<and> lf_size r \<le> i64_max"

section \<open>Lemmas\<close>

lemma local_read_prefix:
  assumes "local_read_chunk dbg r i buf f = (Ok (n, buf'), f')" and "length buf = CHUNK_SIZE"
  shows "n \<le> CHUNK_SIZE \<and> (\<exists>d. length d = n \<and> buf' = d @ drop n buf)"
  using assms
  by (auto simp: local_read_chunk_def bind_prog_Ok_iff Let_def copy_into_def u64_mul_def u64_add_def
      split: if_splits intro: exI [of _ "[]"])

lemma local_read_ok:
  assumes good: "local_good r f" and i: "CHUNK_SIZE * i < length (contents f)"
    and buf: "length buf = CHUNK_SIZE"
    and d: "d = take CHUNK_SIZE (drop (CHUNK_SIZE * i) (contents f))"
  shows "\<exists>f'. local_read_chunk dbg r i buf f = (Ok (length d, d @ drop (length d) buf), f') \<and>
              local_good r f' \<and> contents f' = contents f"
proof -
  let ?start = "i * CHUNK_SIZE" and ?n = "min (lf_size r) (i * CHUNK_SIZE + CHUNK_SIZE) - i * CHUNK_SIZE"
  have start: "?start < lf_size r" "?start \<le> i64_max" "?start + CHUNK_SIZE < u64_limit"
    using good i by (auto simp: local_good_def mult.commute i64_max_def u64_limit_def CHUNK_SIZE_def)
  have n: "?n \<le> CHUNK_SIZE" "?start + ?n \<le> length (contents f)" "length d = ?n"
    using good start d by (auto simp: local_good_def mult.commute)
  obtain f' where f': "read_exact_at ?n ?start f = (Ok (take ?n (drop ?start (contents f))), f')"
    "benign f'" "contents f' = contents f"
    using read_exact_at_benign [of f ?start ?n] good n start by (auto simp: local_good_def)
  have "take ?n (drop ?start (contents f)) = d"
    using n good by (auto simp: d mult.commute local_good_def min_def)
  with f' start n buf good show ?thesis
    by (auto simp: local_read_chunk_def local_good_def Let_def)
qed

interpretation lf: chunk_reader "local_read_chunk dbg r" contents "local_good r" for dbg r
  using local_read_prefix local_read_ok by unfold_locales metis+

text \<open>A freshly opened file is read back with the content it had.\<close>

lemma LocalFileReader_new_ok:
  assumes "benign f" and "length (contents f) \<le> i64_max"
  shows "\<exists>r f'. LocalFileReader_new f = (Ok r, f') \<and> LocalFileReader_len r = length (contents f) \<and>
                local_good r f' \<and> contents f' = contents f"
  using file_len_benign [OF assms(1)] assms(2)
  by (auto simp: LocalFileReader_new_def LocalFileReader_len_def local_good_def)

end
