(* ===== verification/SampleHash.thy ===== *)
theory SampleHash
  imports MerkleSpec
begin

text \<open>
  A concrete hash function and hash library, on which the statements about every hash library
  are applied to concrete inputs. The function has 32-byte results, the required value on
  the page of zeros, and separates the few blocks the examples use from all others: the page
  of the one-byte file \<open>[1]\<close> (which is also the only page of every layer of its Merkle
  tree) and the descriptor of that file.
\<close>

section \<open>Definitions\<close>

definition sample_root :: Sha256Hash where
  "sample_root = 1 # zeros 31"

definition sample_hash :: "bytes \<Rightarrow> Sha256Hash" where
  "sample_hash x =
     (if x = page [1] 0 then sample_root
      else if x = zeros 4096 then HASH_OF_4096_ZEROS
      else if x = fsverity_descriptor sample_root 1 then 3 # zeros 31
      else 2 # zeros 31)"

definition sample_ffi :: "bytes sha256_ffi" where
  "sample_ffi =
     \<lparr>SHA256_Init = Some [],
      SHA256_Update = (\<lambda>ctx d. Some (ctx @ d)),
      SHA256_Final = (\<lambda>ctx. Some (sample_hash ctx))\<rparr>"

section \<open>The hypotheses hold\<close>

lemma sample_lib [simp]: "sha256_lib sample_ffi sample_hash"
  by (auto simp: sha256_lib_def sample_ffi_def sample_hash_def sample_root_def HASH_OF_4096_ZEROS_def
      HASH_SIZE_def)

lemma sample_page_neq: "page [1] 0 \<noteq> zeros 4096"
proof
  assume "page [1] 0 = zeros 4096"
  then have "page [1] 0 ! 0 = zeros 4096 ! 0" by simp
  then show False by (simp add: nth_page byte_at_def)
qed

lemma sample_descriptor_neq:
  "fsverity_descriptor sample_root 1 \<noteq> page [1] 0" "fsverity_descriptor sample_root 1 \<noteq> zeros 4096"
proof -
  have "length (fsverity_descriptor sample_root 1) \<noteq> length (page [1] 0)"
    "length (fsverity_descriptor sample_root 1) \<noteq> length (zeros 4096)"
    by (simp_all add: length_fsverity_descriptor sample_root_def HASH_SIZE_def CHUNK_SIZE_def)
  then show "fsverity_descriptor sample_root 1 \<noteq> page [1] 0" "fsverity_descriptor sample_root 1 \<noteq> zeros 4096"
    by fastforce+
qed

lemma sample_values_distinct:
  "sample_root \<noteq> HASH_OF_4096_ZEROS" "sample_root \<noteq> 3 # zeros 31" "sample_root \<noteq> 2 # zeros 31"
  "HASH_OF_4096_ZEROS \<noteq> 3 # zeros 31" "HASH_OF_4096_ZEROS \<noteq> 2 # zeros 31"
  "(3 :: u8) # zeros 31 \<noteq> 2 # zeros 31"
  by (simp_all add: sample_root_def HASH_OF_4096_ZEROS_def)

lemmas sample_distinct = sample_page_neq sample_page_neq [symmetric]
  sample_descriptor_neq sample_descriptor_neq [symmetric]
  sample_values_distinct sample_values_distinct [symmetric]

lemma sample_hash_values:
  "sample_hash x = sample_root \<longleftrightarrow> x = page [1] 0"
  "sample_hash x = HASH_OF_4096_ZEROS \<longleftrightarrow> x = zeros 4096"
  "sample_hash x = 3 # zeros 31 \<longleftrightarrow> x = fsverity_descriptor sample_root 1"
  unfolding sample_hash_def using sample_distinct by (simp_all del: zeros_0)

lemma sample_hash_at:
  "sample_hash (page [1] 0) = sample_root" "sample_hash (zeros 4096) = HASH_OF_4096_ZEROS"
  "sample_hash (fsverity_descriptor sample_root 1) = 3 # zeros 31"
  by (simp_all only: sample_hash_values)

lemma sample_zero_hash [simp]: "zero_hash_ok sample_hash"
  by (simp only: zero_hash_ok_def sample_hash_at)

lemma sample_no_forgery:
  assumes "P \<subseteq> {page [1] 0, zeros 4096}"
  shows "\<not> forges sample_hash B P"
proof
  assume "forges sample_hash B P"
  then obtain b x where "x \<in> P" "b \<noteq> x" "sample_hash b = sample_hash x" by (auto simp: forges_def)
  moreover from this(1) assms have "x = page [1] 0 \<or> x = zeros 4096" by blast
  ultimately show False by (metis sample_hash_at(1,2) sample_hash_values(1,2))
qed

lemma sample_no_forged_descriptor: "\<not> forges sample_hash B {fsverity_descriptor sample_root 1}"
  unfolding forges_def by (metis sample_hash_at(3) sample_hash_values(3) singletonD)

section \<open>The one-byte file\<close>

lemma sample_num_chunks [simp]: "num_chunks [x] = 1"
  using num_chunks_1 [of "[x]"] by (simp add: CHUNK_SIZE_def)

lemma sample_pages: "page [1] i \<in> {page [1] 0, zeros 4096}"
proof (cases "i = 0")
  case False
  then have "num_chunks [1] \<le> i" by simp
  then show ?thesis by (simp add: page_beyond CHUNK_SIZE_def)
qed simp

lemma sample_hash_layer [simp]: "hash_layer sample_hash [1] = sample_root"
  by (simp add: hash_layer_def leaf_hashes_def sample_hash_at)

lemma sample_root_pages: "page sample_root i = page [1] i"
  by (rule page_eqI) (auto simp: nth_page byte_at_def sample_root_def nth_Cons split: nat.splits)

lemma sample_hash_layer_root [simp]: "hash_layer sample_hash sample_root = sample_root"
proof -
  have "length sample_root = 32" by (simp add: sample_root_def)
  then have "num_chunks sample_root = 1" by (intro num_chunks_1) (auto simp: CHUNK_SIZE_def)
  then show ?thesis
    by (simp add: hash_layer_def leaf_hashes_def sample_root_pages sample_hash_at)
qed

end
