(* ===== verification/ReaderTests.thy ===== *)
theory ReaderTests
  imports Verifier LocalFile BuilderTests SampleHash
begin

text \<open>
  The unit tests of \<^verbatim>\<open>authfs/src/file/local_file.rs\<close> and \<^verbatim>\<open>authfs/src/fsverity/verifier.rs\<close>.
  Opening a file of the test data is a parameter, and so are the contents of those files; the lemmas
  say what the files have to be for a test to pass.

  The tests of the verifier read a local file through a local copy of its Merkle tree. Both files are the
  state; the pair keeps the contract of a verified file, so the lemmas on the verifier apply.
\<close>

section \<open>\<^verbatim>\<open>local_file.rs\<close>\<close>

text \<open>The opened file is dropped at the end of a test.\<close>

definition with_opened :: "('f, 'e) outcome \<Rightarrow> ('f, 'a, 'e) prog \<Rightarrow> ('a, 'e) outcome" where
  "with_opened opened p = and_then opened (\<lambda>f. fst (p f))"

type_synonym open_fn = "string \<Rightarrow> (File, io_error) outcome"

text \<open>A read into the buffer and the check of its size; the buffer goes on to the next read.\<close>

definition assert_chunk_size :: "bool \<Rightarrow> LocalFileReader \<Rightarrow> nat \<Rightarrow> nat \<Rightarrow> ChunkBuffer \<Rightarrow> (File, ChunkBuffer, io_error) prog" where
  "assert_chunk_size dbg file_reader index n buf =
     bind_prog (local_read_chunk dbg file_reader index buf) (\<lambda>(k, buf').
     ret (and_then (assertion (k = n)) (\<lambda>_. Ok buf')))"

definition test_read_4k_file :: "bool \<Rightarrow> open_fn \<Rightarrow> (unit, io_error) outcome" where
  "test_read_4k_file dbg open_file =
     with_opened (open_file ''testdata/input.4k'')
       (bind_prog LocalFileReader_new (\<lambda>file_reader.
        bind_prog (assert_chunk_size dbg file_reader 0 4096 (zeros 4096)) (\<lambda>_. ret (Ok ()))))"

definition test_read_4k1_file :: "bool \<Rightarrow> open_fn \<Rightarrow> (unit, io_error) outcome" where
  "test_read_4k1_file dbg open_file =
     with_opened (open_file ''testdata/input.4k1'')
       (bind_prog LocalFileReader_new (\<lambda>file_reader.
        bind_prog (assert_chunk_size dbg file_reader 0 4096 (zeros 4096)) (\<lambda>buf.
        bind_prog (assert_chunk_size dbg file_reader 1 1 buf) (\<lambda>_. ret (Ok ())))))"

definition test_read_4m_file :: "bool \<Rightarrow> open_fn \<Rightarrow> (unit, io_error) outcome" where
  "test_read_4m_file dbg open_file =
     with_opened (open_file ''testdata/input.4m'')
       (bind_prog LocalFileReader_new (\<lambda>file_reader.
        fold_prog (\<lambda>_ index. bind_prog (assert_chunk_size dbg file_reader index 4096 (zeros 4096)) (\<lambda>_. ret (Ok ()))) ()
          [0..<LocalFileReader_len file_reader div 4096]))"

definition unwrap_prog :: "('s, 'a, 'e) prog \<Rightarrow> ('s, 'a, 'f) prog" where
  "unwrap_prog p s = (case p s of (r, s') \<Rightarrow> (expect r, s'))"

definition test_read_beyond_file_size :: "bool \<Rightarrow> open_fn \<Rightarrow> (unit, io_error) outcome" where
  "test_read_beyond_file_size dbg open_file =
     with_opened (expect (open_file ''testdata/input.4k''))
       (bind_prog (unwrap_prog LocalFileReader_new) (\<lambda>file_reader.
        bind_prog (assert_chunk_size dbg file_reader 1 0 (zeros 4096)) (\<lambda>_. ret (Ok ()))))"

text \<open>\<open>File::create\<close> on a path in the directory for temporary files.\<close>

definition test_read_empty_file :: "bool \<Rightarrow> open_fn \<Rightarrow> string \<Rightarrow> (unit, io_error) outcome" where
  "test_read_empty_file dbg create_file temp_dir =
     with_opened (expect (create_file (temp_dir @ ''/authfs_test_empty_file'')))
       (bind_prog (unwrap_prog LocalFileReader_new) (\<lambda>file_reader.
        bind_prog (assert_chunk_size dbg file_reader 0 0 (zeros 4096)) (\<lambda>_. ret (Ok ()))))"

text \<open>A file whose system calls succeed.\<close>

definition opens :: "open_fn \<Rightarrow> string \<Rightarrow> bytes \<Rightarrow> bool" where
  "opens open_file path c \<longleftrightarrow>
     length c \<le> i64_max \<and> (\<exists>f. open_file path = Ok f \<and> benign f \<and> contents f = c)"

lemma opens_reader:
  assumes "opens open_file path c"
  shows "\<exists>f r f'. open_file path = Ok f \<and> LocalFileReader_new f = (Ok r, f') \<and> LocalFileReader_len r = length c \<and>
    lf_size r = length c \<and> local_good r f' \<and> contents f' = c"
  using assms LocalFileReader_new_ok by (fastforce simp: opens_def LocalFileReader_len_def)

lemma assert_chunk_size_inside:
  assumes "local_good r f" and "4096 * i < length (contents f)" and "n = min 4096 (length (contents f) - 4096 * i)"
    and "length buf = 4096"
  shows "\<exists>f' buf'. assert_chunk_size dbg r i n buf f = (Ok buf', f') \<and> length buf' = 4096 \<and> local_good r f' \<and>
    contents f' = contents f"
  using lf.read_ok [OF assms(1) _ _ refl, of i buf dbg] assms(2-4)
  by (auto simp: assert_chunk_size_def bind_prog_def CHUNK_SIZE_def min.commute)

lemma assert_chunk_size_beyond:
  assumes "lf_size r \<le> 4096 * i" and "4096 * i < u64_limit"
  shows "assert_chunk_size dbg r i 0 buf f = (Ok buf, f)"
  using assms by (simp add: assert_chunk_size_def local_read_chunk_def CHUNK_SIZE_def mult.commute)

lemma test_read_4k_file_passes:
  assumes "opens open_file ''testdata/input.4k'' c" and "length c = 4096"
  shows "test_read_4k_file dbg open_file = Ok ()" "test_read_beyond_file_size dbg open_file = Ok ()"
proof -
  obtain f r f1 where f: "open_file ''testdata/input.4k'' = Ok f" "LocalFileReader_new f = (Ok r, f1)"
      "lf_size r = 4096" "local_good r f1" "contents f1 = c"
    using opens_reader [OF assms(1)] assms(2) by auto
  from assert_chunk_size_inside [OF f(4), of 0 4096 "zeros 4096" dbg] f assms(2) show "test_read_4k_file dbg open_file = Ok ()"
    by (auto simp: test_read_4k_file_def with_opened_def)
  from assert_chunk_size_beyond [of r 1 dbg "zeros 4096" f1] f show "test_read_beyond_file_size dbg open_file = Ok ()"
    by (auto simp: test_read_beyond_file_size_def with_opened_def unwrap_prog_def bind_prog_def u64_limit_def)
qed

lemma test_read_4k1_file_passes:
  assumes "opens open_file ''testdata/input.4k1'' c" and "length c = 4097"
  shows "test_read_4k1_file dbg open_file = Ok ()"
proof -
  obtain f r f1 where f: "open_file ''testdata/input.4k1'' = Ok f" "LocalFileReader_new f = (Ok r, f1)"
      "local_good r f1" "contents f1 = c"
    using opens_reader [OF assms(1)] by blast
  obtain f2 buf where f2: "assert_chunk_size dbg r 0 4096 (zeros 4096) f1 = (Ok buf, f2)" "length buf = 4096"
      "local_good r f2" "contents f2 = c"
    using assert_chunk_size_inside [OF f(3), of 0 4096 "zeros 4096" dbg] f(4) assms(2) by auto
  obtain f3 buf2 where "assert_chunk_size dbg r 1 1 buf f2 = (Ok buf2, f3)"
    using assert_chunk_size_inside [OF f2(3), of 1 1 buf dbg] f2(2,4) assms(2) by auto
  with f f2 show ?thesis by (simp add: test_read_4k1_file_def with_opened_def)
qed

lemma test_read_empty_file_passes:
  assumes "opens create_file (temp_dir @ ''/authfs_test_empty_file'') []"
  shows "test_read_empty_file dbg create_file temp_dir = Ok ()"
proof -
  obtain f r f1 where "create_file (temp_dir @ ''/authfs_test_empty_file'') = Ok f"
      "LocalFileReader_new f = (Ok r, f1)" "lf_size r = 0"
    using opens_reader [OF assms] by auto
  with assert_chunk_size_beyond [of r 0 dbg "zeros 4096" f1] show ?thesis
    by (simp add: test_read_empty_file_def with_opened_def unwrap_prog_def bind_prog_def u64_limit_def)
qed

lemma test_read_4m_file_passes:
  assumes "opens open_file ''testdata/input.4m'' c"
  shows "test_read_4m_file dbg open_file = Ok ()"
proof -
  obtain f r f1 where f: "open_file ''testdata/input.4m'' = Ok f" "LocalFileReader_new f = (Ok r, f1)"
      "LocalFileReader_len r = length c" "local_good r f1" "contents f1 = c"
    using opens_reader [OF assms] by blast
  have "\<exists>f'. fold_prog (\<lambda>_ index. bind_prog (assert_chunk_size dbg r index 4096 (zeros 4096)) (\<lambda>_. ret (Ok ()))) () xs f
      = (Ok (), f')"
    if "local_good r f" "contents f = c" "set xs \<subseteq> {0..<length c div 4096}" for xs f
    using that
  proof (induction xs arbitrary: f)
    case (Cons x xs)
    then have "4096 * Suc x \<le> length c" by (auto simp: less_eq_div_iff_mult_less_eq mult.commute Suc_le_eq dest: less_mult_imp_div_less)
    with Cons.prems obtain f2 buf where "assert_chunk_size dbg r x 4096 (zeros 4096) f = (Ok buf, f2)" "local_good r f2" "contents f2 = c"
      using assert_chunk_size_inside [of r f x 4096 "zeros 4096" dbg] by auto
    with Cons show ?case by simp
  qed simp
  from this [OF f(4,5), of "[0..<length c div 4096]"] f(1-3) show ?thesis
    by (auto simp: test_read_4m_file_def with_opened_def)
qed

section \<open>\<^verbatim>\<open>verifier.rs\<close>\<close>

text \<open>The protected file and its tree.\<close>

definition on_content :: "(File, 'a, 'e) prog \<Rightarrow> (File \<times> File, 'a, 'e) prog" where
  "on_content p s = (case p (fst s) of (r, f) \<Rightarrow> (r, (f, snd s)))"

definition on_tree :: "(File, 'a, 'e) prog \<Rightarrow> (File \<times> File, 'a, 'e) prog" where
  "on_tree p s = (case p (snd s) of (r, f) \<Rightarrow> (r, (fst s, f)))"

abbreviation content_reader :: "bool \<Rightarrow> LocalFileReader \<Rightarrow> (File \<times> File) read_chunk_fn" where
  "content_reader dbg r \<equiv> \<lambda>i buf. on_content (local_read_chunk dbg r i buf)"

abbreviation tree_reader :: "bool \<Rightarrow> LocalFileReader \<Rightarrow> (File \<times> File) read_chunk_fn" where
  "tree_reader dbg r \<equiv> \<lambda>i buf. on_tree (local_read_chunk dbg r i buf)"

interpretation local_verity: verity_files "content_reader lf_dbg r" "\<lambda>s. contents (fst s)"
  "\<lambda>s. local_good r (fst s) \<and> local_good r' (snd s)" "tree_reader lf_dbg r'" "\<lambda>s. contents (snd s)" for lf_dbg r r'
proof unfold_locales
  show "n \<le> CHUNK_SIZE \<and> (\<exists>d. length d = n \<and> buf' = d @ drop n buf)"
    if "on_content (local_read_chunk lf_dbg r i buf) s = (Ok (n, buf'), s')" "length buf = CHUNK_SIZE" for i buf s n buf' s'
    using that lf.read_prefix [of lf_dbg r i buf "fst s" n buf'] by (auto simp: on_content_def split: prod.splits)
  show "n \<le> CHUNK_SIZE \<and> (\<exists>d. length d = n \<and> buf' = d @ drop n buf)"
    if "on_tree (local_read_chunk lf_dbg r' i buf) s = (Ok (n, buf'), s')" "length buf = CHUNK_SIZE" for i buf s n buf' s'
    using that lf.read_prefix [of lf_dbg r' i buf "snd s" n buf'] by (auto simp: on_tree_def split: prod.splits)
next
  fix s :: "File \<times> File" and i and buf d :: bytes
  assume good: "local_good r (fst s) \<and> local_good r' (snd s)" and buf: "length buf = CHUNK_SIZE"
  show "\<exists>s'. on_content (local_read_chunk lf_dbg r i buf) s = (Ok (length d, d @ drop (length d) buf), s') \<and>
      (local_good r (fst s') \<and> local_good r' (snd s')) \<and> contents (fst s') = contents (fst s)"
    if "CHUNK_SIZE * i < length (contents (fst s))" "d = take CHUNK_SIZE (drop (CHUNK_SIZE * i) (contents (fst s)))"
    using lf.read_ok [OF conjunct1 [OF good] that(1) buf that(2), of lf_dbg] good by (auto simp: on_content_def)
  show "\<exists>s'. on_tree (local_read_chunk lf_dbg r' i buf) s = (Ok (length d, d @ drop (length d) buf), s') \<and>
      (local_good r (fst s') \<and> local_good r' (snd s')) \<and> contents (snd s') = contents (snd s)"
    if "CHUNK_SIZE * i < length (contents (snd s))" "d = take CHUNK_SIZE (drop (CHUNK_SIZE * i) (contents (snd s)))"
    using lf.read_ok [OF conjunct2 [OF good] that(1) buf that(2), of lf_dbg] good by (auto simp: on_tree_def)
qed (auto simp: on_content_def on_tree_def split: prod.splits)

definition total_chunk_number :: "nat \<Rightarrow> (nat, 'e) outcome" where
  "total_chunk_number file_size = and_then (u64_add file_size 4095) (\<lambda>n. u64_div n 4096)"

text \<open>\<open>Read::read_to_end\<close>.\<close>

definition read_to_end :: "(File, bytes, io_error) prog" where
  "read_to_end f =
     (case next_event f of (SysFail e, f') \<Rightarrow> (Err (OsError e), f') | (_, f') \<Rightarrow> (Ok (contents f), f'))"

text \<open>The opened file and tree with their readers, and the signature.\<close>

record TestFiles =
  tst_content :: LocalFileReader
  tst_tree :: LocalFileReader
  tst_sig :: bytes
  tst_files :: "File \<times> File"

definition open_test_files ::
  "open_fn \<Rightarrow> string \<Rightarrow> string \<Rightarrow> string \<Rightarrow> (TestFiles, FsverityError) outcome" where
  "open_test_files open_file content_path merkle_tree_path signature_path =
     and_then (map_err Io (open_file content_path)) (\<lambda>f.
     case LocalFileReader_new f of (fr, f1) \<Rightarrow>
     and_then (map_err Io fr) (\<lambda>file_reader.
     and_then (map_err Io (open_file merkle_tree_path)) (\<lambda>t.
     case LocalFileReader_new t of (tr, t1) \<Rightarrow>
     and_then (map_err Io tr) (\<lambda>merkle_tree'.
     and_then (map_err Io (open_file signature_path)) (\<lambda>sf.
     and_then (map_err Io (fst (read_to_end sf))) (\<lambda>sig.
     Ok \<lparr>tst_content = file_reader, tst_tree = merkle_tree', tst_sig = sig, tst_files = (f1, t1)\<rparr>))))))"

definition new_test_reader ::
  "FakeAuthenticator \<Rightarrow> bool \<Rightarrow> 'c sha256_ffi \<Rightarrow> TestFiles \<Rightarrow> (VerifiedFileReader, FsverityError) outcome \<times> File \<times> File" where
  "new_test_reader authenticator dbg ffi fs =
     VerifiedFileReader_new (fake_verify authenticator) (tree_reader dbg (tst_tree fs)) ffi
       (LocalFileReader_len (tst_content fs)) (tst_sig fs) (tst_files fs)"

text \<open>The verified reader, with the files and the length of the protected one.\<close>

definition new_reader_with_fsverity ::
  "bool \<Rightarrow> 'c sha256_ffi \<Rightarrow> open_fn \<Rightarrow> string \<Rightarrow> string \<Rightarrow> string \<Rightarrow>
   (VerifiedFileReader \<times> TestFiles \<times> nat, FsverityError) outcome" where
  "new_reader_with_fsverity dbg ffi open_file content_path merkle_tree_path signature_path =
     and_then (open_test_files open_file content_path merkle_tree_path signature_path) (\<lambda>fs.
     case new_test_reader always_succeed dbg ffi fs of (r, files) \<Rightarrow>
     and_then r (\<lambda>reader. Ok (reader, fs\<lparr>tst_files := files\<rparr>, LocalFileReader_len (tst_content fs))))"

definition test_read_chunk ::
  "bool \<Rightarrow> 'c sha256_ffi \<Rightarrow> VerifiedFileReader \<Rightarrow> TestFiles \<Rightarrow> (File \<times> File) read_chunk_fn" where
  "test_read_chunk dbg ffi r fs =
     verified_read_chunk dbg (content_reader dbg (tst_content fs)) (tree_reader dbg (tst_tree fs)) ffi r"

text \<open>An assertion on the result of a read, which drops what was read.\<close>

definition assert_read ::
  "((nat \<times> bytes, io_error) outcome \<Rightarrow> (unit, FsverityError) outcome) \<Rightarrow>
   (File \<times> File, nat \<times> bytes, io_error) prog \<Rightarrow> (File \<times> File, unit, FsverityError) prog" where
  "assert_read check p s = (case p s of (r, s') \<Rightarrow> (check r, s'))"

definition full_read_test ::
  "bool \<Rightarrow> 'c sha256_ffi \<Rightarrow> open_fn \<Rightarrow> string \<Rightarrow> string \<Rightarrow> string \<Rightarrow> (unit, FsverityError) outcome" where
  "full_read_test dbg ffi open_file content_path merkle_tree_path signature_path =
     and_then (new_reader_with_fsverity dbg ffi open_file content_path merkle_tree_path signature_path)
       (\<lambda>(file_reader, fs, file_size).
     and_then (total_chunk_number file_size) (\<lambda>n.
     fst (fold_prog (\<lambda>_ i. assert_read assert_ok (test_read_chunk dbg ffi file_reader fs i (zeros 4096))) () [0..<n]
       (tst_files fs))))"

definition fsverity_verify_full_read_4k :: "bool \<Rightarrow> 'c sha256_ffi \<Rightarrow> open_fn \<Rightarrow> (unit, FsverityError) outcome" where
  "fsverity_verify_full_read_4k dbg ffi open_file =
     full_read_test dbg ffi open_file ''testdata/input.4k'' ''testdata/input.4k.merkle_dump'' ''testdata/input.4k.fsv_sig''"

definition fsverity_verify_full_read_4k1 :: "bool \<Rightarrow> 'c sha256_ffi \<Rightarrow> open_fn \<Rightarrow> (unit, FsverityError) outcome" where
  "fsverity_verify_full_read_4k1 dbg ffi open_file =
     full_read_test dbg ffi open_file ''testdata/input.4k1'' ''testdata/input.4k1.merkle_dump'' ''testdata/input.4k1.fsv_sig''"

definition fsverity_verify_full_read_4m :: "bool \<Rightarrow> 'c sha256_ffi \<Rightarrow> open_fn \<Rightarrow> (unit, FsverityError) outcome" where
  "fsverity_verify_full_read_4m dbg ffi open_file =
     full_read_test dbg ffi open_file ''testdata/input.4m'' ''testdata/input.4m.merkle_dump'' ''testdata/input.4m.fsv_sig''"

text \<open>The reads of this test share a buffer; \<open>bufs i\<close> is what it holds before the read of chunk \<open>i\<close>.\<close>

definition fsverity_verify_bad_merkle_tree ::
  "bool \<Rightarrow> 'c sha256_ffi \<Rightarrow> open_fn \<Rightarrow> (nat \<Rightarrow> ChunkBuffer) \<Rightarrow> (unit, FsverityError) outcome" where
  "fsverity_verify_bad_merkle_tree dbg ffi open_file bufs =
     and_then (new_reader_with_fsverity dbg ffi open_file ''testdata/input.4m'' ''testdata/input.4m.merkle_dump.bad''
         ''testdata/input.4m.fsv_sig'')
       (\<lambda>(file_reader, fs, _).
     let num_hashes = 4096 div 32; last_index = num_hashes in
     fst (bind_prog
       (fold_prog (\<lambda>_ i. assert_read assert_err (test_read_chunk dbg ffi file_reader fs i (bufs i))) () [0..<last_index])
       (\<lambda>_. assert_read assert_ok (test_read_chunk dbg ffi file_reader fs last_index (bufs last_index)))
       (tst_files fs)))"

definition invalid_signature :: "bool \<Rightarrow> 'c sha256_ffi \<Rightarrow> open_fn \<Rightarrow> (unit, FsverityError) outcome" where
  "invalid_signature dbg ffi open_file =
     and_then (open_test_files open_file ''testdata/input.4m'' ''testdata/input.4m.merkle_dump'' ''testdata/input.4m.fsv_sig'')
       (\<lambda>fs. assert_err (fst (new_test_reader always_fail dbg ffi fs)))"

section \<open>The verifier's tests pass\<close>

lemma open_test_files_ok:
  assumes "opens open_file content_path c" and "opens open_file merkle_tree_path t" and "opens open_file signature_path sig"
  shows "\<exists>fs. open_test_files open_file content_path merkle_tree_path signature_path = Ok fs \<and>
    LocalFileReader_len (tst_content fs) = length c \<and>
    local_good (tst_content fs) (fst (tst_files fs)) \<and> local_good (tst_tree fs) (snd (tst_files fs)) \<and>
    contents (fst (tst_files fs)) = c \<and> contents (snd (tst_files fs)) = t"
proof -
  obtain f r f1 where f: "open_file content_path = Ok f" "LocalFileReader_new f = (Ok r, f1)"
      "LocalFileReader_len r = length c" "local_good r f1" "contents f1 = c"
    using opens_reader [OF assms(1)] by blast
  obtain g r' g1 where g: "open_file merkle_tree_path = Ok g" "LocalFileReader_new g = (Ok r', g1)"
      "local_good r' g1" "contents g1 = t"
    using opens_reader [OF assms(2)] by blast
  obtain h where h: "open_file signature_path = Ok h" "benign h" "contents h = sig" using assms(3) by (auto simp: opens_def)
  have "fst (read_to_end h) = Ok sig"
    using benign_next_event [OF h(2)] h(3) by (auto simp: read_to_end_def split: prod.splits sys_event.splits)
  with f g h(1) show ?thesis by (auto simp: open_test_files_def)
qed

abbreviation files_good :: "TestFiles \<Rightarrow> File \<times> File \<Rightarrow> bool" where
  "files_good fs s \<equiv> local_good (tst_content fs) (fst s) \<and> local_good (tst_tree fs) (snd s)"

lemma new_reader_ok:
  assumes H: "sha256_lib ffi H" and c: "c \<noteq> []" and t: "node_ok H c t 0 (tree_height (length c))"
    and f: "opens open_file content_path c" "opens open_file merkle_tree_path t" "opens open_file signature_path sig"
  shows "\<exists>r fs. new_reader_with_fsverity dbg ffi open_file content_path merkle_tree_path signature_path =
      Ok (r, fs, length c) \<and> vr_file_size r = length c \<and> vr_root_hash r = verity_root H c \<and>
      files_good fs (tst_files fs) \<and> contents (fst (tst_files fs)) = c \<and> contents (snd (tst_files fs)) = t"
proof -
  obtain fs where fs: "open_test_files open_file content_path merkle_tree_path signature_path = Ok fs"
      "LocalFileReader_len (tst_content fs) = length c" "files_good fs (tst_files fs)"
      "contents (snd (tst_files fs)) = t" "contents (fst (tst_files fs)) = c"
    using open_test_files_ok [OF f] by blast
  have "fake_verify always_succeed (tst_sig fs) (formatted_digest H (verity_root H c) (length c)) = Ok True"
    by (simp add: fake_verify_def always_succeed_def)
  from local_verity.VerifiedFileReader_new_top [where verify = "fake_verify always_succeed" and lf_dbg = dbg,
      OF H c this t fs(3-5)] fs
  show ?thesis by (force simp: new_reader_with_fsverity_def new_test_reader_def)
qed

lemma fold_assert_read:
  assumes step: "\<And>i s. i \<in> set xs \<Longrightarrow> Q s \<Longrightarrow> \<exists>s'. assert_read check (rd i) s = (Ok (), s') \<and> Q s'"
  shows "Q s \<Longrightarrow> \<exists>s'. fold_prog (\<lambda>_ i. assert_read check (rd i)) () xs s = (Ok (), s') \<and> Q s'"
  using step
proof (induction xs arbitrary: s)
  case (Cons x xs)
  obtain s1 where "assert_read check (rd x) s = (Ok (), s1)" "Q s1"
    using Cons.prems(2) [of x s] Cons.prems(1) by auto
  moreover from this Cons.IH [OF this(2)] Cons.prems(2) obtain s2 where
    "fold_prog (\<lambda>_ i. assert_read check (rd i)) () xs s1 = (Ok (), s2)" "Q s2" by auto
  ultimately show ?case by simp
qed simp

text \<open>Any file with its genuine tree is read to its end.\<close>

lemma full_read_test_passes:
  assumes H: "sha256_lib ffi H" and c: "c \<noteq> []" "length c \<le> 2 ^ 61"
    and f: "opens open_file content_path c" "opens open_file merkle_tree_path (tree_bytes H c)"
      "opens open_file signature_path sig"
  shows "full_read_test dbg ffi open_file content_path merkle_tree_path signature_path = Ok ()"
proof -
  let ?t = "tree_bytes H c"
  have "node_ok H c ?t 0 (tree_height (length c))" by (rule node_ok_tree_bytes [OF H]) (use c in \<open>simp_all add: num_chunks_pos_iff\<close>)
  from new_reader_ok [OF H c(1) this f, of dbg] obtain r fs where
    r: "new_reader_with_fsverity dbg ffi open_file content_path merkle_tree_path signature_path = Ok (r, fs, length c)"
      "vr_file_size r = length c" "vr_root_hash r = verity_root H c"
    and s: "files_good fs (tst_files fs)" "contents (fst (tst_files fs)) = c" "contents (snd (tst_files fs)) = ?t"
    by blast
  have n: "total_chunk_number (length c) = (Ok (num_chunks c) :: (nat, FsverityError) outcome)"
    using c(2) by (simp add: total_chunk_number_def num_chunks_def ceil_div_def CHUNK_SIZE_def u64_limit_def)
  let ?Q = "\<lambda>s. files_good fs s \<and> contents (snd s) = ?t \<and> contents (fst s) = c"
  have "\<exists>s'. fold_prog (\<lambda>_ i. assert_read assert_ok (test_read_chunk dbg ffi r fs i (zeros 4096))) ()
      [0..<num_chunks c] (tst_files fs) = (Ok (), s') \<and> ?Q s'"
  proof (rule fold_assert_read)
    fix i s
    assume "i \<in> set [0..<num_chunks c]" and "?Q s"
    with local_verity.verified_read_chunk_complete [where dbg = dbg and lf_dbg = dbg, OF H _ c(2) r(2,3) _ _ _ _ refl,
        of i "tst_content fs" s "tst_tree fs" "zeros 4096"]
    show "\<exists>s'. assert_read assert_ok (test_read_chunk dbg ffi r fs i (zeros 4096)) s = (Ok (), s') \<and> ?Q s'"
      by (auto simp: assert_read_def test_read_chunk_def CHUNK_SIZE_def)
  qed (use s in simp)
  with r(1) n show ?thesis by (auto simp: full_read_test_def)
qed

lemma invalid_signature_rejected:
  assumes H: "sha256_lib ffi H" and c: "c \<noteq> []"
    and f: "opens open_file ''testdata/input.4m'' c" "opens open_file ''testdata/input.4m.merkle_dump'' (tree_bytes H c)"
      "opens open_file ''testdata/input.4m.fsv_sig'' sig"
  shows "invalid_signature dbg ffi open_file = Ok ()"
proof -
  let ?h = "tree_height (length c)"
  obtain fs where fs: "open_test_files open_file ''testdata/input.4m'' ''testdata/input.4m.merkle_dump''
        ''testdata/input.4m.fsv_sig'' = Ok fs" "files_good fs (tst_files fs)"
      "contents (fst (tst_files fs)) = c" "contents (snd (tst_files fs)) = tree_bytes H c"
    using open_test_files_ok [OF f] by blast
  have "node_ok H c (tree_bytes H c) 0 ?h" by (rule node_ok_tree_bytes [OF H]) (use c in \<open>simp_all add: num_chunks_pos_iff\<close>)
  moreover have "walk_node (length c) 0 ?h = 0" by (simp add: walk_node_def)
  ultimately have "\<exists>s'. tree_reader dbg (tst_tree fs) 0 (zeros CHUNK_SIZE) (tst_files fs) =
      (Ok (CHUNK_SIZE, page (layer H c (Suc ?h)) 0), s')"
    using local_verity.read_node_ok [where lf_dbg = dbg, OF fs(2), of H c 0 ?h] fs(3,4) by auto
  then show ?thesis
    using fs(1)
    by (auto simp: invalid_signature_def new_test_reader_def VerifiedFileReader_new_def bind_prog_def map_err_prog_def
        sha256_chain_hash [OF H] build_fsverity_formatted_digest_hash [OF H] fake_verify_def always_fail_def)
qed

section \<open>A damaged node\<close>

text \<open>The tree with one page replaced: the other nodes stay as they are.\<close>

lemma node_ok_other_page:
  assumes H: "sha256_lib ffi H" and i: "i < num_chunks c" "x \<le> tree_height (length c)"
    and b: "length b = CHUNK_SIZE" and p: "walk_node (length c) i x \<noteq> p"
  shows "node_ok H c (pwrite (tree_bytes H c) (CHUNK_SIZE * p) b) i x"
proof -
  let ?t = "tree_bytes H c" and ?q = "walk_node (length c) i x" and ?n = "page (layer H c (Suc x)) (i div 128 ^ Suc x)"
  let ?u = "pwrite ?t (CHUNK_SIZE * p) b"
  have ok: "CHUNK_SIZE * ?q < length ?t" "take CHUNK_SIZE (drop (CHUNK_SIZE * ?q) ?t) = ?n"
    using node_ok_tree_bytes [OF H i] by (simp_all add: node_ok_def del: power_Suc)
  have "length (take CHUNK_SIZE (drop (CHUNK_SIZE * ?q) ?t)) = CHUNK_SIZE" unfolding ok(2) by simp
  then have len: "CHUNK_SIZE \<le> length ?t - CHUNK_SIZE * ?q" by simp
  have grow: "length ?t \<le> length ?u" using b by (auto simp: length_pwrite)
  have "take CHUNK_SIZE (drop (CHUNK_SIZE * ?q) ?u) = page ?u ?q"
    unfolding page_def by (rule resize_bytes_same [symmetric]) (use len grow in simp)
  also have "\<dots> = page ?t ?q" by (rule page_pwrite_other [of p]) (use b p in simp_all)
  also have "\<dots> = take CHUNK_SIZE (drop (CHUNK_SIZE * ?q) ?t)"
    unfolding page_def by (rule resize_bytes_same) (use len in simp)
  finally show ?thesis using ok grow by (simp add: node_ok_def del: power_Suc)
qed

text \<open>The first node of the lowest level is above the first 128 chunks only.\<close>

lemma walk_node_first_leaf:
  assumes H: "sha256_lib ffi H" and i: "i < num_chunks c" and x: "x \<le> tree_height (length c)"
    and up: "0 < x \<or> 128 \<le> i"
  shows "walk_node (length c) i x \<noteq> walk_node (length c) 0 0"
proof (cases x)
  case 0
  then show ?thesis using up by (simp add: walk_node_def)
next
  case (Suc y)
  let ?n = "nodes_at (length c)" and ?h = "Suc (tree_height (length c))"
  have "i div 128 ^ Suc x < ?n x"
    using index_in_layer [OF H i, of "Suc x"] by (simp add: num_chunks_layer [OF H] nodes_at_def)
  then have "walk_node (length c) i x < ?n x + sum ?n {Suc x..<?h}" by (simp add: walk_node_def)
  also have "\<dots> = sum ?n {x..<?h}" using x sum.atLeast_Suc_lessThan [of x ?h ?n] by simp
  also have "\<dots> \<le> sum ?n {Suc 0..<?h}" by (rule sum_mono2) (use Suc in auto)
  finally show ?thesis by (simp add: walk_node_def)
qed

text \<open>
  C11: Damage to the Merkle tree is found, and it is local. Take any file of more than 128 chunks and
  replace the first node of the lowest level of its tree by any block with another hash. The verified
  reader is still created, every read of one of the 128 chunks below that node fails, and the read of
  the chunk after them succeeds: the expectation of the test, for every file, every damage and every
  schedule of short reads.
\<close>

theorem fsverity_verify_bad_merkle_tree_passes:
  assumes H: "sha256_lib ffi H" and c: "128 < num_chunks c" "length c \<le> 2 ^ 61"
    and b: "length b = CHUNK_SIZE" "H b \<noteq> H (page (layer H c 1) 0)"
    and t: "t = pwrite (tree_bytes H c) (CHUNK_SIZE * walk_node (length c) 0 0) b"
    and f: "opens open_file ''testdata/input.4m'' c" "opens open_file ''testdata/input.4m.merkle_dump.bad'' t"
      "opens open_file ''testdata/input.4m.fsv_sig'' sig"
    and bufs: "\<And>i. length (bufs i) = CHUNK_SIZE"
  shows "fsverity_verify_bad_merkle_tree dbg ffi open_file bufs = Ok ()"
proof -
  define m :: nat where "m = 4096 div 32"
  have m: "m = 128" by (simp add: m_def)
  let ?h = "tree_height (length c)" and ?p = "walk_node (length c) 0 0"
  have c0: "c \<noteq> []" using c(1) by auto
  have "CHUNK_SIZE * 128 < length c" using c(1) by (simp add: num_chunks_def less_ceil_div_iff)
  then have h: "0 < ?h" using tree_height_le_iff [of "length c" 0] c0 by (simp add: not_le)
  have ok: "node_ok H c t i x" if "i < num_chunks c" "x \<le> ?h" "0 < x \<or> 128 \<le> i" for i x
    unfolding t by (rule node_ok_other_page [OF H that(1,2) b(1) walk_node_first_leaf [OF H that]])
  have pos: "0 < num_chunks c" using c(1) by simp
  from new_reader_ok [OF H c0 ok [OF pos le_refl] f, of dbg] h obtain r fs where
    r: "new_reader_with_fsverity dbg ffi open_file ''testdata/input.4m'' ''testdata/input.4m.merkle_dump.bad''
        ''testdata/input.4m.fsv_sig'' = Ok (r, fs, length c)"
      "vr_file_size r = length c" "vr_root_hash r = verity_root H c"
    and s: "files_good fs (tst_files fs)" "contents (snd (tst_files fs)) = t" "contents (fst (tst_files fs)) = c"
    by auto
  let ?Q = "\<lambda>s. files_good fs s \<and> contents (snd s) = t \<and> contents (fst s) = c"
  have bp: "CHUNK_SIZE * ?p < length t" "b = take CHUNK_SIZE (drop (CHUNK_SIZE * ?p) t)"
    using b(1) by (auto simp: t length_pwrite pwrite_def CHUNK_SIZE_def)
  have "\<exists>s'. fold_prog (\<lambda>_ i. assert_read assert_err (test_read_chunk dbg ffi r fs i (bufs i))) () [0..<m] (tst_files fs) =
      (Ok (), s') \<and> ?Q s'"
  proof (rule fold_assert_read)
    fix i s
    assume im: "i \<in> set [0..<m]" and Q: "?Q s"
    have "i < m" using im by simp
    then have i: "i < num_chunks c" "i div 128 = 0" "walk_node (length c) i 0 = ?p"
      using c(1) m by (simp_all add: walk_node_def)
    have "node_ok H c t i 1" using ok [OF i(1)] h by simp
    from local_verity.verified_read_chunk_bad_leaf [where dbg = dbg and lf_dbg = dbg, OF H i(1) c(2) h this,
        of b r "tst_content fs" s "tst_tree fs" "bufs i"] b bp i r(2) Q bufs
    show "\<exists>s'. assert_read assert_err (test_read_chunk dbg ffi r fs i (bufs i)) s = (Ok (), s') \<and> ?Q s'"
      by (auto simp: assert_read_def test_read_chunk_def)
  qed (use s in simp)
  then obtain s1 where s1: "fold_prog (\<lambda>_ i. assert_read assert_err (test_read_chunk dbg ffi r fs i (bufs i))) ()
      [0..<m] (tst_files fs) = (Ok (), s1)" "?Q s1"
    by blast
  have "\<exists>s'. assert_read assert_ok (test_read_chunk dbg ffi r fs m (bufs m)) s1 = (Ok (), s')"
    using local_verity.verified_read_chunk_path [where dbg = dbg and lf_dbg = dbg, OF H c(1,2) ok [OF c(1)] r(2,3) _ _ _ _ refl,
        of "tst_content fs" s1 "tst_tree fs" "bufs m"] s1(2) bufs m
    by (auto simp: assert_read_def test_read_chunk_def)
  with r(1) s1(1) show ?thesis
    unfolding fsverity_verify_bad_merkle_tree_def m_def [symmetric] by auto
qed

section \<open>A damaged tree, concretely\<close>

text \<open>A file of 129 chunks of zeros, and its tree with the first node of the lowest level zeroed.\<close>

definition sample_content :: bytes where
  "sample_content = zeros (4096 * 129)"

definition sample_bad_tree :: bytes where
  "sample_bad_tree = pwrite (tree_bytes sample_hash sample_content)
     (CHUNK_SIZE * walk_node (length sample_content) 0 0) (zeros CHUNK_SIZE)"

definition sample_open :: open_fn where
  "sample_open path =
     Ok \<lparr>contents = (if path = ''testdata/input.4m'' then sample_content
                     else if path = ''testdata/input.4m.merkle_dump.bad'' then sample_bad_tree else []), schedule = []\<rparr>"

lemma sample_content_length: "length sample_content = 528384"
  by (simp add: sample_content_def)

lemma sample_content_chunks: "num_chunks sample_content = 129"
  unfolding num_chunks_def sample_content_length by (simp add: ceil_div_def CHUNK_SIZE_def)

lemma sample_content_height: "tree_height 528384 = 1"
proof (rule antisym)
  show "tree_height 528384 \<le> 1" by (subst tree_height_le_iff) (simp_all add: CHUNK_SIZE_def)
  have "\<not> tree_height 528384 \<le> 0" by (subst tree_height_le_iff) (simp_all add: CHUNK_SIZE_def)
  then show "1 \<le> tree_height 528384" by simp
qed

lemma sample_bad_tree_length: "length sample_bad_tree \<le> i64_max"
proof -
  have "length (tree_bytes sample_hash sample_content) = 3 * CHUNK_SIZE"
    by (simp add: length_tree_bytes tree_pages_def level_pages_def sample_content_height num_chunks_layer [OF sample_lib]
        sample_content_length ceil_div_def CHUNK_SIZE_def)
  moreover have "walk_node (length sample_content) 0 0 = 1"
    by (simp add: walk_node_def sample_content_length sample_content_height nodes_at_def ceil_div_def CHUNK_SIZE_def)
  ultimately show ?thesis by (simp add: sample_bad_tree_def length_pwrite CHUNK_SIZE_def i64_max_def)
qed

lemma sample_leaf_differs: "sample_hash (zeros CHUNK_SIZE) \<noteq> sample_hash (page (layer sample_hash sample_content 1) 0)"
proof
  let ?p = "page (layer sample_hash sample_content 1) 0"
  assume "sample_hash (zeros CHUNK_SIZE) = sample_hash ?p"
  then have "?p = zeros 4096" using sample_hash_values(2) [of ?p] sample_hash_at(2) by (simp add: CHUNK_SIZE_def)
  then have "take HASH_SIZE (drop 0 ?p) = zeros HASH_SIZE" by (simp add: HASH_SIZE_def zeros_def)
  moreover have "take HASH_SIZE (drop 0 ?p) = sample_hash (page sample_content 0)"
    using hash_in_node [OF sample_lib, of 0 sample_content] by (simp add: layer_Suc sample_content_chunks)
  ultimately have "sample_hash (page sample_content 0) ! 0 = zeros HASH_SIZE ! 0" by simp
  then show False
    by (simp add: sample_hash_def sample_root_def HASH_OF_4096_ZEROS_def HASH_SIZE_def split: if_splits)
qed

theorem fsverity_verify_bad_merkle_tree_passes_witness:
  "fsverity_verify_bad_merkle_tree True sample_ffi sample_open (\<lambda>_. zeros 4096) = Ok ()"
proof (rule fsverity_verify_bad_merkle_tree_passes [OF sample_lib _ _ _ sample_leaf_differs])
  show "128 < num_chunks sample_content" "length sample_content \<le> 2 ^ 61"
    by (simp_all add: sample_content_chunks sample_content_length)
  show "opens sample_open ''testdata/input.4m'' sample_content"
    by (simp add: opens_def sample_open_def benign_def sample_content_length i64_max_def)
  show "opens sample_open ''testdata/input.4m.merkle_dump.bad'' sample_bad_tree"
    using sample_bad_tree_length by (simp add: opens_def sample_open_def benign_def)
  show "opens sample_open ''testdata/input.4m.fsv_sig'' []"
    by (simp add: opens_def sample_open_def benign_def i64_max_def)
qed (simp_all add: sample_bad_tree_def CHUNK_SIZE_def)

end
