(* ===== verification/ZipInode.thy ===== *)
theory ZipInode
  imports OsFile "HOL-Library.AList" "HOL-Library.Sublist"
begin

unbundle bit_operations_syntax

text \<open>
  \<^verbatim>\<open>zipfuse/src/inode.rs\<close>: the inode table built from a zip archive.

  The \<^verbatim>\<open>zip\<close> crate is a parameter: an archive is the list of the results of \<open>by_index\<close>, an
  entry gives what the code asks of a \<open>ZipFile\<close>. A directory's hash table is an association
  list, in the order of insertion.

  The table refines a finite map from paths to inodes without their entries
  (\<open>view\<close>): adding an archive entry updates the map as \<open>spec_add\<close> says.
\<close>

section \<open>Definitions\<close>

type_synonym Inode = nat

definition INVALID :: Inode where "INVALID = 0"
definition ROOT :: Inode where "ROOT = 1"

datatype InodeKind = DirectoryKind | FileKind

record DirectoryEntry =
  de_inode :: Inode
  de_kind :: InodeKind

datatype InodeDataData = Directory "(string \<times> DirectoryEntry) list" | ZFile nat

record InodeData =
  id_size :: nat
  id_mode :: u32
  id_data :: InodeDataData

record InodeTable =
  table :: "InodeData list"

text \<open>What the code asks of the zip crate.\<close>

record ZipFile =
  enclosed_name :: "string list option"
  zf_is_file :: bool
  unix_mode :: "u32 option"
  zf_size :: nat
  zf_contents :: "(bytes, io_error) outcome"

type_synonym ZipArchive = "(ZipFile, io_error) outcome list"

datatype zip_error = ZipFailure io_error | InvalidName | DotDotNotAllowed

definition unwrap_or :: "'a \<Rightarrow> 'a option \<Rightarrow> 'a" where
  "unwrap_or d x = (case x of None \<Rightarrow> d | Some a \<Rightarrow> a)"

definition is_dir :: "InodeData \<Rightarrow> bool" where
  "is_dir d = (case id_data d of Directory _ \<Rightarrow> True | ZFile _ \<Rightarrow> False)"

definition get_directory :: "InodeData \<Rightarrow> (string \<times> DirectoryEntry) list option" where
  "get_directory d = (case id_data d of Directory hash \<Rightarrow> Some hash | ZFile _ \<Rightarrow> None)"

definition get_zip_index :: "InodeData \<Rightarrow> nat option" where
  "get_zip_index d = (case id_data d of ZFile zip_index \<Rightarrow> Some zip_index | Directory _ \<Rightarrow> None)"

definition new_dir :: "u32 \<Rightarrow> InodeData" where
  "new_dir mode = \<lparr>id_size = 0, id_mode = mode, id_data = Directory []\<rparr>"

definition new_file :: "nat \<Rightarrow> ZipFile \<Rightarrow> InodeData" where
  "new_file zip_index zip_file =
     \<lparr>id_size = zf_size zip_file, id_mode = unwrap_or 0 (unix_mode zip_file), id_data = ZFile zip_index\<rparr>"

definition add_to_directory :: "string \<Rightarrow> DirectoryEntry \<Rightarrow> InodeData \<Rightarrow> (InodeData, 'e) outcome" where
  "add_to_directory name entry d =
     (case id_data d of
        Directory hashtable \<Rightarrow>
          and_then (assertion (map_of hashtable name = None)) (\<lambda>_.
          Ok (d\<lparr>id_data := Directory (AList.update name entry hashtable)\<rparr>))
      | ZFile _ \<Rightarrow> Panic)"

definition it_get :: "InodeTable \<Rightarrow> Inode \<Rightarrow> InodeData option" where
  "it_get t inode =
     (if inode = INVALID then None
      else if inode < length (table t) then Some (table t ! inode) else None)"

text \<open>\<open>get_mut(inode).unwrap()\<close> and a change of what it refers to.\<close>

definition it_update :: "Inode \<Rightarrow> (InodeData \<Rightarrow> (InodeData, 'e) outcome) \<Rightarrow> InodeTable \<Rightarrow> (InodeTable, 'e) outcome" where
  "it_update inode f t =
     and_then (unwrap (it_get t inode)) (\<lambda>d.
     and_then (f d) (\<lambda>d'. Ok (t\<lparr>table := (table t)[inode := d']\<rparr>)))"

definition it_put :: "InodeTable \<Rightarrow> InodeData \<Rightarrow> Inode \<times> InodeTable" where
  "it_put t data = (length (table t), t\<lparr>table := table t @ [data]\<rparr>)"

definition it_find :: "InodeTable \<Rightarrow> Inode \<Rightarrow> string \<Rightarrow> (Inode option, 'e) outcome" where
  "it_find t parent name =
     and_then (unwrap (it_get t parent)) (\<lambda>data.
     and_then (unwrap (get_directory data)) (\<lambda>hash.
     Ok (case map_of hash name of Some entry \<Rightarrow> Some (de_inode entry) | None \<Rightarrow> None)))"

definition it_add :: "InodeTable \<Rightarrow> Inode \<Rightarrow> string \<Rightarrow> InodeData \<Rightarrow> (Inode \<times> InodeTable, 'e) outcome" where
  "it_add t parent name data =
     and_then (it_find t parent name) (\<lambda>found.
     and_then (assertion (found = None)) (\<lambda>_.
     let kind = (if is_dir data then DirectoryKind else FileKind);
         (inode, t1) = it_put t data
     in and_then (it_update parent (add_to_directory name \<lparr>de_inode = inode, de_kind = kind\<rparr>) t1) (\<lambda>t2.
        Ok (inode, t2))))"

definition DEFAULT_DIR_MODE :: u32 where "DEFAULT_DIR_MODE = S_IRUSR OR S_IXUSR"

text \<open>\<open>CString::new(name).unwrap()\<close>\<close>

definition cstring_new :: "string \<Rightarrow> (string, 'e) outcome" where
  "cstring_new name = (if CHR 0x00 \<in> set name then Panic else Ok name)"

text \<open>The \<open>while let\<close> loop over the components of a path.\<close>

fun add_path :: "nat \<Rightarrow> ZipFile \<Rightarrow> Inode \<Rightarrow> string list \<Rightarrow> InodeTable \<Rightarrow> (InodeTable, zip_error) outcome" where
  "add_path i file parent [] t = Ok t"
| "add_path i file parent (name # rest) t =
     (if name = ''..'' then Err DotDotNotAllowed
      else
        let is_leaf = (rest = []); is_file = (zf_is_file file \<and> is_leaf)
        in and_then (cstring_new name) (\<lambda>name.
           and_then (it_find t parent name) (\<lambda>found.
           case found of
             Some p \<Rightarrow>
               and_then
                 (if \<not> is_file \<and> is_leaf
                  then it_update p (\<lambda>inode. Ok (inode\<lparr>id_mode := unwrap_or 0 (unix_mode file)\<rparr>)) t
                  else Ok t) (\<lambda>t'.
               add_path i file p rest t')
           | None \<Rightarrow>
               let inode = (if is_file then new_file i file
                            else if is_leaf then new_dir (unwrap_or DEFAULT_DIR_MODE (unix_mode file))
                            else new_dir DEFAULT_DIR_MODE)
               in and_then (it_add t parent name inode) (\<lambda>(new, t').
                  add_path i file new rest t'))))"

definition add_entry :: "nat \<Rightarrow> (ZipFile, io_error) outcome \<Rightarrow> InodeTable \<Rightarrow> (InodeTable, zip_error) outcome" where
  "add_entry i entry t =
     and_then (map_err ZipFailure entry) (\<lambda>file.
     and_then (ok_or InvalidName (enclosed_name file)) (\<lambda>path.
     add_path i file ROOT path t))"

fun add_entries :: "nat \<Rightarrow> ZipArchive \<Rightarrow> InodeTable \<Rightarrow> (InodeTable, zip_error) outcome" where
  "add_entries i [] t = Ok t"
| "add_entries i (entry # archive) t = and_then (add_entry i entry t) (add_entries (Suc i) archive)"

definition from_zip :: "ZipArchive \<Rightarrow> (InodeTable, zip_error) outcome" where
  "from_zip archive =
     (let (i0, t0) = it_put \<lparr>table = []\<rparr> (new_dir 0); (i1, t1) = it_put t0 (new_dir 0)
      in and_then (assertion (INVALID = i0)) (\<lambda>_.
         and_then (assertion (ROOT = i1)) (\<lambda>_.
         add_entries 0 archive t1)))"

section \<open>Paths\<close>

definition child :: "InodeTable \<Rightarrow> Inode \<Rightarrow> string \<Rightarrow> Inode option" where
  "child t parent name =
     (case it_get t parent of
        None \<Rightarrow> None
      | Some d \<Rightarrow> (case get_directory d of None \<Rightarrow> None | Some h \<Rightarrow> map_option de_inode (map_of h name)))"

fun resolve :: "InodeTable \<Rightarrow> Inode \<Rightarrow> string list \<Rightarrow> Inode option" where
  "resolve t n [] = Some n"
| "resolve t n (x # xs) = (case child t n x of None \<Rightarrow> None | Some m \<Rightarrow> resolve t m xs)"

text \<open>An inode without its entries, and the map from paths to inodes.\<close>

definition strip :: "InodeData \<Rightarrow> InodeData" where
  "strip d = d\<lparr>id_data := (case id_data d of Directory _ \<Rightarrow> Directory [] | ZFile i \<Rightarrow> ZFile i)\<rparr>"

definition view :: "InodeTable \<Rightarrow> string list \<Rightarrow> InodeData option" where
  "view t p = map_option (\<lambda>n. strip (table t ! n)) (resolve t ROOT p)"

definition kind_of :: "InodeData \<Rightarrow> InodeKind" where
  "kind_of d = (if is_dir d then DirectoryKind else FileKind)"

text \<open>The invariant of the table: entries point to later inodes of the recorded kind, names are
  distinct, and no inode has two names.\<close>

definition entries_ok :: "InodeTable \<Rightarrow> bool" where
  "entries_ok t \<longleftrightarrow>
     (\<forall>n h. n < length (table t) \<longrightarrow> get_directory (table t ! n) = Some h \<longrightarrow>
        distinct (map fst h) \<and>
        (\<forall>(x, e) \<in> set h. ROOT < de_inode e \<and> n < de_inode e \<and> de_inode e < length (table t) \<and>
                     de_kind e = kind_of (table t ! de_inode e)))"

definition one_name :: "InodeTable \<Rightarrow> bool" where
  "one_name t \<longleftrightarrow>
     (\<forall>n n' x x' m. child t n x = Some m \<longrightarrow> child t n' x' = Some m \<longrightarrow> n = n' \<and> x = x')"

definition table_ok :: "InodeTable \<Rightarrow> bool" where
  "table_ok t \<longleftrightarrow> ROOT < length (table t) \<and> is_dir (table t ! ROOT) \<and> entries_ok t \<and> one_name t"

lemma INVALID_0 [simp]: "INVALID = 0" and ROOT_pos [simp]: "0 < ROOT" "ROOT \<noteq> 0"
  by (simp_all add: INVALID_def ROOT_def)

lemma get_directory_Some_iff: "get_directory d = Some h \<longleftrightarrow> id_data d = Directory h"
  by (auto simp: get_directory_def split: InodeDataData.splits)

lemma is_dir_iff: "is_dir d \<longleftrightarrow> (\<exists>h. get_directory d = Some h)"
  by (auto simp: is_dir_def get_directory_def split: InodeDataData.splits)

lemma child_Some_iff:
  "child t n x = Some m \<longleftrightarrow>
     (\<exists>d h e. it_get t n = Some d \<and> get_directory d = Some h \<and> map_of h x = Some e \<and> m = de_inode e)"
  by (auto simp: child_def split: option.splits)

lemma it_get_Some_iff: "it_get t n = Some d \<longleftrightarrow> 0 < n \<and> n < length (table t) \<and> d = table t ! n"
  by (auto simp: it_get_def)

lemma entries_okD:
  assumes "entries_ok t" and "n < length (table t)" and "get_directory (table t ! n) = Some h"
  shows "distinct (map fst h)"
    and "map_of h x = Some e \<Longrightarrow> ROOT < de_inode e \<and> n < de_inode e \<and> de_inode e < length (table t) \<and>
      de_kind e = kind_of (table t ! de_inode e)"
proof -
  have all: "distinct (map fst h) \<and> (\<forall>(x, e) \<in> set h. ROOT < de_inode e \<and> n < de_inode e \<and>
      de_inode e < length (table t) \<and> de_kind e = kind_of (table t ! de_inode e))"
    by (rule assms(1) [unfolded entries_ok_def, THEN spec, THEN spec, THEN mp, THEN mp, OF assms(2,3)])
  then show "distinct (map fst h)" by (rule conjunct1)
  show "map_of h x = Some e \<Longrightarrow> ROOT < de_inode e \<and> n < de_inode e \<and> de_inode e < length (table t) \<and>
      de_kind e = kind_of (table t ! de_inode e)"
    using bspec [OF conjunct2 [OF all] map_of_SomeD, of x e] by simp
qed

lemma child_bounds:
  assumes "entries_ok t" and "child t n x = Some m"
  shows "n < m" "ROOT < m" "m < length (table t)" "0 < n" "n < length (table t)"
proof -
  obtain h e where c: "0 < n" "n < length (table t)" "get_directory (table t ! n) = Some h"
    "map_of h x = Some e" "m = de_inode e"
    using assms(2) unfolding child_Some_iff it_get_Some_iff by blast
  show "n < m" "ROOT < m" "m < length (table t)" "0 < n" "n < length (table t)"
    using entries_okD(2) [OF assms(1) c(2,3,4)] c by simp_all
qed

lemma resolve_append: "resolve t n (p @ q) = (case resolve t n p of None \<Rightarrow> None | Some m \<Rightarrow> resolve t m q)"
  by (induction p arbitrary: n) (auto split: option.splits)

lemma resolve_snoc:
  "resolve t n (p @ [x]) = Some m \<longleftrightarrow> (\<exists>k. resolve t n p = Some k \<and> child t k x = Some m)"
  by (simp add: resolve_append split: option.splits)

lemma resolve_bounds:
  assumes "table_ok t" and "resolve t ROOT p = Some n"
  shows "0 < n" "n < length (table t)" "p \<noteq> [] \<Longrightarrow> ROOT < n"
proof -
  have "0 < n \<and> n < length (table t) \<and> (p \<noteq> [] \<longrightarrow> ROOT < n)"
  proof (cases p rule: rev_cases)
    case Nil
    with assms show ?thesis by (auto simp: table_ok_def)
  next
    case (snoc q x)
    with assms(2) obtain k where "child t k x = Some n" by (auto simp: resolve_snoc)
    with assms(1) child_bounds [of t k x n] show ?thesis by (auto simp: table_ok_def)
  qed
  then show "0 < n" "n < length (table t)" "p \<noteq> [] \<Longrightarrow> ROOT < n" by auto
qed

lemma resolve_inj:
  assumes ok: "table_ok t"
  shows "resolve t ROOT p = Some n \<Longrightarrow> resolve t ROOT q = Some n \<Longrightarrow> p = q"
proof (induction p arbitrary: q n rule: rev_induct)
  case Nil
  then show ?case using resolve_bounds(3) [OF ok Nil.prems(2)] by auto
next
  case (snoc x p)
  have "q \<noteq> []" using snoc.prems resolve_bounds(3) [OF ok snoc.prems(1)] by auto
  then obtain y q' where q: "q = q' @ [y]" by (cases q rule: rev_cases) auto
  obtain m where m: "resolve t ROOT p = Some m" "child t m x = Some n"
    using snoc.prems(1) unfolding resolve_snoc by blast
  obtain m' where m': "resolve t ROOT q' = Some m'" "child t m' y = Some n"
    using snoc.prems(2) unfolding q resolve_snoc by blast
  have "m = m'" "x = y"
    using ok m(2) m'(2) unfolding table_ok_def one_name_def by blast+
  then show ?case
    using snoc.IH [OF m(1)] m'(1) q by simp
qed

lemma resolve_snoc_case:
  "resolve t n (p @ [x]) = (case resolve t n p of None \<Rightarrow> None | Some k \<Rightarrow> child t k x)"
  by (simp add: resolve_append split: option.splits)

lemma it_find_child:
  assumes "0 < n" and "n < length (table t)"
  shows "it_find t n x = (if is_dir (table t ! n) then Ok (child t n x) else Panic)"
  using assms
  by (auto simp: it_find_def it_get_def child_def is_dir_def get_directory_def split: InodeDataData.splits option.splits)

section \<open>Changing the mode\<close>

definition set_mode :: "InodeTable \<Rightarrow> Inode \<Rightarrow> u32 \<Rightarrow> InodeTable" where
  "set_mode t n mode = t\<lparr>table := (table t)[n := (table t ! n)\<lparr>id_mode := mode\<rparr>]\<rparr>"

lemma it_update_mode:
  "0 < n \<Longrightarrow> n < length (table t) \<Longrightarrow>
   it_update n (\<lambda>inode. Ok (inode\<lparr>id_mode := mode\<rparr>)) t = Ok (set_mode t n mode)"
  by (simp add: it_update_def it_get_def set_mode_def)

lemma nth_set_mode:
  "n < length (table t) \<Longrightarrow>
   table (set_mode t n mode) ! k = (if k = n then (table t ! n)\<lparr>id_mode := mode\<rparr> else table t ! k)"
  by (auto simp: set_mode_def nth_list_update)

lemma length_set_mode [simp]: "length (table (set_mode t n mode)) = length (table t)"
  by (simp add: set_mode_def)

lemma get_directory_set_mode [simp]:
  "n < length (table t) \<Longrightarrow> get_directory (table (set_mode t n mode) ! k) = get_directory (table t ! k)"
  by (simp add: nth_set_mode get_directory_def)

lemma child_set_mode [simp]: "n < length (table t) \<Longrightarrow> child (set_mode t n mode) k x = child t k x"
  by (simp add: child_def it_get_def)

lemma resolve_set_mode [simp]: "n < length (table t) \<Longrightarrow> resolve (set_mode t n mode) k p = resolve t k p"
  by (induction p arbitrary: k) (simp_all split: option.splits)

lemma kind_of_set_mode [simp]:
  "n < length (table t) \<Longrightarrow> kind_of (table (set_mode t n mode) ! k) = kind_of (table t ! k)"
  by (simp add: kind_of_def is_dir_iff)

lemma table_ok_set_mode: "n < length (table t) \<Longrightarrow> table_ok t \<Longrightarrow> table_ok (set_mode t n mode)"
  by (simp add: table_ok_def entries_ok_def one_name_def is_dir_iff)

lemma view_set_mode:
  assumes "table_ok t" and "resolve t ROOT p = Some n"
  shows "view (set_mode t n mode) = (view t)(p \<mapsto> (strip (table t ! n))\<lparr>id_mode := mode\<rparr>)"
proof
  fix q
  have n: "n < length (table t)" using resolve_bounds(2) [OF assms] .
  show "view (set_mode t n mode) q = ((view t)(p \<mapsto> (strip (table t ! n))\<lparr>id_mode := mode\<rparr>)) q"
  proof (cases "resolve t ROOT q")
    case None
    with assms(2) n show ?thesis by (auto simp: view_def)
  next
    case (Some k)
    then have "k = n \<longleftrightarrow> q = p" using resolve_inj [OF assms(1) Some, of p] assms(2) Some by auto
    with Some n show ?thesis by (simp add: view_def nth_set_mode strip_def)
  qed
qed

section \<open>Adding an inode\<close>

text \<open>The table with a new inode linked to the directory \<open>n\<close> under the name \<open>x\<close>.\<close>

definition linked :: "InodeTable \<Rightarrow> Inode \<Rightarrow> string \<Rightarrow> InodeData \<Rightarrow> (string \<times> DirectoryEntry) list \<Rightarrow> InodeTable" where
  "linked t n x data h =
     t\<lparr>table := (table t @ [data])[n := (table t ! n)\<lparr>id_data :=
         Directory (h @ [(x, \<lparr>de_inode = length (table t), de_kind = kind_of data\<rparr>)])\<rparr>]\<rparr>"

lemma AList_update_new: "map_of h x = None \<Longrightarrow> AList.update x e h = h @ [(x, e)]"
  by (induction h) (auto split: if_splits)

lemma it_add_linked:
  assumes "0 < n" "n < length (table t)" and "get_directory (table t ! n) = Some h" and "map_of h x = None"
  shows "it_add t n x data = Ok (length (table t), linked t n x data h)"
  using assms
  by (simp add: it_add_def it_find_def it_put_def it_update_def it_get_def add_to_directory_def nth_append
      get_directory_def AList_update_new linked_def kind_of_def split: InodeDataData.splits)

lemma nth_linked:
  "n < length (table t) \<Longrightarrow> k \<le> length (table t) \<Longrightarrow> table (linked t n x data h) ! k =
     (if k = n then (table t ! n)\<lparr>id_data :=
         Directory (h @ [(x, \<lparr>de_inode = length (table t), de_kind = kind_of data\<rparr>)])\<rparr>
      else if k = length (table t) then data else table t ! k)"
  by (auto simp: linked_def nth_list_update nth_append)

lemma length_linked [simp]: "length (table (linked t n x data h)) = Suc (length (table t))"
  by (simp add: linked_def)

lemma child_linked:
  assumes "0 < n" "n < length (table t)" and "get_directory (table t ! n) = Some h" and "map_of h x = None"
    and "strip data = data"
  shows "child (linked t n x data h) k y = (if k = n \<and> y = x then Some (length (table t)) else child t k y)"
proof -
  have "child (linked t n x data h) k y = None" "child t k y = None" if "k = length (table t)"
    using assms that
    by (auto simp: child_def it_get_def nth_linked get_directory_def strip_def split: InodeDataData.splits
        dest!: arg_cong [where f = id_data])
  moreover have "child (linked t n x data h) k y = (if y = x then Some (length (table t)) else child t k y)" if "k = n"
    using assms that
    by (simp add: child_def it_get_def nth_linked get_directory_def map_add_def split: InodeDataData.splits option.splits)
  moreover have "child (linked t n x data h) k y = child t k y" if "k \<noteq> n" "k \<noteq> length (table t)"
    using assms(1,2) that by (simp add: child_def it_get_def nth_linked)
  ultimately show ?thesis using assms(2) by (cases "k = length (table t)"; cases "k = n") simp_all
qed

lemma kind_of_linked:
  assumes "n < length (table t)" and "get_directory (table t ! n) = Some h" and "k < length (table t)"
  shows "kind_of (table (linked t n x data h) ! k) = kind_of (table t ! k)"
  using assms by (auto simp: nth_linked kind_of_def is_dir_def get_directory_def split: InodeDataData.splits)

lemma entries_ok_linked:
  assumes ok: "entries_ok t" and r: "ROOT < length (table t)" and n: "0 < n" "n < length (table t)"
    and h: "get_directory (table t ! n) = Some h" "map_of h x = None" and data: "strip data = data"
  shows "entries_ok (linked t n x data h)"
  unfolding entries_ok_def
proof (intro allI impI)
  fix k g
  assume k: "k < length (table (linked t n x data h))" and g: "get_directory (table (linked t n x data h) ! k) = Some g"
  let ?P = "\<lambda>e. ROOT < de_inode e \<and> k < de_inode e \<and> de_inode e < length (table (linked t n x data h)) \<and>
      de_kind e = kind_of (table (linked t n x data h) ! de_inode e)"
  have old: "?P e" if "get_directory (table t ! k) = Some g'" "(y, e) \<in> set g'" "k < length (table t)" for g' y e
  proof -
    have "map_of g' y = Some e"
      using that entries_okD(1) [OF ok that(3,1)] by simp
    from entries_okD(2) [OF ok that(3,1) this] show ?thesis
      by (simp add: kind_of_linked [OF n(2) h(1)])
  qed
  consider "k = n" | "k = length (table t)" | "k < length (table t)" "k \<noteq> n"
    using k by fastforce
  then show "distinct (map fst g) \<and> (\<forall>(y, e) \<in> set g. ?P e)"
  proof cases
    case 1
    let ?e = "\<lparr>de_inode = length (table t), de_kind = kind_of data\<rparr>"
    have g': "g = h @ [(x, ?e)]"
      using g 1 n by (simp add: nth_linked get_directory_def)
    have "?P ?e" using 1 n r by (simp add: nth_linked)
    moreover have "x \<notin> fst ` set h" using h(2) by (simp add: map_of_eq_None_iff)
    ultimately show ?thesis
      using g' entries_okD(1) [OF ok n(2) h(1)] old [of h] h(1) n 1 by auto
  next
    case 2
    then have "g = []"
      using g n data by (auto simp: nth_linked get_directory_def strip_def split: InodeDataData.splits
          dest!: arg_cong [where f = id_data])
    then show ?thesis by simp
  next
    case 3
    then have "get_directory (table t ! k) = Some g" using g n by (simp add: nth_linked)
    with old [OF this] entries_okD(1) [OF ok 3(1) this] 3 show ?thesis by blast
  qed
qed

lemma table_ok_linked:
  assumes ok: "table_ok t" and n: "0 < n" "n < length (table t)"
    and h: "get_directory (table t ! n) = Some h" "map_of h x = None" and data: "strip data = data"
  shows "table_ok (linked t n x data h)"
proof -
  have e: "entries_ok t" and o: "one_name t" and r: "ROOT < length (table t)" "is_dir (table t ! ROOT)"
    using ok by (simp_all add: table_ok_def)
  have new: "child t k y \<noteq> Some (length (table t))" for k y
    using child_bounds(3) [OF e] by blast
  have "one_name (linked t n x data h)"
    unfolding one_name_def child_linked [OF n h data]
    using o new by (auto simp: one_name_def split: if_splits)
  moreover have "is_dir (table (linked t n x data h) ! ROOT)"
    using r n by (simp add: nth_linked is_dir_def)
  ultimately show ?thesis
    using entries_ok_linked [OF e r(1) n h data] r by (simp add: table_ok_def less_SucI)
qed

lemma resolve_linked:
  assumes ok: "table_ok t" and p: "resolve t ROOT p = Some n"
    and h: "get_directory (table t ! n) = Some h" "map_of h x = None" and data: "strip data = data"
  shows "resolve (linked t n x data h) ROOT q = (if q = p @ [x] then Some (length (table t)) else resolve t ROOT q)"
proof (induction q rule: rev_induct)
  case Nil
  then show ?case by simp
next
  case (snoc y q)
  note n = resolve_bounds(1,2) [OF ok p]
  note child = child_linked [OF n h data]
  have free: "child t n x = None" using h n by (simp add: child_def it_get_def)
  have beyond: "child t (length (table t)) y = None" by (simp add: child_def it_get_def)
  show ?case
  proof (cases "q = p @ [x]")
    case True
    with snoc have "resolve (linked t n x data h) ROOT q = Some (length (table t))" by simp
    then have "resolve (linked t n x data h) ROOT (q @ [y]) = None"
      using beyond n by (simp add: resolve_snoc_case child)
    moreover have "resolve t ROOT (q @ [y]) = None"
      using True free p unfolding resolve_snoc_case [of t ROOT q y] by (simp add: resolve_snoc_case)
    ultimately show ?thesis using True by simp
  next
    case False
    with snoc have IH: "resolve (linked t n x data h) ROOT q = resolve t ROOT q" by simp
    show ?thesis
    proof (cases "resolve t ROOT q")
      case None
      with IH p show ?thesis by (auto simp: resolve_snoc_case)
    next
      case (Some k)
      then have k: "k = n \<longleftrightarrow> q = p" using resolve_inj [OF ok Some, of p] p Some by auto
      have "resolve (linked t n x data h) ROOT (q @ [y]) = child (linked t n x data h) k y"
        "resolve t ROOT (q @ [y]) = child t k y"
        using IH Some by (simp_all add: resolve_snoc_case)
      then show ?thesis by (simp add: child k)
    qed
  qed
qed

lemma view_linked:
  assumes ok: "table_ok t" and p: "resolve t ROOT p = Some n"
    and h: "get_directory (table t ! n) = Some h" "map_of h x = None" and data: "strip data = data"
  shows "view (linked t n x data h) = (view t)(p @ [x] \<mapsto> data)"
proof
  fix q
  note n = resolve_bounds(1,2) [OF ok p]
  show "view (linked t n x data h) q = ((view t)(p @ [x] \<mapsto> data)) q"
  proof (cases "q = p @ [x]")
    case True
    with n data show ?thesis by (simp add: view_def resolve_linked [OF ok p h data] nth_linked)
  next
    case False
    have "strip (table (linked t n x data h) ! k) = strip (table t ! k)" if "k < length (table t)" for k
      using that n h by (simp add: nth_linked strip_def get_directory_Some_iff)
    with False resolve_bounds(2) [OF ok, of q] show ?thesis
      by (cases "resolve t ROOT q") (simp_all add: view_def resolve_linked [OF ok p h data])
  qed
qed

section \<open>The table refines a map from paths\<close>

definition entry_node :: "nat \<Rightarrow> ZipFile \<Rightarrow> string list \<Rightarrow> string list \<Rightarrow> InodeData" where
  "entry_node i file path q =
     (if q = path \<and> zf_is_file file then new_file i file
      else if q = path then new_dir (unwrap_or DEFAULT_DIR_MODE (unix_mode file))
      else new_dir DEFAULT_DIR_MODE)"

definition entry_update :: "nat \<Rightarrow> ZipFile \<Rightarrow> string list \<Rightarrow> string list \<Rightarrow> InodeData option \<Rightarrow> InodeData" where
  "entry_update i file path q old =
     (case old of
        None \<Rightarrow> entry_node i file path q
      | Some d \<Rightarrow> if q = path \<and> \<not> zf_is_file file then d\<lparr>id_mode := unwrap_or 0 (unix_mode file)\<rparr> else d)"

definition spec_from ::
  "nat \<Rightarrow> ZipFile \<Rightarrow> string list \<Rightarrow> string list \<Rightarrow> (string list \<rightharpoonup> InodeData) \<Rightarrow> (string list \<rightharpoonup> InodeData)" where
  "spec_from i file pre rest m =
     (\<lambda>q. if strict_prefix pre q \<and> prefix q (pre @ rest) then Some (entry_update i file (pre @ rest) q (m q)) else m q)"

abbreviation spec_add ::
  "nat \<Rightarrow> ZipFile \<Rightarrow> string list \<Rightarrow> (string list \<rightharpoonup> InodeData) \<Rightarrow> (string list \<rightharpoonup> InodeData)" where
  "spec_add i file path \<equiv> spec_from i file [] path"

lemma prefix_step:
  "strict_prefix pre q \<and> prefix q (pre @ x # xs) \<longleftrightarrow>
   q = pre @ [x] \<or> (strict_prefix (pre @ [x]) q \<and> prefix q (pre @ x # xs))"
proof
  assume a: "strict_prefix pre q \<and> prefix q (pre @ x # xs)"
  then obtain y ys where q: "q = pre @ y # ys" by (auto elim!: strict_prefixE')
  with a show "q = pre @ [x] \<or> (strict_prefix (pre @ [x]) q \<and> prefix q (pre @ x # xs))"
    by (cases ys) (auto simp: strict_prefix_def)
qed (auto simp: strict_prefix_def prefix_def)

lemma spec_from_Nil: "spec_from i file pre [] m = m"
  by (auto simp: spec_from_def fun_eq_iff strict_prefix_def dest: prefix_order.antisym)

lemma spec_from_Cons:
  "spec_from i file pre (x # xs) m =
   spec_from i file (pre @ [x]) xs (m(pre @ [x] \<mapsto> entry_update i file (pre @ x # xs) (pre @ [x]) (m (pre @ [x]))))"
proof
  fix q
  show "spec_from i file pre (x # xs) m q =
    spec_from i file (pre @ [x]) xs (m(pre @ [x] \<mapsto> entry_update i file (pre @ x # xs) (pre @ [x]) (m (pre @ [x])))) q"
    using prefix_step [of pre q x xs] by (cases "q = pre @ [x]") (simp_all add: spec_from_def)
qed

lemma strip_new [simp]: "strip (entry_node i file path q) = entry_node i file path q"
  by (simp add: entry_node_def strip_def new_dir_def new_file_def)

lemma is_dir_strip [simp]: "is_dir (strip d) = is_dir d"
  by (simp add: is_dir_def strip_def split: InodeDataData.splits)

lemma view_Some: "resolve t ROOT p = Some n \<Longrightarrow> view t p = Some (strip (table t ! n))"
  by (simp add: view_def)

text \<open>One component of a path: found, or added.\<close>

lemma add_path_step:
  assumes ok: "table_ok t" and pre: "resolve t ROOT pre = Some n"
    and dd: "x \<noteq> ''..''" and nul: "CHR 0x00 \<notin> set x" and dir: "is_dir (table t ! n)"
  shows "\<exists>m t1. add_path i file n (x # xs) t = add_path i file m xs t1 \<and> table_ok t1 \<and>
    resolve t1 ROOT (pre @ [x]) = Some m \<and>
    view t1 = (view t)(pre @ [x] \<mapsto> entry_update i file (pre @ x # xs) (pre @ [x]) (view t (pre @ [x])))"
proof -
  note n = resolve_bounds(1,2) [OF ok pre]
  have find: "it_find t n x = (Ok (child t n x) :: (Inode option, zip_error) outcome)"
    using it_find_child [OF n, of x] dir by simp
  show ?thesis
  proof (cases "child t n x")
    case (Some m)
    then have m: "resolve t ROOT (pre @ [x]) = Some m" using pre by (simp add: resolve_snoc_case)
    note mb = resolve_bounds(1,2) [OF ok m]
    show ?thesis
    proof (cases "xs = [] \<and> \<not> zf_is_file file")
      case True
      with find Some dd nul mb m table_ok_set_mode [OF mb(2) ok] view_set_mode [OF ok m] view_Some [OF m] show ?thesis
        by (auto simp: cstring_new_def it_update_mode entry_update_def)
    next
      case False
      with find Some dd nul view_Some [OF m] have "add_path i file n (x # xs) t = add_path i file m xs t"
        "view t = (view t)(pre @ [x] \<mapsto> entry_update i file (pre @ x # xs) (pre @ [x]) (view t (pre @ [x])))"
        by (auto simp: cstring_new_def entry_update_def fun_upd_idem)
      with ok m show ?thesis by blast
    qed
  next
    case None
    let ?d = "entry_node i file (pre @ x # xs) (pre @ [x])"
    obtain h where h: "get_directory (table t ! n) = Some h" "map_of h x = None"
      using dir None n by (auto simp: is_dir_iff child_def it_get_def)
    have "view t (pre @ [x]) = None" using None pre by (simp add: view_def resolve_snoc_case)
    then have "view (linked t n x ?d h) =
        (view t)(pre @ [x] \<mapsto> entry_update i file (pre @ x # xs) (pre @ [x]) (view t (pre @ [x])))"
      using view_linked [OF ok pre h, of ?d] by (simp add: entry_update_def)
    moreover have "resolve (linked t n x ?d h) ROOT (pre @ [x]) = Some (length (table t))"
      using resolve_linked [OF ok pre h, of ?d "pre @ [x]"] by simp
    moreover have "table_ok (linked t n x ?d h)" by (rule table_ok_linked [OF ok n h]) simp
    moreover have "add_path i file n (x # xs) t = add_path i file (length (table t)) xs (linked t n x ?d h)"
      using find None dd nul by (auto simp: cstring_new_def entry_node_def Let_def it_add_linked [OF n h])
    ultimately show ?thesis by blast
  qed
qed

lemma add_path_refines:
  "table_ok t \<Longrightarrow> resolve t ROOT pre = Some n \<Longrightarrow> add_path i file n rest t = Ok t' \<Longrightarrow>
   table_ok t' \<and> view t' = spec_from i file pre rest (view t)"
proof (induction rest arbitrary: pre n t)
  case Nil
  then show ?case by (simp add: spec_from_Nil)
next
  case (Cons x xs)
  note n = resolve_bounds(1,2) [OF Cons.prems(1,2)]
  have "x \<noteq> ''..''" "CHR 0x00 \<notin> set x" "is_dir (table t ! n)"
    using Cons.prems(3) it_find_child [OF n, of x, where ?'a = zip_error]
    by (auto simp: cstring_new_def Let_def split: if_splits)
  from add_path_step [OF Cons.prems(1,2) this, of i "file" xs] obtain m t1 where
    s: "add_path i file n (x # xs) t = add_path i file m xs t1" "table_ok t1" "resolve t1 ROOT (pre @ [x]) = Some m"
    "view t1 = (view t)(pre @ [x] \<mapsto> entry_update i file (pre @ x # xs) (pre @ [x]) (view t (pre @ [x])))"
    by blast
  have "table_ok t' \<and> view t' = spec_from i file (pre @ [x]) xs (view t1)"
    using Cons.IH [OF s(2,3)] Cons.prems(3) s(1) by simp
  with s(4) show ?case by (simp only: spec_from_Cons)
qed

text \<open>No panic: the inner components of the path are directories.\<close>

lemma add_path_total:
  "table_ok t \<Longrightarrow> resolve t ROOT pre = Some n \<Longrightarrow> ''..'' \<notin> set rest \<Longrightarrow> (\<And>x. x \<in> set rest \<Longrightarrow> CHR 0x00 \<notin> set x) \<Longrightarrow>
   (\<And>q d. prefix pre q \<Longrightarrow> strict_prefix q (pre @ rest) \<Longrightarrow> view t q = Some d \<Longrightarrow> is_dir d) \<Longrightarrow>
   \<exists>t'. add_path i file n rest t = Ok t'"
proof (induction rest arbitrary: pre n t)
  case Nil
  then show ?case by simp
next
  case (Cons x xs)
  have "is_dir (table t ! n)"
    using Cons.prems(5) [of pre] view_Some [OF Cons.prems(2)] by (simp add: strict_prefix_def)
  moreover have "x \<noteq> ''..''" "CHR 0x00 \<notin> set x"
    using Cons.prems(3,4) by auto
  ultimately obtain m t1 where
    s: "add_path i file n (x # xs) t = add_path i file m xs t1" "table_ok t1" "resolve t1 ROOT (pre @ [x]) = Some m"
    "view t1 = (view t)(pre @ [x] \<mapsto> entry_update i file (pre @ x # xs) (pre @ [x]) (view t (pre @ [x])))"
    using add_path_step [OF Cons.prems(1,2), of x i "file" xs] by blast
  have "\<exists>t'. add_path i file m xs t1 = Ok t'"
  proof (rule Cons.IH [OF s(2,3)])
    fix q d
    assume q: "prefix (pre @ [x]) q" "strict_prefix q ((pre @ [x]) @ xs)" "view t1 q = Some d"
    show "is_dir d"
    proof (cases "q = pre @ [x]")
      case True
      with q(2) have "xs \<noteq> []" by auto
      with True q(3) s(4) Cons.prems(5) [of q] q(2) show ?thesis
        by (auto simp: entry_update_def entry_node_def new_dir_def is_dir_def split: option.splits)
    next
      case False
      with q(3) s(4) have "view t q = Some d" by simp
      moreover have "prefix pre q" using q(1) by (rule append_prefixD)
      ultimately show ?thesis using Cons.prems(5) [of q d] q(2) by simp
    qed
  qed (use Cons.prems in auto)
  with s(1) show ?case by simp
qed

section \<open>Archives\<close>

definition spec_entry ::
  "nat \<Rightarrow> (ZipFile, io_error) outcome \<Rightarrow> (string list \<rightharpoonup> InodeData) \<Rightarrow> (string list \<rightharpoonup> InodeData)" where
  "spec_entry i entry m =
     (case entry of
        Ok zf \<Rightarrow> (case enclosed_name zf of None \<Rightarrow> m | Some path \<Rightarrow> spec_add i zf path m)
      | _ \<Rightarrow> m)"

fun spec_zip :: "nat \<Rightarrow> ZipArchive \<Rightarrow> (string list \<rightharpoonup> InodeData) \<Rightarrow> (string list \<rightharpoonup> InodeData)" where
  "spec_zip i [] m = m"
| "spec_zip i (e # es) m = spec_zip (Suc i) es (spec_entry i e m)"

lemma add_entries_refines:
  "table_ok t \<Longrightarrow> add_entries i archive t = Ok t' \<Longrightarrow> table_ok t' \<and> view t' = spec_zip i archive (view t)"
proof (induction archive arbitrary: i t)
  case Nil
  then show ?case by simp
next
  case (Cons entry es)
  then obtain t1 where t1: "add_entry i entry t = Ok t1" "add_entries (Suc i) es t1 = Ok t'"
    by (auto simp: and_then_Ok_iff)
  then obtain zf path where zf: "entry = Ok zf" "enclosed_name zf = Some path" "add_path i zf ROOT path t = Ok t1"
    by (auto simp: add_entry_def and_then_Ok_iff)
  have "table_ok t1 \<and> view t1 = spec_add i zf path (view t)"
    using add_path_refines [OF Cons.prems(1) _ zf(3), of "[]"] by simp
  with Cons.IH [OF _ t1(2)] zf show ?case by (simp add: spec_entry_def)
qed

definition empty_table :: InodeTable where
  "empty_table = \<lparr>table = [new_dir 0, new_dir 0]\<rparr>"

lemma from_zip_eq: "from_zip archive = add_entries 0 archive empty_table"
  by (simp add: from_zip_def it_put_def empty_table_def INVALID_def ROOT_def)

lemma child_empty_table: "child empty_table n x = None"
  by (simp add: child_def it_get_def empty_table_def get_directory_def new_dir_def nth_Cons split: nat.splits)

lemma table_ok_empty: "table_ok empty_table"
  by (auto simp: table_ok_def entries_ok_def one_name_def child_empty_table)
     (auto simp: empty_table_def ROOT_def is_dir_def new_dir_def get_directory_def nth_Cons split: nat.splits)

lemma view_empty_table: "view empty_table = [[] \<mapsto> new_dir 0]"
proof
  fix q
  show "view empty_table q = [[] \<mapsto> new_dir 0] q"
    by (cases q) (simp_all add: view_def child_empty_table, simp add: empty_table_def ROOT_def strip_def new_dir_def)
qed

text \<open>An entry touches the paths that are prefixes of its name.\<close>

definition touches :: "(ZipFile, io_error) outcome \<Rightarrow> string list \<Rightarrow> bool" where
  "touches entry q \<longleftrightarrow>
     q \<noteq> [] \<and> (case entry of Ok zf \<Rightarrow> (case enclosed_name zf of Some path \<Rightarrow> prefix q path | None \<Rightarrow> False) | _ \<Rightarrow> False)"

lemma spec_add_at:
  "spec_add i zf path m q =
     (if q \<noteq> [] \<and> prefix q path then Some (entry_update i zf path q (m q)) else m q)"
  by (auto simp: spec_from_def strict_prefix_def)

lemma spec_entry_untouched: "\<not> touches e q \<Longrightarrow> spec_entry i e m q = m q"
  by (auto simp: spec_entry_def touches_def spec_add_at split: outcome.splits option.splits)

lemma same_mode [simp]: "\<exists>md. d = d\<lparr>id_mode := md\<rparr>" for d :: InodeData
  by (rule exI [of _ "id_mode d"]) simp

lemma spec_entry_kept:
  assumes "m q = Some d"
  shows "\<exists>md. spec_entry i e m q = Some (d\<lparr>id_mode := md\<rparr>)"
  using assms
  by (auto simp: spec_entry_def spec_add_at entry_update_def split: outcome.splits option.splits)

lemma spec_entry_new:
  "touches (Ok zf) q \<Longrightarrow> enclosed_name zf = Some path \<Longrightarrow> m q = None \<Longrightarrow>
   spec_entry i (Ok zf) m q = Some (entry_node i zf path q)"
  by (simp add: spec_entry_def touches_def spec_add_at entry_update_def)

lemma spec_zip_kept: "m q = Some d \<Longrightarrow> \<exists>md. spec_zip i es m q = Some (d\<lparr>id_mode := md\<rparr>)"
proof (induction es arbitrary: i m d)
  case Nil
  then show ?case by (intro exI [of _ "id_mode d"]) simp
next
  case (Cons e es)
  obtain md where "spec_entry i e m q = Some (d\<lparr>id_mode := md\<rparr>)"
    using spec_entry_kept [where m = m and q = q, OF Cons.prems] by blast
  from Cons.IH [where m = "spec_entry i e m", OF this, of "Suc i"] show ?case by auto
qed

lemma spec_zip_untouched: "(\<And>e. e \<in> set es \<Longrightarrow> \<not> touches e q) \<Longrightarrow> spec_zip i es m q = m q"
  by (induction es arbitrary: i m) (simp_all add: spec_entry_untouched)

lemma spec_zip_first:
  "m q = None \<Longrightarrow> k < length es \<Longrightarrow> es ! k = Ok zf \<Longrightarrow> enclosed_name zf = Some path \<Longrightarrow> touches (Ok zf) q \<Longrightarrow>
   (\<And>j. j < k \<Longrightarrow> \<not> touches (es ! j) q) \<Longrightarrow>
   \<exists>md. spec_zip i es m q = Some ((entry_node (i + k) zf path q)\<lparr>id_mode := md\<rparr>)"
proof (induction es arbitrary: i m k)
  case Nil
  then show ?case by simp
next
  case (Cons e es)
  show ?case
  proof (cases k)
    case 0
    with Cons.prems have "spec_entry i e m q = Some (entry_node (i + k) zf path q)"
      by (simp add: spec_entry_new)
    then show ?thesis using spec_zip_kept [where m = "spec_entry i e m" and q = q] by simp
  next
    case (Suc k')
    have "\<not> touches e q" using Cons.prems(6) [of 0] Suc by simp
    then have "spec_entry i e m q = None" using Cons.prems(1) by (simp add: spec_entry_untouched)
    moreover have "\<not> touches (es ! j) q" if "j < k'" for j
      using Cons.prems(6) [of "Suc j"] that Suc by simp
    ultimately have "\<exists>md. spec_zip (Suc i) es (spec_entry i e m) q =
        Some ((entry_node (Suc i + k') zf path q)\<lparr>id_mode := md\<rparr>)"
      using Cons.prems(2-5) Suc by (intro Cons.IH) simp_all
    with Suc show ?thesis by simp
  qed
qed

section \<open>Names\<close>

text \<open>Names in the table have no null character, as \<open>CString::new\<close> requires.\<close>

definition data_names_ok :: "InodeData \<Rightarrow> bool" where
  "data_names_ok d \<longleftrightarrow> (\<forall>h. get_directory d = Some h \<longrightarrow> (\<forall>x \<in> fst ` set h. CHR 0x00 \<notin> set x))"

definition names_ok :: "InodeTable \<Rightarrow> bool" where
  "names_ok t \<longleftrightarrow> list_all data_names_ok (table t)"

lemma data_names_ok_new: "data_names_ok (new_dir mode)" "data_names_ok (new_file i zf)"
  by (auto simp: data_names_ok_def get_directory_def new_dir_def new_file_def)

lemma names_ok_update:
  assumes u: "it_update n f t = Ok t'" and ok: "names_ok t"
    and f: "\<And>d d'. data_names_ok d \<Longrightarrow> f d = Ok d' \<Longrightarrow> data_names_ok d'"
  shows "names_ok t'"
proof -
  from u obtain d' where n: "n < length (table t)" and d': "f (table t ! n) = Ok d'"
    and t': "t' = t\<lparr>table := (table t)[n := d']\<rparr>"
    by (auto simp: it_update_def and_then_Ok_iff unwrap_def it_get_Some_iff split: option.splits)
  have "data_names_ok d'" using f [OF _ d'] ok n by (simp add: names_ok_def list_all_length)
  with ok n show ?thesis by (auto simp: t' names_ok_def list_all_length nth_list_update)
qed

lemma names_ok_add:
  assumes "it_add t n x data = Ok (m, t')" and "names_ok t" and "CHR 0x00 \<notin> set x" and "data_names_ok data"
  shows "names_ok t'"
proof -
  have "data_names_ok d'" if "data_names_ok d" "add_to_directory x e d = Ok d'" for d d' e
    using that assms(3)
    by (fastforce simp: add_to_directory_def data_names_ok_def get_directory_def AList_update_new and_then_Ok_iff assertion_def
        split: InodeDataData.splits if_splits)
  with assms show ?thesis
    by (auto simp: it_add_def it_put_def and_then_Ok_iff Let_def elim!: names_ok_update)
       (auto simp: names_ok_def)
qed

lemma add_path_names_ok: "add_path i zf n path t = Ok t' \<Longrightarrow> names_ok t \<Longrightarrow> names_ok t'"
proof (induction path arbitrary: n t)
  case Nil
  then show ?case by simp
next
  case (Cons x xs)
  have mode: "data_names_ok (d\<lparr>id_mode := md\<rparr>) = data_names_ok d" for d md
    by (simp add: data_names_ok_def get_directory_def)
  from Cons.prems obtain found where x: "CHR 0x00 \<notin> set x" and f: "it_find t n x = (Ok found :: (_, zip_error) outcome)"
    by (auto simp: and_then_Ok_iff cstring_new_def Let_def split: if_splits)
  show ?case
  proof (cases found)
    case None
    with Cons.prems x f obtain data m t1 where "it_add t n x data = (Ok (m, t1) :: (_, zip_error) outcome)"
      "data_names_ok data" "add_path i zf m xs t1 = Ok t'"
      by (auto simp: and_then_Ok_iff cstring_new_def Let_def split: if_splits
          intro: data_names_ok_new elim!: that)
    with Cons.IH names_ok_add x Cons.prems(2) show ?thesis by blast
  next
    case (Some p)
    with Cons.prems x f obtain t1 where t1: "t1 = t \<or>
        it_update p (\<lambda>inode. Ok (inode\<lparr>id_mode := unwrap_or 0 (unix_mode zf)\<rparr>)) t = (Ok t1 :: (_, zip_error) outcome)"
      and rest: "add_path i zf p xs t1 = Ok t'"
      by (auto simp: and_then_Ok_iff cstring_new_def Let_def split: if_splits)
    have "names_ok t1" using t1 Cons.prems(2) by (auto simp: mode elim!: names_ok_update)
    with Cons.IH rest show ?thesis by blast
  qed
qed

lemma add_entries_names_ok: "add_entries i archive t = Ok t' \<Longrightarrow> names_ok t \<Longrightarrow> names_ok t'"
  by (induction archive arbitrary: i t)
     (auto simp: and_then_Ok_iff add_entry_def intro: add_path_names_ok)

lemma from_zip_names_ok: "from_zip archive = Ok t \<Longrightarrow> names_ok t"
  unfolding from_zip_eq
  by (rule add_entries_names_ok) (auto simp: names_ok_def empty_table_def data_names_ok_new)

section \<open>What the table holds\<close>

lemma from_zip_refines:
  assumes "from_zip archive = Ok t"
  shows "table_ok t \<and> view t = spec_zip 0 archive [[] \<mapsto> new_dir 0]"
  using add_entries_refines [OF table_ok_empty, of 0 archive t] assms by (simp add: from_zip_eq view_empty_table)

lemmas table_ok_from_zip = from_zip_refines [THEN conjunct1]
lemmas view_from_zip = from_zip_refines [THEN conjunct2]

lemma view_first_entry:
  assumes "from_zip archive = Ok t" and "k < length archive" and "archive ! k = Ok zf" and "enclosed_name zf = Some path"
    and "p \<noteq> []" and "prefix p path" and "\<forall>j<k. \<not> touches (archive ! j) p"
  shows "\<exists>mode. view t p = Some ((entry_node k zf path p)\<lparr>id_mode := mode\<rparr>)"
  using spec_zip_first [where m = "[[] \<mapsto> new_dir 0]" and q = p and i = 0, OF _ assms(2-4)] assms(4-7)
  by (simp add: view_from_zip [OF assms(1)] touches_def)

text \<open>
  C32: The inode table of an archive is a tree: the root is a directory, every directory entry
  points to a later inode of the recorded kind, names in a directory are distinct and no
  inode has two names.
\<close>

theorem from_zip_table_ok:
  "from_zip archive = Ok t \<Longrightarrow> table_ok t"
  by (rule table_ok_from_zip)

definition sample_archive :: ZipArchive where
  "sample_archive =
     [Ok \<lparr>enclosed_name = Some [''a'', ''b''], zf_is_file = True, unix_mode = None, zf_size = 2, zf_contents = Ok [7, 8]\<rparr>,
      Ok \<lparr>enclosed_name = Some [''a''], zf_is_file = False, unix_mode = Some 0x1FF, zf_size = 0, zf_contents = Ok []\<rparr>]"

definition sample_table :: InodeTable where
  "sample_table =
     \<lparr>table =
        [new_dir 0,
         \<lparr>id_size = 0, id_mode = 0, id_data = Directory [(''a'', \<lparr>de_inode = 2, de_kind = DirectoryKind\<rparr>)]\<rparr>,
         \<lparr>id_size = 0, id_mode = 0x1FF, id_data = Directory [(''b'', \<lparr>de_inode = 3, de_kind = FileKind\<rparr>)]\<rparr>,
         \<lparr>id_size = 2, id_mode = 0, id_data = ZFile 0\<rparr>]\<rparr>"

lemma from_zip_sample: "from_zip sample_archive = Ok sample_table"
  by (simp add: from_zip_eq empty_table_def sample_archive_def sample_table_def add_entry_def cstring_new_def
      it_find_def it_get_def it_add_def it_put_def it_update_def add_to_directory_def get_directory_def is_dir_def
      new_dir_def new_file_def unwrap_or_def ROOT_def Let_def numeral_2_eq_2 numeral_3_eq_3)

theorem from_zip_table_ok_witness: "table_ok sample_table"
  by (rule from_zip_table_ok [OF from_zip_sample])

text \<open>
  C31: The contents of the table of an archive. A path exists exactly when it is a prefix of an
  entry's name, and its inode is the one of the first entry that touches it: a file with the
  index and size of that entry when it names a file, a directory otherwise.
\<close>

theorem from_zip_paths:
  assumes "from_zip archive = Ok t" and "p \<noteq> []"
  shows "(view t p \<noteq> None \<longleftrightarrow> (\<exists>e\<in>set archive. touches e p)) \<and>
    (\<forall>k zf path. k < length archive \<longrightarrow> archive ! k = Ok zf \<longrightarrow> enclosed_name zf = Some path \<longrightarrow> prefix p path \<longrightarrow>
       (\<forall>j<k. \<not> touches (archive ! j) p) \<longrightarrow>
       (\<exists>mode. view t p = Some ((entry_node k zf path p)\<lparr>id_mode := mode\<rparr>)))"
proof -
  have first: "\<exists>mode. view t p = Some ((entry_node k zf path p)\<lparr>id_mode := mode\<rparr>)"
    if "k < length archive" "archive ! k = Ok zf" "enclosed_name zf = Some path" "prefix p path"
      "\<forall>j<k. \<not> touches (archive ! j) p" for k zf path
    using view_first_entry [OF assms(1) that(1-3) assms(2) that(4,5)] .
  moreover have "view t p \<noteq> None \<longleftrightarrow> (\<exists>e\<in>set archive. touches e p)"
  proof (cases "\<exists>e\<in>set archive. touches e p")
    case False
    then show ?thesis using spec_zip_untouched [of archive p 0] assms(2)
      by (auto simp: view_from_zip [OF assms(1)])
  next
    case True
    then have "\<exists>k. k < length archive \<and> touches (archive ! k) p" by (auto simp: in_set_conv_nth)
    then obtain k where k: "k < length archive" "touches (archive ! k) p" "\<forall>j<k. \<not> touches (archive ! j) p"
      using exists_least_iff [of "\<lambda>k. k < length archive \<and> touches (archive ! k) p"] by (metis less_trans)
    then obtain zf path where "archive ! k = Ok zf" "enclosed_name zf = Some path" "prefix p path"
      by (auto simp: touches_def split: outcome.splits option.splits)
    with first [OF k(1) this k(3)] True show ?thesis by auto
  qed
  ultimately show ?thesis by blast
qed

theorem from_zip_paths_witness:
  "\<exists>mode. view sample_table [''a'', ''b''] = Some \<lparr>id_size = 2, id_mode = mode, id_data = ZFile 0\<rparr>"
  using from_zip_paths [OF from_zip_sample, of "[''a'', ''b'']"]
  by (auto simp: sample_archive_def entry_node_def new_file_def)

text \<open>Names and kinds of the entries of an archive.\<close>

definition entry_paths :: "ZipArchive \<Rightarrow> (bool \<times> string list) set" where
  "entry_paths archive = {(zf_is_file zf, path) | zf path. Ok zf \<in> set archive \<and> enclosed_name zf = Some path}"

definition entry_wf :: "(ZipFile, io_error) outcome \<Rightarrow> bool" where
  "entry_wf entry =
     (case entry of
        Ok zf \<Rightarrow> (case enclosed_name zf of
            Some path \<Rightarrow> ''..'' \<notin> set path \<and> list_all (\<lambda>x. CHR 0x00 \<notin> set x) path
          | None \<Rightarrow> False)
      | _ \<Rightarrow> False)"

lemma add_entries_total:
  "table_ok t \<Longrightarrow> list_all entry_wf archive \<Longrightarrow>
   (\<And>q d. view t q = Some d \<Longrightarrow> \<not> is_dir d \<Longrightarrow> (True, q) \<in> P) \<Longrightarrow> entry_paths archive \<subseteq> P \<Longrightarrow>
   (\<And>q b path. (True, q) \<in> P \<Longrightarrow> (b, path) \<in> P \<Longrightarrow> \<not> strict_prefix q path) \<Longrightarrow>
   \<exists>t'. add_entries i archive t = Ok t'"
proof (induction archive arbitrary: i t)
  case Nil
  then show ?case by simp
next
  case (Cons e es)
  then obtain zf path where e: "e = Ok zf" "enclosed_name zf = Some path" "''..'' \<notin> set path"
    "\<And>x. x \<in> set path \<Longrightarrow> CHR 0x00 \<notin> set x"
    by (auto simp: entry_wf_def list_all_iff split: outcome.splits option.splits)
  have eP: "(zf_is_file zf, path) \<in> P" using Cons.prems(4) e by (auto simp: entry_paths_def)
  have dirs: "is_dir d" if "strict_prefix q path" "view t q = Some d" for q d
    using Cons.prems(5) [OF Cons.prems(3) [OF that(2)] eP] that(1) by blast
  have "\<exists>t1. add_path i zf ROOT path t = Ok t1"
    using dirs e by (intro add_path_total [OF Cons.prems(1), of "[]"]) auto
  then obtain t1 where t1: "add_path i zf ROOT path t = Ok t1" ..
  have r: "table_ok t1" "view t1 = spec_add i zf path (view t)"
    using add_path_refines [OF Cons.prems(1) _ t1, of "[]"] by simp_all
  have "(True, q) \<in> P" if "view t1 q = Some d" "\<not> is_dir d" for q d
  proof (cases "view t q")
    case (Some d')
    then have "\<not> is_dir d'"
      using that r(2) by (auto simp: spec_add_at entry_update_def is_dir_def split: if_splits)
    with Some Cons.prems(3) show ?thesis by blast
  next
    case None
    then have "q = path \<and> zf_is_file zf"
      using that r(2) by (auto simp: spec_add_at entry_update_def entry_node_def is_dir_def new_dir_def split: if_splits)
    with eP show ?thesis by simp
  qed
  moreover have "entry_paths es \<subseteq> P" using Cons.prems(4) by (auto simp: entry_paths_def)
  ultimately have "\<exists>t'. add_entries (Suc i) es t1 = Ok t'"
    using Cons.prems(2,5) by (intro Cons.IH [OF r(1)]) auto
  with e t1 show ?case by (simp add: add_entry_def)
qed

text \<open>
  C33: Archives that are accepted. If every entry can be opened, has an enclosed name without
  \<open>..\<close> and null characters, and no file's name is a proper prefix of another entry's name,
  the table is built: no assertion fails and nothing panics.
\<close>

theorem from_zip_accepts:
  assumes "list_all entry_wf archive"
    and "\<And>q b path. (True, q) \<in> entry_paths archive \<Longrightarrow> (b, path) \<in> entry_paths archive \<Longrightarrow> \<not> strict_prefix q path"
  shows "\<exists>t. from_zip archive = Ok t"
  unfolding from_zip_eq
  by (rule add_entries_total [OF table_ok_empty assms(1) _ subset_refl assms(2)])
     (auto simp: view_empty_table new_dir_def is_dir_def split: if_splits)

theorem from_zip_accepts_witness: "\<exists>t. from_zip sample_archive = Ok t"
  by (rule from_zip_accepts)
     (auto simp: sample_archive_def entry_wf_def entry_paths_def strict_prefix_def)







end
