(* ===== verification/ZipFuse.thy ===== *)
theory ZipFuse
  imports ZipInode "HOL-Library.Multiset"
begin

unbundle bit_operations_syntax

text \<open>
  \<^verbatim>\<open>zipfuse/src/main.rs\<close>: the read-only FUSE file system over an archive. Its state
  is the archive, the inode table and the buffers of the open files and directories, each
  under the inode's number.

  The order in which \<open>HashMap::iter\<close> gives the entries of a directory is the parameter
  \<open>order\<close>, the size of the kernel's directory record the parameter \<open>dirent_size\<close>, and the writer of a read request a
  function over a state of its own, as in \<open>AuthFs\<close>. A request that panics ends the
  process, so a run continues only after requests that return.

  The lemmas: the invariant of the open buffers over every sequence of requests, reads return
  the bytes of the archive's entry, and a scan of a directory returns every entry once.
\<close>

section \<open>Definitions\<close>

record OpenFileBuf =
  ofb_open_count :: nat
  ofb_buf :: bytes

record OpenDirBuf =
  odb_open_count :: nat
  odb_buf :: "(string \<times> DirectoryEntry) list"

record ZipFuse =
  zip_archive :: ZipArchive
  inode_table :: InodeTable
  open_files :: "nat \<rightharpoonup> OpenFileBuf"
  open_dirs :: "nat \<rightharpoonup> OpenDirBuf"

definition ebadf :: io_error where "ebadf = OsError EBADF"

text \<open>A \<open>Duration\<close> is its seconds and nanoseconds.\<close>

definition timeout_max :: "nat \<times> nat" where "timeout_max = (u64_limit - 1, 1000000000 - 1)"

definition u32_inc :: "nat \<Rightarrow> (nat, 'e) outcome" where
  "u32_inc n = (if n + 1 < 2 ^ 32 then Ok (n + 1) else Panic)"

definition checked_sub :: "nat \<Rightarrow> nat \<Rightarrow> nat option" where
  "checked_sub a b = (if b \<le> a then Some (a - b) else None)"

definition ZipFuse_new :: "ZipArchive \<Rightarrow> (ZipFuse, zip_error) outcome" where
  "ZipFuse_new z =
     and_then (from_zip z) (\<lambda>it.
     Ok \<lparr>zip_archive = z, inode_table = it, open_files = Map.empty, open_dirs = Map.empty\<rparr>)"

definition find_inode :: "ZipFuse \<Rightarrow> Inode \<Rightarrow> (InodeData, io_error) outcome" where
  "find_inode fs inode = ok_or ebadf (it_get (inode_table fs) inode)"

definition stat_from :: "ZipFuse \<Rightarrow> Inode \<Rightarrow> (stat64, io_error) outcome" where
  "stat_from fs inode =
     and_then (find_inode fs inode) (\<lambda>inode_data.
     Ok \<lparr>st_ino = inode,
         st_mode = (if is_dir inode_data then S_IFDIR else S_IFREG) OR id_mode inode_data,
         st_nlink = (case get_directory inode_data of Some directory \<Rightarrow> 2 + length directory | None \<Rightarrow> 1),
         st_size = int (min (id_size inode_data) i64_max),
         st_blksize = 0, st_blocks = 0\<rparr>)"

record ZipEntry =
  ze_inode :: Inode
  ze_generation :: nat
  ze_attr :: stat64
  ze_attr_timeout :: "nat \<times> nat"
  ze_entry_timeout :: "nat \<times> nat"

definition zip_lookup :: "ZipFuse \<Rightarrow> Inode \<Rightarrow> string \<Rightarrow> (ZipEntry, io_error) outcome" where
  "zip_lookup fs parent name =
     and_then (find_inode fs parent) (\<lambda>inode.
     and_then (ok_or ebadf (get_directory inode)) (\<lambda>directory.
     case map_of directory name of
       Some e \<Rightarrow>
         and_then (stat_from fs (de_inode e)) (\<lambda>attr.
         Ok \<lparr>ze_inode = de_inode e, ze_generation = 0, ze_attr = attr,
             ze_attr_timeout = timeout_max, ze_entry_timeout = timeout_max\<rparr>)
     | None \<Rightarrow> Err (OsError ENOENT)))"

definition zip_getattr :: "ZipFuse \<Rightarrow> Inode \<Rightarrow> (stat64 \<times> nat \<times> nat, io_error) outcome" where
  "zip_getattr fs inode = and_then (stat_from fs inode) (\<lambda>st. Ok (st, timeout_max))"

text \<open>
  \<open>ZipArchive::by_index\<close>; an index outside the archive is the crate's error, of kind
  \<open>Other\<close> as an \<open>io::Error\<close>.
\<close>

definition by_index :: "ZipArchive \<Rightarrow> nat \<Rightarrow> (ZipFile, io_error) outcome" where
  "by_index z i = (if i < length z then z ! i else Err (KindError Other))"

text \<open>\<open>Vec::with_capacity\<close> panics for more than \<open>isize::MAX\<close> bytes.\<close>

definition vec_with_capacity :: "nat \<Rightarrow> (unit, 'e) outcome" where
  "vec_with_capacity n = assertion (n \<le> i64_max)"

definition zip_open :: "Inode \<Rightarrow> (ZipFuse, nat, io_error) prog" where
  "zip_open inode fs =
     (let handle = inode in
      case open_files fs handle of
        Some ofb \<Rightarrow>
          if ofb_open_count ofb = 0 then (Err ebadf, fs)
          else bind_prog (ret (u32_inc (ofb_open_count ofb))) (\<lambda>n fs.
               (Ok handle, fs\<lparr>open_files := (open_files fs)(handle \<mapsto> ofb\<lparr>ofb_open_count := n\<rparr>)\<rparr>)) fs
      | None \<Rightarrow>
          bind_prog (ret (find_inode fs inode)) (\<lambda>inode_data.
          bind_prog (ret (ok_or ebadf (get_zip_index inode_data))) (\<lambda>zip_index.
          bind_prog (ret (by_index (zip_archive fs) zip_index)) (\<lambda>zip_file.
          bind_prog (ret (vec_with_capacity (id_size inode_data))) (\<lambda>_.
          bind_prog (ret (zf_contents zip_file)) (\<lambda>buf fs.
          (Ok handle, fs\<lparr>open_files := (open_files fs)(handle \<mapsto> \<lparr>ofb_open_count = 1, ofb_buf = buf\<rparr>)\<rparr>)))))) fs)"

definition zip_release :: "Inode \<Rightarrow> (ZipFuse, unit, io_error) prog" where
  "zip_release inode fs =
     (let handle = inode in
      case open_files fs handle of
        Some ofb \<Rightarrow>
          bind_prog (ret (ok_or ebadf (checked_sub (ofb_open_count ofb) 1))) (\<lambda>n fs.
          (Ok (), if n = 0 then fs\<lparr>open_files := (open_files fs)(handle := None)\<rparr> else fs)) fs
      | None \<Rightarrow> (Err ebadf, fs))"

definition zip_read :: "'w write_fn \<Rightarrow> ZipFuse \<Rightarrow> nat \<Rightarrow> nat \<Rightarrow> nat \<Rightarrow> ('w, nat, io_error) prog" where
  "zip_read wr fs handle n off =
     bind_prog (ret (ok_or ebadf (open_files fs handle))) (\<lambda>ofb.
     if ofb_open_count ofb = 0 then ret (Err ebadf)
     else
       let start = off in
       bind_prog (ret (u64_add start n)) (\<lambda>end1.
       let end2 = min end1 (length (ofb_buf ofb)) in
       bind_prog (ret (slice_range (ofb_buf ofb) start end2)) wr))"

definition zip_opendir ::
  "((string \<times> DirectoryEntry) list \<Rightarrow> (string \<times> DirectoryEntry) list) \<Rightarrow> Inode \<Rightarrow> (ZipFuse, nat, io_error) prog" where
  "zip_opendir order inode fs =
     (let handle = inode in
      case open_dirs fs handle of
        Some odb \<Rightarrow>
          if odb_open_count odb = 0 then (Err ebadf, fs)
          else bind_prog (ret (u32_inc (odb_open_count odb))) (\<lambda>n fs.
               (Ok handle, fs\<lparr>open_dirs := (open_dirs fs)(handle \<mapsto> odb\<lparr>odb_open_count := n\<rparr>)\<rparr>)) fs
      | None \<Rightarrow>
          bind_prog (ret (find_inode fs inode)) (\<lambda>inode_data.
          bind_prog (ret (ok_or ebadf (get_directory inode_data))) (\<lambda>directory.
          bind_prog (ret (try_map (\<lambda>(name, dir_entry).
              and_then (cstring_new name) (\<lambda>name. Ok (name, dir_entry))) (order directory))) (\<lambda>buf fs.
          (Ok handle, fs\<lparr>open_dirs := (open_dirs fs)(handle \<mapsto> \<lparr>odb_open_count = 1, odb_buf = buf\<rparr>)\<rparr>)))) fs)"

definition zip_releasedir :: "Inode \<Rightarrow> (ZipFuse, unit, io_error) prog" where
  "zip_releasedir inode fs =
     (let handle = inode in
      case open_dirs fs handle of
        Some odb \<Rightarrow>
          bind_prog (ret (ok_or ebadf (checked_sub (odb_open_count odb) 1))) (\<lambda>n fs.
          (Ok (), if n = 0 then fs\<lparr>open_dirs := (open_dirs fs)(handle := None)\<rparr> else fs)) fs
      | None \<Rightarrow> (Err ebadf, fs))"

record DirIter =
  inner :: "(string \<times> DirectoryEntry) list"
  di_offset :: nat
  cur :: nat

text \<open>The loop of \<open>readdir\<close>; \<open>div 8 * 8\<close> clears the three low bits.\<close>

function readdir_end :: "nat \<Rightarrow> (string \<times> DirectoryEntry) list \<Rightarrow> nat \<Rightarrow> nat \<Rightarrow> nat \<Rightarrow> (nat, io_error) outcome" where
  "readdir_end dirent_size buf n estimate endi =
     (if estimate < n \<and> endi < length buf
      then let name_size = length (fst (buf ! endi)) in
           and_then (u64_add estimate ((dirent_size + name_size + 7) div 8 * 8)) (\<lambda>estimate'.
           readdir_end dirent_size buf n estimate' (endi + 1))
      else Ok endi)"
  by pat_completeness auto
termination
  by (relation "measure (\<lambda>(_, buf, _, _, endi). length buf - endi)") auto

declare readdir_end.simps [simp del]

definition zip_readdir :: "nat \<Rightarrow> ZipFuse \<Rightarrow> Inode \<Rightarrow> nat \<Rightarrow> nat \<Rightarrow> (DirIter, io_error) outcome" where
  "zip_readdir dirent_size fs inode n off =
     (let handle = inode in
      and_then (ok_or ebadf (open_dirs fs handle)) (\<lambda>odb.
      if odb_open_count odb = 0 then Err ebadf
      else
        let buf = odb_buf odb; start = off in
        and_then (readdir_end dirent_size buf n 0 start) (\<lambda>endi.
        and_then (slice_range buf start endi) (\<lambda>new_buf.
        Ok \<lparr>inner = new_buf, di_offset = off, cur = 0\<rparr>))))"

record ZipDirEntry =
  zd_ino :: nat
  zd_offset :: nat
  zd_type :: nat
  zd_name :: string

definition DT_DIR :: nat where "DT_DIR = 4"
definition DT_REG :: nat where "DT_REG = 8"

definition dir_next :: "(DirIter, ZipDirEntry option, 'e) prog" where
  "dir_next it =
     (if length (inner it) \<le> cur it then (Ok None, it)
      else
        case inner it ! cur it of (name, entry) \<Rightarrow>
        let it' = it\<lparr>cur := cur it + 1\<rparr> in
        bind_prog (ret (u64_add (di_offset it') (cur it'))) (\<lambda>o'.
        ret (Ok (Some \<lparr>zd_ino = de_inode entry, zd_offset = o',
                       zd_type = (case de_kind entry of DirectoryKind \<Rightarrow> DT_DIR | FileKind \<Rightarrow> DT_REG),
                       zd_name = name\<rparr>))) it')"

section \<open>Runs\<close>

text \<open>
  The requests that change the state, each with the way it returned; the others take the
  state as an argument and leave it alone.
\<close>

inductive zip_step ::
  "((string \<times> DirectoryEntry) list \<Rightarrow> (string \<times> DirectoryEntry) list) \<Rightarrow> ZipFuse \<Rightarrow> ZipFuse \<Rightarrow> bool" for order where
  step_open: "zip_open inode fs = (r, fs') \<Longrightarrow> r \<noteq> Panic \<Longrightarrow> zip_step order fs fs'"
| step_release: "zip_release inode fs = (r, fs') \<Longrightarrow> r \<noteq> Panic \<Longrightarrow> zip_step order fs fs'"
| step_opendir: "zip_opendir order inode fs = (r, fs') \<Longrightarrow> r \<noteq> Panic \<Longrightarrow> zip_step order fs fs'"
| step_releasedir: "zip_releasedir inode fs = (r, fs') \<Longrightarrow> r \<noteq> Panic \<Longrightarrow> zip_step order fs fs'"

inductive zip_run ::
  "((string \<times> DirectoryEntry) list \<Rightarrow> (string \<times> DirectoryEntry) list) \<Rightarrow> ZipFuse \<Rightarrow> ZipFuse \<Rightarrow> bool" for order where
  run_refl: "zip_run order fs fs"
| run_step: "zip_run order fs fs1 \<Longrightarrow> zip_step order fs1 fs2 \<Longrightarrow> zip_run order fs fs2"

definition file_buf_ok :: "ZipFuse \<Rightarrow> nat \<Rightarrow> OpenFileBuf \<Rightarrow> bool" where
  "file_buf_ok fs h ofb \<longleftrightarrow>
     0 < ofb_open_count ofb \<and> ofb_open_count ofb < 2 ^ 32 \<and>
     (\<exists>d i zf. it_get (inode_table fs) h = Some d \<and> get_zip_index d = Some i \<and>
        by_index (zip_archive fs) i = Ok zf \<and> zf_contents zf = Ok (ofb_buf ofb))"

definition dir_buf_ok ::
  "((string \<times> DirectoryEntry) list \<Rightarrow> (string \<times> DirectoryEntry) list) \<Rightarrow> ZipFuse \<Rightarrow> nat \<Rightarrow> OpenDirBuf \<Rightarrow> bool" where
  "dir_buf_ok order fs h odb \<longleftrightarrow>
     0 < odb_open_count odb \<and> odb_open_count odb < 2 ^ 32 \<and>
     (\<exists>d dir. it_get (inode_table fs) h = Some d \<and> get_directory d = Some dir \<and> odb_buf odb = order dir)"

definition zip_inv ::
  "((string \<times> DirectoryEntry) list \<Rightarrow> (string \<times> DirectoryEntry) list) \<Rightarrow> ZipArchive \<Rightarrow> ZipFuse \<Rightarrow> bool" where
  "zip_inv order z fs \<longleftrightarrow>
     zip_archive fs = z \<and> from_zip z = Ok (inode_table fs) \<and>
     (\<forall>h ofb. open_files fs h = Some ofb \<longrightarrow> file_buf_ok fs h ofb) \<and>
     (\<forall>h odb. open_dirs fs h = Some odb \<longrightarrow> dir_buf_ok order fs h odb)"

lemma by_index_bound: "by_index z i = Ok zf \<Longrightarrow> i < length z \<and> z ! i = Ok zf"
  by (simp add: by_index_def split: if_splits)

text \<open>The four requests, by what they leave in the state.\<close>

lemma zip_open_cases:
  assumes "zip_open inode fs = (r, fs')"
  obtains (same) "fs' = fs" "\<And>h. r \<noteq> Ok h"
  | (again) ofb where "r = Ok inode" "open_files fs inode = Some ofb" "0 < ofb_open_count ofb" "ofb_open_count ofb + 1 < 2 ^ 32"
      "fs' = fs\<lparr>open_files := (open_files fs)(inode \<mapsto> ofb\<lparr>ofb_open_count := ofb_open_count ofb + 1\<rparr>)\<rparr>"
  | (fresh) d i zf buf where "r = Ok inode" "open_files fs inode = None" "it_get (inode_table fs) inode = Some d"
      "get_zip_index d = Some i" "by_index (zip_archive fs) i = Ok zf" "zf_contents zf = Ok buf"
      "fs' = fs\<lparr>open_files := (open_files fs)(inode \<mapsto> \<lparr>ofb_open_count = 1, ofb_buf = buf\<rparr>)\<rparr>"
proof (cases "open_files fs inode")
  case None
  with assms show thesis
    by (auto simp: zip_open_def Let_def bind_prog_def find_inode_def ok_or_def
        intro: same fresh [OF _ None] split: outcome.splits option.splits prod.splits)
next
  case (Some ofb)
  with assms show thesis
    by (cases "ofb_open_count ofb + 1 < 2 ^ 32")
       (auto simp: zip_open_def Let_def bind_prog_def u32_inc_def intro: same again [OF _ Some] split: if_splits)
qed

lemma zip_release_cases:
  assumes "zip_release inode fs = (r, fs')"
  obtains (same) "fs' = fs"
  | (freed) ofb where "open_files fs inode = Some ofb" "ofb_open_count ofb = 1"
      "fs' = fs\<lparr>open_files := (open_files fs)(inode := None)\<rparr>"
  using assms
  by (auto simp: zip_release_def Let_def bind_prog_def checked_sub_def ok_or_def split: option.splits if_splits)

lemma cstring_try_map:
  "try_map (\<lambda>(name, e). and_then (cstring_new name) (\<lambda>name. Ok (name, e))) xs = Ok ys \<Longrightarrow> ys = xs"
  by (induction xs arbitrary: ys) (auto simp: and_then_Ok_iff cstring_new_def split: if_splits)

lemma zip_opendir_cases:
  assumes "zip_opendir order inode fs = (r, fs')"
  obtains (same) "fs' = fs" "\<And>h. r \<noteq> Ok h"
  | (again) odb where "r = Ok inode" "open_dirs fs inode = Some odb" "0 < odb_open_count odb" "odb_open_count odb + 1 < 2 ^ 32"
      "fs' = fs\<lparr>open_dirs := (open_dirs fs)(inode \<mapsto> odb\<lparr>odb_open_count := odb_open_count odb + 1\<rparr>)\<rparr>"
  | (fresh) d dir where "r = Ok inode" "open_dirs fs inode = None" "it_get (inode_table fs) inode = Some d"
      "get_directory d = Some dir"
      "fs' = fs\<lparr>open_dirs := (open_dirs fs)(inode \<mapsto> \<lparr>odb_open_count = 1, odb_buf = order dir\<rparr>)\<rparr>"
proof (cases "open_dirs fs inode")
  case None
  with assms show thesis
    by (auto simp: zip_opendir_def Let_def bind_prog_def find_inode_def ok_or_def
        intro: same fresh [OF _ None] dest!: cstring_try_map split: outcome.splits option.splits prod.splits)
next
  case (Some odb)
  with assms show thesis
    by (cases "odb_open_count odb + 1 < 2 ^ 32")
       (auto simp: zip_opendir_def Let_def bind_prog_def u32_inc_def intro: same again [OF _ Some] split: if_splits)
qed

lemma zip_releasedir_cases:
  assumes "zip_releasedir inode fs = (r, fs')"
  obtains (same) "fs' = fs"
  | (freed) odb where "open_dirs fs inode = Some odb" "odb_open_count odb = 1"
      "fs' = fs\<lparr>open_dirs := (open_dirs fs)(inode := None)\<rparr>"
  using assms
  by (auto simp: zip_releasedir_def Let_def bind_prog_def checked_sub_def ok_or_def split: option.splits if_splits)

lemma buf_ok_update [simp]:
  "file_buf_ok (fs\<lparr>open_files := m\<rparr>) = file_buf_ok fs"
  "file_buf_ok (fs\<lparr>open_dirs := dm\<rparr>) = file_buf_ok fs"
  "dir_buf_ok order (fs\<lparr>open_files := m\<rparr>) = dir_buf_ok order fs"
  "dir_buf_ok order (fs\<lparr>open_dirs := dm\<rparr>) = dir_buf_ok order fs"
  by (auto simp: fun_eq_iff file_buf_ok_def dir_buf_ok_def)

lemma zip_inv_new: "ZipFuse_new z = Ok fs \<Longrightarrow> zip_inv order z fs"
  by (auto simp: ZipFuse_new_def and_then_Ok_iff zip_inv_def)

lemma zip_inv_step: "zip_step order fs fs' \<Longrightarrow> zip_inv order z fs \<Longrightarrow> zip_inv order z fs'"
proof (induction rule: zip_step.induct)
  case (step_open inode fs r fs')
  from step_open(1) show ?case
    by (cases rule: zip_open_cases) (use step_open(3) in \<open>auto simp: zip_inv_def file_buf_ok_def\<close>)
next
  case (step_release inode fs r fs')
  from step_release(1) show ?case
    by (cases rule: zip_release_cases) (use step_release(3) in \<open>auto simp: zip_inv_def\<close>)
next
  case (step_opendir inode fs r fs')
  from step_opendir(1) show ?case
    by (cases rule: zip_opendir_cases) (use step_opendir(3) in \<open>auto simp: zip_inv_def dir_buf_ok_def\<close>)
next
  case (step_releasedir inode fs r fs')
  from step_releasedir(1) show ?case
    by (cases rule: zip_releasedir_cases) (use step_releasedir(3) in \<open>auto simp: zip_inv_def\<close>)
qed

lemma zip_inv_run: "zip_run order fs fs' \<Longrightarrow> zip_inv order z fs \<Longrightarrow> zip_inv order z fs'"
  by (induction rule: zip_run.induct) (auto intro: zip_inv_step)

section \<open>Files\<close>

text \<open>The kernel resolves a path by one lookup per component.\<close>

fun lookup_path :: "ZipFuse \<Rightarrow> Inode \<Rightarrow> string list \<Rightarrow> (Inode, io_error) outcome" where
  "lookup_path fs n [] = Ok n"
| "lookup_path fs n (x # xs) = and_then (zip_lookup fs n x) (\<lambda>e. lookup_path fs (ze_inode e) xs)"

lemma zip_lookup_child:
  assumes "table_ok (inode_table fs)" and "child (inode_table fs) n x = Some m"
  shows "\<exists>e. zip_lookup fs n x = Ok e \<and> ze_inode e = m"
proof -
  from assms(2) obtain d h e where d: "it_get (inode_table fs) n = Some d" "get_directory d = Some h" "map_of h x = Some e" "m = de_inode e"
    by (auto simp: child_Some_iff)
  moreover obtain d' where "it_get (inode_table fs) m = Some d'"
    using child_bounds [OF _ assms(2)] assms(1) by (auto simp: table_ok_def it_get_Some_iff)
  ultimately show ?thesis by (simp add: zip_lookup_def find_inode_def stat_from_def)
qed

lemma lookup_path_resolve:
  assumes "table_ok (inode_table fs)"
  shows "resolve (inode_table fs) n p = Some m \<Longrightarrow> lookup_path fs n p = Ok m"
proof (induction p arbitrary: n)
  case Nil
  then show ?case by simp
next
  case (Cons x xs)
  then obtain k where "child (inode_table fs) n x = Some k" "resolve (inode_table fs) k xs = Some m"
    by (auto split: option.splits)
  with Cons.IH zip_lookup_child [OF assms] show ?case by fastforce
qed

lemma lookup_view:
  assumes "table_ok (inode_table fs)" and "view (inode_table fs) p = Some v"
  shows "\<exists>n d. lookup_path fs ROOT p = Ok n \<and> it_get (inode_table fs) n = Some d \<and> strip d = v"
  using assms resolve_bounds [OF assms(1), of p] lookup_path_resolve [OF assms(1), of ROOT p]
  by (auto simp: view_def it_get_Some_iff)

lemma take_min_rest: "take (min n (length xs - k)) (drop k xs) = take n (drop k xs)"
  by (metis length_drop take_take take_all_iff min.cobounded2 min.commute order_refl)

lemma zip_read_open:
  assumes "open_files fs h = Some ofb" and "0 < ofb_open_count ofb" and "off \<le> length (ofb_buf ofb)" and "off + n < u64_limit"
  shows "zip_read wr fs h n off = wr (take n (drop off (ofb_buf ofb)))"
proof -
  have "min (off + n) (length (ofb_buf ofb)) - off = min n (length (ofb_buf ofb) - off)"
    using assms(3) by linarith
  with assms show ?thesis by (simp add: zip_read_def take_min_rest)
qed

lemma strip_new_file: "strip d = (new_file k zf)\<lparr>id_mode := mode\<rparr> \<Longrightarrow>
  get_zip_index d = Some k \<and> id_size d = zf_size zf"
  by (cases d) (auto simp: strip_def new_file_def get_zip_index_def split: InodeDataData.splits)

lemma zip_open_fresh:
  assumes "open_files fs n = None" and "it_get (inode_table fs) n = Some d" and "get_zip_index d = Some k"
    and "by_index (zip_archive fs) k = Ok zf" and "zf_contents zf = Ok c" and "id_size d \<le> i64_max"
  shows "\<exists>fs'. zip_open n fs = (Ok n, fs')"
  using assms by (simp add: zip_open_def find_inode_def vec_with_capacity_def)

lemma zip_open_buf:
  assumes inv: "zip_inv order z fs" and o: "zip_open n fs = (Ok h, fs')"
    and d: "it_get (inode_table fs) n = Some d" "get_zip_index d = Some k" "by_index z k = Ok zf" "zf_contents zf = Ok c"
  shows "\<exists>ofb. h = n \<and> open_files fs' n = Some ofb \<and> 0 < ofb_open_count ofb \<and> ofb_buf ofb = c"
  using o
proof (cases rule: zip_open_cases)
  case (again ofb)
  moreover have "file_buf_ok fs n ofb" using inv again(2) by (simp add: zip_inv_def)
  ultimately show ?thesis using d inv by (auto simp: file_buf_ok_def zip_inv_def)
qed (use d inv in \<open>auto simp: zip_inv_def\<close>)

text \<open>
  C30: Files of the mounted archive. Take the first entry of the archive that touches a path,
  a file with that name, in any state the mounted file system reaches. Resolving the path by
  lookups gives an inode; opening it for the first time succeeds; and after every successful
  open of it, a read inside the file hands the writer exactly that part of the entry's
  decompressed contents.
\<close>

theorem zipfuse_serves_archive:
  assumes "ZipFuse_new z = Ok fs0" and "zip_run order fs0 fs"
    and "k < length z" and "z ! k = Ok zf" and "enclosed_name zf = Some p" and "p \<noteq> []" and "zf_is_file zf"
    and "\<forall>j<k. \<not> touches (z ! j) p" and "zf_contents zf = Ok c" and "zf_size zf \<le> i64_max"
  shows "\<exists>n. lookup_path fs ROOT p = Ok n \<and>
    (open_files fs n = None \<longrightarrow> (\<exists>fs'. zip_open n fs = (Ok n, fs'))) \<and>
    (\<forall>h fs' m off. zip_open n fs = (Ok h, fs') \<longrightarrow> off \<le> length c \<longrightarrow> off + m < u64_limit \<longrightarrow>
       zip_read wr fs' h m off = wr (take m (drop off c)))"
proof -
  have inv: "zip_inv order z fs" by (rule zip_inv_run [OF assms(2) zip_inv_new [OF assms(1)]])
  then have t: "from_zip z = Ok (inode_table fs)" and z: "zip_archive fs = z" by (simp_all add: zip_inv_def)
  obtain mode where "view (inode_table fs) p = Some ((new_file k zf)\<lparr>id_mode := mode\<rparr>)"
    using view_first_entry [OF t assms(3-6) _ assms(8)] assms(7) by (auto simp: entry_node_def)
  then obtain n d where n: "lookup_path fs ROOT p = Ok n" "it_get (inode_table fs) n = Some d"
    and d: "get_zip_index d = Some k" "id_size d = zf_size zf"
    using lookup_view [OF table_ok_from_zip [OF t]] strip_new_file by metis
  have k: "by_index z k = Ok zf" using assms(3,4) by (simp add: by_index_def)
  have fresh: "\<exists>fs'. zip_open n fs = (Ok n, fs')" if "open_files fs n = None"
    using zip_open_fresh [OF that n(2) d(1)] k z assms(9,10) d(2) by simp
  have "zip_read wr fs' h m off = wr (take m (drop off c))"
    if o: "zip_open n fs = (Ok h, fs')" and "off \<le> length c" "off + m < u64_limit" for h fs' m off
    using zip_open_buf [OF inv o n(2) d(1) k assms(9)] zip_read_open that(2,3) by metis
  with n(1) fresh show ?thesis by (intro exI [of _ n] conjI allI impI)
qed

definition sample_fs :: ZipFuse where
  "sample_fs =
     \<lparr>zip_archive = sample_archive, inode_table = sample_table, open_files = Map.empty, open_dirs = Map.empty\<rparr>"

lemma sample_fs_new: "ZipFuse_new sample_archive = Ok sample_fs"
  by (simp add: ZipFuse_new_def from_zip_sample sample_fs_def)

theorem zipfuse_serves_archive_witness:
  "\<exists>n fs'. lookup_path sample_fs ROOT [''a'', ''b''] = Ok n \<and> zip_open n sample_fs = (Ok n, fs') \<and>
     zip_read vec_write fs' n 1 1 = vec_write [8]"
proof -
  have "sample_archive ! 0 = Ok \<lparr>enclosed_name = Some [''a'', ''b''], zf_is_file = True, unix_mode = None, zf_size = 2,
      zf_contents = Ok [7, 8]\<rparr>"
    by (simp add: sample_archive_def)
  from zipfuse_serves_archive [where wr = vec_write and order = rev and p = "[''a'', ''b'']" and c = "[7, 8]",
    OF sample_fs_new run_refl _ this]
  obtain n where n: "lookup_path sample_fs ROOT [''a'', ''b''] = Ok n"
    "open_files sample_fs n = None \<longrightarrow> (\<exists>fs'. zip_open n sample_fs = (Ok n, fs'))"
    "\<forall>h fs' m off. zip_open n sample_fs = (Ok h, fs') \<longrightarrow> off \<le> length [7, 8 :: u8] \<longrightarrow> off + m < u64_limit \<longrightarrow>
       zip_read vec_write fs' h m off = vec_write (take m (drop off [7, 8]))"
    by (auto simp: sample_archive_def i64_max_def simp del: lookup_path.simps)
  then obtain fs' where "zip_open n sample_fs = (Ok n, fs')" by (auto simp: sample_fs_def)
  moreover with n(3) have "zip_read vec_write fs' n 1 1 = vec_write (take 1 (drop 1 [7, 8]))"
    by (simp add: u64_limit_def)
  ultimately show ?thesis using n(1) by simp
qed

text \<open>
  C35: Open buffers. In every state the file system reaches, archive and table are the ones it
  was mounted with, a file buffer is counted at least once and holds the contents of its
  inode's archive entry, and a directory buffer holds the entries of its directory.
\<close>

theorem zipfuse_buffers_consistent:
  assumes "ZipFuse_new z = Ok fs0" and "zip_run order fs0 fs"
  shows "zip_inv order z fs"
  by (rule zip_inv_run [OF assms(2) zip_inv_new [OF assms(1)]])

lemma sample_fs_open: "zip_open 3 sample_fs =
    (Ok 3, sample_fs\<lparr>open_files := [3 \<mapsto> \<lparr>ofb_open_count = 1, ofb_buf = [7, 8]\<rparr>]\<rparr>)"
  by (simp add: zip_open_def sample_fs_def sample_table_def sample_archive_def find_inode_def it_get_def
      get_zip_index_def by_index_def vec_with_capacity_def i64_max_def)

theorem zipfuse_buffers_consistent_witness:
  "zip_inv rev sample_archive (sample_fs\<lparr>open_files := [3 \<mapsto> \<lparr>ofb_open_count = 1, ofb_buf = [7, 8]\<rparr>]\<rparr>)"
  by (rule zipfuse_buffers_consistent [OF sample_fs_new run_step [OF run_refl step_open [OF sample_fs_open]]]) simp

text \<open>
  C38: Buffers that are never freed. \<open>release\<close> computes the decremented count but does not
  store it. Once a file has been opened twice, its buffer stays allocated in every later
  state, whatever is released.
\<close>

theorem zip_buffer_opened_twice_is_kept:
  assumes "zip_run order fs fs'" and "open_files fs h = Some ofb" and "2 \<le> ofb_open_count ofb"
  shows "\<exists>ofb'. open_files fs' h = Some ofb' \<and> ofb_open_count ofb \<le> ofb_open_count ofb' \<and> ofb_buf ofb' = ofb_buf ofb"
  using assms
proof (induction rule: zip_run.induct)
  case (run_refl fs)
  then show ?case by simp
next
  case (run_step fs fs1 fs2)
  then obtain ofb1 where 1: "open_files fs1 h = Some ofb1" "ofb_open_count ofb \<le> ofb_open_count ofb1" "ofb_buf ofb1 = ofb_buf ofb"
    by blast
  from run_step.hyps(2) show ?case
  proof cases
    case (step_open inode r)
    from step_open(1) show ?thesis by (cases rule: zip_open_cases) (use 1 in auto)
  next
    case (step_release inode r)
    from step_release(1) show ?thesis by (cases rule: zip_release_cases) (use 1 run_step.prems in auto)
  next
    case (step_opendir inode r)
    from step_opendir(1) show ?thesis by (cases rule: zip_opendir_cases) (use 1 in auto)
  next
    case (step_releasedir inode r)
    from step_releasedir(1) show ?thesis by (cases rule: zip_releasedir_cases) (use 1 in auto)
  qed
qed

text \<open>The sample file opened twice and released twice.\<close>

definition sample_fs2 :: ZipFuse where
  "sample_fs2 = sample_fs\<lparr>open_files := [3 \<mapsto> \<lparr>ofb_open_count = 2, ofb_buf = [7, 8]\<rparr>]\<rparr>"

lemma sample_fs2_release: "zip_release 3 sample_fs2 = (Ok (), sample_fs2)"
  by (simp add: sample_fs2_def sample_fs_def zip_release_def checked_sub_def)

theorem zip_buffer_opened_twice_is_kept_witness:
  "\<exists>ofb'. open_files sample_fs2 3 = Some ofb' \<and> 2 \<le> ofb_open_count ofb' \<and> ofb_buf ofb' = [7, 8]"
  using zip_buffer_opened_twice_is_kept
    [where order = rev and h = 3, OF run_step [OF run_step [OF run_refl step_release [OF sample_fs2_release]]
       step_release [OF sample_fs2_release]]]
  by (simp add: sample_fs2_def)

section \<open>Directories\<close>

definition dir_record :: "nat \<Rightarrow> string \<times> DirectoryEntry \<Rightarrow> ZipDirEntry" where
  "dir_record i xe =
     \<lparr>zd_ino = de_inode (snd xe), zd_offset = i + 1,
      zd_type = (case de_kind (snd xe) of DirectoryKind \<Rightarrow> DT_DIR | FileKind \<Rightarrow> DT_REG), zd_name = fst xe\<rparr>"

fun dir_records :: "nat \<Rightarrow> (string \<times> DirectoryEntry) list \<Rightarrow> ZipDirEntry list" where
  "dir_records i [] = []"
| "dir_records i (xe # xes) = dir_record i xe # dir_records (i + 1) xes"

text \<open>The server takes records from the iterator until there are none.\<close>

fun dir_collect :: "nat \<Rightarrow> DirIter \<Rightarrow> (ZipDirEntry list, io_error) outcome" where
  "dir_collect 0 it = OutOfFuel"
| "dir_collect (Suc fuel) it =
     (case dir_next it of
        (Ok None, it') \<Rightarrow> Ok []
      | (Ok (Some e), it') \<Rightarrow> and_then (dir_collect fuel it') (\<lambda>es. Ok (e # es))
      | (Err e, it') \<Rightarrow> Err e
      | (Panic, it') \<Rightarrow> Panic
      | (OutOfFuel, it') \<Rightarrow> OutOfFuel)"

lemma length_dir_records [simp]: "length (dir_records i xs) = length xs"
  by (induction xs arbitrary: i) auto

lemma nth_dir_records: "k < length xs \<Longrightarrow> dir_records i xs ! k = dir_record (i + k) (xs ! k)"
proof (induction xs arbitrary: i k)
  case (Cons x xs)
  then show ?case by (cases k) auto
qed simp

lemma take_dir_records: "take k (dir_records i xs) = dir_records i (take k xs)"
  by (rule nth_equalityI) (simp_all add: nth_dir_records)

lemma dir_records_append: "dir_records i (xs @ ys) = dir_records i xs @ dir_records (i + length xs) ys"
  by (induction xs arbitrary: i) auto

lemma dir_next_record:
  assumes "cur it < length (inner it)" and "di_offset it + length (inner it) < u64_limit"
  shows "dir_next it = (Ok (Some (dir_record (di_offset it + cur it) (inner it ! cur it))), it\<lparr>cur := cur it + 1\<rparr>)"
  using assms by (cases "inner it ! cur it") (simp add: dir_next_def dir_record_def Let_def)

lemma dir_collect_records:
  "length (inner it) - cur it < fuel \<Longrightarrow> di_offset it + length (inner it) < u64_limit \<Longrightarrow>
   dir_collect fuel it = Ok (dir_records (di_offset it + cur it) (drop (cur it) (inner it)))"
proof (induction fuel arbitrary: it)
  case 0
  then show ?case by simp
next
  case (Suc fuel)
  show ?case
  proof (cases "cur it < length (inner it)")
    case True
    with Suc.IH [of "it\<lparr>cur := cur it + 1\<rparr>"] Suc.prems show ?thesis
      by (simp add: dir_next_record Cons_nth_drop_Suc [symmetric])
  qed (simp add: dir_next_def)
qed

definition names_fit :: "nat \<Rightarrow> (string \<times> DirectoryEntry) list \<Rightarrow> bool" where
  "names_fit dirent_size buf \<longleftrightarrow> (\<forall>xe \<in> set buf. dirent_size + length (fst xe) + 7 < 2 ^ 32)"

lemma readdir_end_bounds:
  assumes "names_fit dirent_size buf" and "n < 2 ^ 32" and "start \<le> length buf" and "estimate < n + 2 ^ 32"
  shows "\<exists>endi. readdir_end dirent_size buf n estimate start = Ok endi \<and> start \<le> endi \<and> endi \<le> length buf \<and>
    (start < length buf \<longrightarrow> estimate < n \<longrightarrow> start < endi)"
  using assms
proof (induction dirent_size buf n estimate start rule: readdir_end.induct)
  case (1 dirent_size buf n estimate start)
  show ?case
  proof (cases "estimate < n \<and> start < length buf")
    case True
    let ?e = "(dirent_size + length (fst (buf ! start)) + 7) div 8 * 8"
    have "?e \<le> dirent_size + length (fst (buf ! start)) + 7" by simp
    also have "\<dots> < 2 ^ 32" using 1(2) True unfolding names_fit_def by (meson nth_mem)
    finally have e: "estimate + ?e < n + 2 ^ 32" using True by linarith
    with 1(3) have "estimate + ?e < u64_limit" by (simp add: u64_limit_def)
    with 1(1) [OF True refl, of "estimate + ?e"] True 1(2-4) e show ?thesis
      by (subst readdir_end.simps) (auto simp: Let_def)
  next
    case False
    with 1(4) show ?thesis by (subst readdir_end.simps) auto
  qed
qed

lemma zip_readdir_records:
  assumes odb: "open_dirs fs inode = Some odb" "0 < odb_open_count odb" and fit: "names_fit dirent_size (odb_buf odb)"
    and n: "0 < n" "n < 2 ^ 32" and off: "off \<le> length (odb_buf odb)" "length (odb_buf odb) < u64_limit"
  obtains it m where "zip_readdir dirent_size fs inode n off = Ok it"
    "dir_collect (Suc (length (inner it))) it = Ok (dir_records off (take m (drop off (odb_buf odb))))"
    "off < length (odb_buf odb) \<Longrightarrow> 0 < m" "off + m \<le> length (odb_buf odb)"
proof -
  obtain endi where e: "readdir_end dirent_size (odb_buf odb) n 0 off = Ok endi" "off \<le> endi" "endi \<le> length (odb_buf odb)"
    "off < length (odb_buf odb) \<Longrightarrow> off < endi"
    using readdir_end_bounds [OF fit n(2) off(1), of 0] n(1) by auto
  let ?it = "\<lparr>inner = take (endi - off) (drop off (odb_buf odb)), di_offset = off, cur = 0\<rparr>"
  have "zip_readdir dirent_size fs inode n off = Ok ?it"
    using odb e by (simp add: zip_readdir_def)
  moreover have "dir_collect (Suc (length (inner ?it))) ?it = Ok (dir_records off (take (endi - off) (drop off (odb_buf odb))))"
    using dir_collect_records [of ?it "Suc (length (inner ?it))"] e off by simp
  ultimately show thesis using that [of ?it "endi - off"] e by simp
qed

text \<open>
  A scan of a directory: the kernel asks for records from an offset on with a buffer of some
  positive size, takes at least one of them and goes on at the offset of the last one it took;
  it ends when there are none.
\<close>

inductive dir_scan :: "nat \<Rightarrow> ZipFuse \<Rightarrow> Inode \<Rightarrow> nat \<Rightarrow> ZipDirEntry list \<Rightarrow> bool" for dirent_size fs inode where
  scan_end: "0 < n \<Longrightarrow> n < 2 ^ 32 \<Longrightarrow> zip_readdir dirent_size fs inode n off = Ok it \<Longrightarrow>
    dir_collect (Suc (length (inner it))) it = Ok [] \<Longrightarrow> dir_scan dirent_size fs inode off []"
| scan_more: "0 < n \<Longrightarrow> n < 2 ^ 32 \<Longrightarrow> zip_readdir dirent_size fs inode n off = Ok it \<Longrightarrow>
    dir_collect (Suc (length (inner it))) it = Ok es \<Longrightarrow> 0 < k \<Longrightarrow> k \<le> length es \<Longrightarrow>
    dir_scan dirent_size fs inode (zd_offset (es ! (k - 1))) rest \<Longrightarrow> dir_scan dirent_size fs inode off (take k es @ rest)"

lemma dir_scan_records:
  assumes odb: "open_dirs fs inode = Some odb" "0 < odb_open_count odb" and fit: "names_fit dirent_size (odb_buf odb)"
    and len: "length (odb_buf odb) < u64_limit"
  shows "dir_scan dirent_size fs inode off es \<Longrightarrow> off \<le> length (odb_buf odb) \<Longrightarrow> es = dir_records off (drop off (odb_buf odb))"
proof (induction rule: dir_scan.induct)
  case (scan_end n off it)
  from zip_readdir_records [OF odb fit scan_end(1,2) scan_end(5) len] scan_end(3,4) scan_end(5)
  obtain m where "dir_records off (take m (drop off (odb_buf odb))) = []" "off < length (odb_buf odb) \<Longrightarrow> 0 < m"
    by (metis outcome.inject(1))
  then have "length (take m (drop off (odb_buf odb))) = 0" by (metis length_dir_records list.size(3))
  with \<open>off < length (odb_buf odb) \<Longrightarrow> 0 < m\<close> have "drop off (odb_buf odb) = []"
    by (cases "off < length (odb_buf odb)") auto
  then show ?case by simp
next
  case (scan_more n off it es k rest)
  from zip_readdir_records [OF odb fit scan_more(1,2) scan_more(9) len] scan_more(3,4)
  obtain m where es: "es = dir_records off (take m (drop off (odb_buf odb)))" and m: "off + m \<le> length (odb_buf odb)"
    by (metis outcome.inject(1))
  have k: "k \<le> m" "off + k \<le> length (odb_buf odb)" using scan_more(6) m by (auto simp: es)
  have "zd_offset (es ! (k - 1)) = off + k"
    using scan_more(5) k by (subst es, subst nth_dir_records) (auto simp: dir_record_def)
  with scan_more.IH k have rest: "rest = dir_records (off + k) (drop (off + k) (odb_buf odb))" by simp
  have "take k es = dir_records off (take k (drop off (odb_buf odb)))"
    using k by (simp add: es take_dir_records min_def)
  with rest k have "take k es @ rest = dir_records off (take k (drop off (odb_buf odb)) @ drop k (drop off (odb_buf odb)))"
    by (simp add: dir_records_append min_def add.commute)
  then show ?case by (simp only: append_take_drop_id)
qed

lemma dir_scan_exists:
  assumes odb: "open_dirs fs inode = Some odb" "0 < odb_open_count odb" and fit: "names_fit dirent_size (odb_buf odb)"
    and len: "length (odb_buf odb) < u64_limit"
  shows "off \<le> length (odb_buf odb) \<Longrightarrow> \<exists>es. dir_scan dirent_size fs inode off es"
proof (induction "length (odb_buf odb) - off" arbitrary: off)
  case 0
  obtain it m where "zip_readdir dirent_size fs inode 1 off = Ok it"
    "dir_collect (Suc (length (inner it))) it = Ok (dir_records off (take m (drop off (odb_buf odb))))"
    using zip_readdir_records [OF odb fit, of 1 off] 0 len by auto
  with 0 have "dir_scan dirent_size fs inode off []" by (intro scan_end [where n = 1 and it = it]) (simp_all del: dir_collect.simps)
  then show ?case ..
next
  case (Suc k)
  then have off: "off < length (odb_buf odb)" by simp
  have one: "0 < (1 :: nat)" "(1 :: nat) < 2 ^ 32" by simp_all
  obtain it m where it: "zip_readdir dirent_size fs inode 1 off = Ok it"
    "dir_collect (Suc (length (inner it))) it = Ok (dir_records off (take m (drop off (odb_buf odb))))" and m: "0 < m"
    using zip_readdir_records [OF odb fit one Suc.prems len] off by blast
  obtain rest where "dir_scan dirent_size fs inode (off + 1) rest" using Suc off by fastforce
  moreover have "zd_offset (dir_records off (take m (drop off (odb_buf odb))) ! (1 - 1)) = off + 1"
    using m off by (simp add: nth_dir_records dir_record_def)
  ultimately have "dir_scan dirent_size fs inode off (take 1 (dir_records off (take m (drop off (odb_buf odb)))) @ rest)"
    using m off by (intro scan_more [where n = 1, OF _ _ it]) (simp_all add: Suc_le_eq)
  then show ?case ..
qed

lemma cstring_try_map_names:
  "(\<And>x. x \<in> fst ` set xs \<Longrightarrow> CHR 0x00 \<notin> set x) \<Longrightarrow>
   try_map (\<lambda>(name, e). and_then (cstring_new name) (\<lambda>name. Ok (name, e))) xs = Ok xs"
  by (induction xs) (auto simp: cstring_new_def)

text \<open>
  Opening directories. In every reachable state, opening an inode that is a directory and is
  not open yet succeeds.
\<close>

lemma zip_opendir_succeeds:
  assumes "ZipFuse_new z = Ok fs0" and "zip_run order fs0 fs" and "\<And>h. set (order h) = set h"
    and "it_get (inode_table fs) n = Some d" and "get_directory d = Some dir" and "open_dirs fs n = None"
  shows "\<exists>fs'. zip_opendir order n fs = (Ok n, fs')"
proof -
  have "from_zip z = Ok (inode_table fs)"
    using zip_inv_run [OF assms(2) zip_inv_new [OF assms(1)]] by (simp add: zip_inv_def)
  from from_zip_names_ok [OF this] assms(4) have "data_names_ok d"
    by (auto simp: names_ok_def list_all_length it_get_Some_iff)
  with assms(3,5) have "\<And>x. x \<in> fst ` set (order dir) \<Longrightarrow> CHR 0x00 \<notin> set x" by (auto simp: data_names_ok_def)
  then have "(try_map (\<lambda>(name, e). and_then (cstring_new name) (\<lambda>name. Ok (name, e))) (order dir) :: (_, io_error) outcome) = Ok (order dir)"
    by (rule cstring_try_map_names)
  with assms(4-6) show ?thesis by (simp add: zip_opendir_def find_inode_def)
qed

definition sample_dir :: InodeData where
  "sample_dir = \<lparr>id_size = 0, id_mode = 0x1FF, id_data = Directory [(''b'', \<lparr>de_inode = 3, de_kind = FileKind\<rparr>)]\<rparr>"

lemma sample_dir_at: "it_get sample_table 2 = Some sample_dir"
  by (simp add: sample_table_def it_get_def sample_dir_def)

lemma sample_dir_entries: "get_directory sample_dir = Some [(''b'', \<lparr>de_inode = 3, de_kind = FileKind\<rparr>)]"
  by (simp add: sample_dir_def get_directory_def)

text \<open>
  C34: Listing directories. Let a directory be open in a reachable state and \<open>HashMap::iter\<close>
  give every entry once. A scan from offset 0 can be completed, and every completed scan,
  whatever buffer sizes the kernel uses and however many records it takes at a time, has
  returned exactly the entries of the directory, each once, with inode and type.
\<close>

theorem zip_readdir_lists_directory:
  assumes "ZipFuse_new z = Ok fs0" and "zip_run order fs0 fs" and "\<And>h. mset (order h) = mset h"
    and "it_get (inode_table fs) n = Some d" and "get_directory d = Some dir" and "open_dirs fs n = Some odb"
    and "names_fit dirent_size dir" and "length dir < u64_limit"
  shows "(\<exists>es. dir_scan dirent_size fs n 0 es) \<and>
    (\<forall>es. dir_scan dirent_size fs n 0 es \<longrightarrow>
       mset (map (\<lambda>e. (zd_name e, zd_ino e, zd_type e)) es) =
       mset (map (\<lambda>(x, e). (x, de_inode e, case de_kind e of DirectoryKind \<Rightarrow> DT_DIR | FileKind \<Rightarrow> DT_REG)) dir))"
proof -
  let ?f = "\<lambda>(x, e). (x, de_inode e, case de_kind e of DirectoryKind \<Rightarrow> DT_DIR | FileKind \<Rightarrow> DT_REG)"
  have "dir_buf_ok order fs n odb"
    using zip_inv_run [OF assms(2) zip_inv_new [OF assms(1)]] assms(6) by (simp add: zip_inv_def)
  with assms(4,5) have odb: "0 < odb_open_count odb" "odb_buf odb = order dir" by (auto simp: dir_buf_ok_def)
  have fit: "names_fit dirent_size (odb_buf odb)" and len: "length (odb_buf odb) < u64_limit"
    using assms(3,7,8) odb mset_eq_setD mset_eq_length unfolding names_fit_def by metis+
  have rec: "map (\<lambda>e. (zd_name e, zd_ino e, zd_type e)) (dir_records i xs) = map ?f xs" for i xs
    by (induction xs arbitrary: i) (auto simp: dir_record_def)
  have "mset (map (\<lambda>e. (zd_name e, zd_ino e, zd_type e)) es) = mset (map ?f dir)" if "dir_scan dirent_size fs n 0 es" for es
  proof -
    have "es = dir_records 0 (order dir)" using dir_scan_records [OF assms(6) odb(1) fit len that] odb(2) by simp
    then have "mset (map (\<lambda>e. (zd_name e, zd_ino e, zd_type e)) es) = image_mset ?f (mset (order dir))"
      by (simp only: rec mset_map)
    then show ?thesis by (simp only: assms(3) mset_map)
  qed
  with dir_scan_exists [OF assms(6) odb(1) fit len, of 0] show ?thesis by blast
qed

theorem zip_readdir_lists_directory_witness:
  "\<exists>es. dir_scan 24 (snd (zip_opendir rev 2 sample_fs)) 2 0 es \<and>
     mset (map (\<lambda>e. (zd_name e, zd_ino e, zd_type e)) es) = mset [(''b'', 3, DT_REG)]"
proof -
  let ?dir = "[(''b'', \<lparr>de_inode = 3, de_kind = FileKind\<rparr>)]"
  let ?odb = "\<lparr>odb_open_count = 1, odb_buf = ?dir\<rparr>"
  have s: "zip_opendir rev 2 sample_fs = (Ok 2, sample_fs\<lparr>open_dirs := [2 \<mapsto> ?odb]\<rparr>)"
    by (simp add: zip_opendir_def sample_fs_def find_inode_def sample_dir_at sample_dir_entries cstring_new_def)
  have "Ok 2 \<noteq> (Panic :: (nat, io_error) outcome)" by simp
  from zip_readdir_lists_directory [where n = 2 and dirent_size = 24 and odb = ?odb,
      OF sample_fs_new run_step [OF run_refl step_opendir [OF s this]] mset_rev _ sample_dir_entries]
  show ?thesis unfolding s by (auto simp: sample_fs_def sample_dir_at names_fit_def u64_limit_def)
qed

text \<open>
  Reads that start beyond the end of an open file. The slice expression of \<open>read\<close> panics
  when the requested offset is greater than the length of the buffer.
\<close>

lemma zip_read_beyond_end_panics:
  assumes "open_files fs h = Some ofb" and "0 < ofb_open_count ofb" and "length (ofb_buf ofb) < off" and "off + n < u64_limit"
  shows "zip_read wr fs h n off w = (Panic, w)"
  using assms by (simp add: zip_read_def slice_range_def Let_def)

end
