(* ===== verification/ZipTests.thy ===== *)
theory ZipTests
  imports ZipFuse BuilderTests
begin

text \<open>
  The unit tests of \<^verbatim>\<open>zipfuse/src/inode.rs\<close>. The writer of the zip crate is a parameter, from the entries
  that are added to the archive; what the lemmas ask of it is that the archive gives back the entries, with
  their names, kinds, sizes and contents and with any modes (\<open>archive_of\<close>).
\<close>

section \<open>Archives written by the tests\<close>

text \<open>The name and, for a file, the content; the archive gives each entry back in turn.\<close>

type_synonym added = "string \<times> bytes option"

definition entry_of :: "added \<Rightarrow> (ZipFile, io_error) outcome \<Rightarrow> bool" where
  "entry_of a e \<longleftrightarrow>
     (\<exists>mode. e = Ok \<lparr>enclosed_name = Some (split_on CHR ''/'' (fst a)), zf_is_file = (snd a \<noteq> None), unix_mode = mode,
        zf_size = length (unwrap_or [] (snd a)), zf_contents = Ok (unwrap_or [] (snd a))\<rparr>)"

definition archive_of :: "added list \<Rightarrow> ZipArchive \<Rightarrow> bool" where
  "archive_of as archive \<longleftrightarrow> list_all2 entry_of as archive"

type_synonym zip_writer = "added list \<Rightarrow> ZipArchive"

text \<open>The table of the archive with the added entries; an archive that is refused fails the test.\<close>

definition zip_setup :: "zip_writer \<Rightarrow> added list \<Rightarrow> (InodeTable, zip_error) outcome" where
  "zip_setup w as = expect (from_zip (w as))"

definition it_check_dir :: "InodeTable \<Rightarrow> Inode \<Rightarrow> string \<Rightarrow> (Inode, zip_error) outcome" where
  "it_check_dir it parent name =
     and_then (cstring_new name) (\<lambda>name.
     and_then (it_find it parent name) (\<lambda>found.
     and_then (unwrap found) (\<lambda>inode.
     and_then (unwrap (it_get it inode)) (\<lambda>inode_data.
     and_then (assertion (0 = id_size inode_data)) (\<lambda>_.
     and_then (assertion (is_dir inode_data)) (\<lambda>_.
     Ok inode))))))"

definition it_check_file :: "InodeTable \<Rightarrow> Inode \<Rightarrow> string \<Rightarrow> (InodeData, zip_error) outcome" where
  "it_check_file it parent name =
     and_then (cstring_new name) (\<lambda>name.
     and_then (it_find it parent name) (\<lambda>found.
     and_then (unwrap found) (\<lambda>inode.
     and_then (unwrap (it_get it inode)) (\<lambda>inode_data.
     and_then (assertion (\<not> is_dir inode_data)) (\<lambda>_.
     Ok inode_data)))))"

section \<open>The tests of \<^verbatim>\<open>inode.rs\<close>\<close>

definition empty_zip_has_two_inodes :: "zip_writer \<Rightarrow> (unit, zip_error) outcome" where
  "empty_zip_has_two_inodes w =
     and_then (zip_setup w []) (\<lambda>it.
     and_then (assertion (2 = length (table it))) (\<lambda>_.
     and_then (assertion (it_get it INVALID = None)) (\<lambda>_.
     assertion (it_get it ROOT \<noteq> None))))"

definition digits :: bytes where
  "digits = [48, 49, 50, 51, 52, 53, 54, 55, 56, 57]"

definition one_file :: "zip_writer \<Rightarrow> (unit, zip_error) outcome" where
  "one_file w =
     and_then (zip_setup w [(''foo'', Some digits)]) (\<lambda>it.
     and_then (it_check_file it ROOT ''foo'') (\<lambda>inode_data.
     assertion (length digits = id_size inode_data)))"

definition one_dir :: "zip_writer \<Rightarrow> (unit, zip_error) outcome" where
  "one_dir w =
     and_then (zip_setup w [(''foo'', None)]) (\<lambda>it.
     and_then (it_check_dir it ROOT ''foo'') (\<lambda>inode.
     and_then (unwrap (it_get it inode)) (\<lambda>inode_data.
     and_then (unwrap (get_directory inode_data)) (\<lambda>directory.
     assertion (0 = length directory)))))"

definition one_file_in_subdirs :: "zip_writer \<Rightarrow> (unit, zip_error) outcome" where
  "one_file_in_subdirs w =
     and_then (zip_setup w [(''a/b/c/d'', Some digits)]) (\<lambda>it.
     and_then (assertion (6 = length (table it))) (\<lambda>_.
     and_then (it_check_dir it ROOT ''a'') (\<lambda>a.
     and_then (it_check_dir it a ''b'') (\<lambda>b.
     and_then (it_check_dir it b ''c'') (\<lambda>c.
     and_then (it_check_file it c ''d'') (\<lambda>d.
     assertion (10 = id_size d)))))))"

definition complex_entries :: "added list" where
  "complex_entries =
     [(''a/b1'', None), (''a/b2/c1'', Some []), (''a/b2/c2/d1'', Some []), (''a/b2/c2/d2'', Some []),
      (''a/b2/c2/d3'', Some []), (''x/y1'', Some []), (''x/y2'', Some []), (''x/y3'', None), (''foo'', Some []),
      (''bar'', Some [])]"

definition it_complex_hierarchy :: "zip_writer \<Rightarrow> (unit, zip_error) outcome" where
  "it_complex_hierarchy w =
     and_then (zip_setup w complex_entries) (\<lambda>it.
     and_then (assertion (16 = length (table it))) (\<lambda>_.
     and_then (it_check_dir it ROOT ''a'') (\<lambda>a.
     and_then (it_check_dir it a ''b1'') (\<lambda>_.
     and_then (it_check_dir it a ''b2'') (\<lambda>b2.
     and_then (it_check_file it b2 ''c1'') (\<lambda>_.
     and_then (it_check_dir it b2 ''c2'') (\<lambda>c2.
     and_then (it_check_file it c2 ''d1'') (\<lambda>_.
     and_then (it_check_file it c2 ''d3'') (\<lambda>_.
     and_then (it_check_file it c2 ''d3'') (\<lambda>_.
     and_then (it_check_dir it ROOT ''x'') (\<lambda>x.
     and_then (it_check_file it x ''y1'') (\<lambda>_.
     and_then (it_check_file it x ''y2'') (\<lambda>_.
     and_then (it_check_dir it x ''y3'') (\<lambda>_.
     and_then (it_check_file it ROOT ''foo'') (\<lambda>_.
     and_then (it_check_file it ROOT ''bar'') (\<lambda>_.
     Ok ()))))))))))))))))"

definition file_size_test :: "zip_writer \<Rightarrow> (unit, zip_error) outcome" where
  "file_size_test w =
     and_then (zip_setup w 
       [(''empty'', Some []), (''10bytes'', Some (zeros 10)), (''1234bytes'', Some (zeros 1234)),
        (''2^20bytes'', Some (zeros (push_bit 20 2)))]) (\<lambda>it.
     and_then (it_check_file it ROOT ''empty'') (\<lambda>f.
     and_then (assertion (0 = id_size f)) (\<lambda>_.
     and_then (it_check_file it ROOT ''10bytes'') (\<lambda>f.
     and_then (assertion (10 = id_size f)) (\<lambda>_.
     and_then (it_check_file it ROOT ''1234bytes'') (\<lambda>f.
     and_then (assertion (1234 = id_size f)) (\<lambda>_.
     and_then (it_check_file it ROOT ''2^20bytes'') (\<lambda>f.
     assertion (push_bit 20 2 = id_size f)))))))))"

definition rejects_invalid_paths :: "zip_writer \<Rightarrow> (unit, zip_error) outcome" where
  "rejects_invalid_paths w =
     (let invalid_paths = [''a/../../b'', ''a/..'', ''a/../../b/c'', ''a/b/../c''] in
      try_fold (\<lambda>_ path. assert_err (from_zip (w [(path, Some [])]))) () invalid_paths)"

lemmas zip_eval =
  archive_of_def list_all2_Cons1 entry_of_def unwrap_or_def zip_setup_def it_check_dir_def it_check_file_def
  from_zip_eq empty_table_def add_entry_def it_find_def it_get_def it_add_def it_put_def it_update_def
  add_to_directory_def get_directory_def cstring_new_def new_dir_def new_file_def is_dir_def ROOT_def

definition writes_back :: "zip_writer \<Rightarrow> added list \<Rightarrow> bool" where
  "writes_back w as \<longleftrightarrow> archive_of as (w as)"

lemma inode_tests_pass:
  "writes_back w [] \<Longrightarrow> empty_zip_has_two_inodes w = Ok ()"
  "writes_back w [(''foo'', Some digits)] \<Longrightarrow> one_file w = Ok ()"
  "writes_back w [(''foo'', None)] \<Longrightarrow> one_dir w = Ok ()"
  "writes_back w [(''a/b/c/d'', Some digits)] \<Longrightarrow> one_file_in_subdirs w = Ok ()"
  by (auto simp: writes_back_def zip_eval empty_zip_has_two_inodes_def one_file_def one_dir_def one_file_in_subdirs_def
      digits_def)

lemma it_complex_hierarchy_passes:
  assumes "writes_back w complex_entries"
  shows "it_complex_hierarchy w = Ok ()"
  using assms by (auto simp: writes_back_def zip_eval complex_entries_def it_complex_hierarchy_def)

lemma file_size_test_passes:
  assumes "writes_back w [(''empty'', Some []), (''10bytes'', Some (zeros 10)), (''1234bytes'', Some (zeros 1234)),
    (''2^20bytes'', Some (zeros (push_bit 20 2)))]"
  shows "file_size_test w = Ok ()"
  using assms by (auto simp: writes_back_def zip_eval file_size_test_def)

text \<open>The zip crate gives no enclosed name for a path that leaves the archive; the other paths of the test
  have a component \<open>..\<close> and are refused by the table.\<close>

definition invalid_entry :: "string \<Rightarrow> ZipArchive \<Rightarrow> bool" where
  "invalid_entry path archive \<longleftrightarrow>
     (\<exists>zf. archive = [Ok zf] \<and> zf_is_file zf \<and> enclosed_name zf \<in> {None, Some (split_on CHR ''/'' path)})"

lemma rejects_invalid_paths_passes:
  assumes "\<And>path. path \<in> {''a/../../b'', ''a/..'', ''a/../../b/c'', ''a/b/../c''} \<Longrightarrow> invalid_entry path (w [(path, Some [])])"
  shows "rejects_invalid_paths w = Ok ()"
proof -
  have "assert_err (from_zip (w [(path, Some [])])) = (Ok () :: (unit, zip_error) outcome)"
    if path: "path \<in> {''a/../../b'', ''a/..'', ''a/../../b/c'', ''a/b/../c''}" for path
    using assms [OF path] path by (auto simp: invalid_entry_def zip_eval)
  then show ?thesis by (simp add: rejects_invalid_paths_def)
qed

end
