(* ===== verification/ZipMountTests.thy ===== *)
theory ZipMountTests
  imports ZipTests
begin

text \<open>
  The tests of \<^verbatim>\<open>zipfuse/src/main.rs\<close>, which mount an archive and look at it through the file system.
  The calls of the standard library are the requests that the kernel makes for them: a lookup for every
  component of a path, \<open>getattr\<close> for the metadata, \<open>open\<close>, reads up to the end and \<open>release\<close> for the
  content, \<open>opendir\<close>, reads of entries up to the end and \<open>releasedir\<close> for a directory. How many bytes the
  kernel asks for is a parameter, and so are the answers of \<open>statfs\<close> while the test waits for the mount.

  The lemmas: the tests pass on every archive with the entries that they add, for any sizes of the
  kernel's requests and for any order in which the table lists a directory.
\<close>

section \<open>Waiting for the mount\<close>

datatype mount_error = StatfsFailed io_error | TimedOut

definition POLL_INTERVAL :: nat where "POLL_INTERVAL = 50"
definition TIMEOUT :: nat where "TIMEOUT = 10000"
definition FUSE_SUPER_MAGIC :: nat where "FUSE_SUPER_MAGIC = 0x65735546"

text \<open>A poll is the type that \<open>statfs\<close> reports and the time, in milliseconds, that has passed at the
  check after it.\<close>

fun wait_for_mount :: "((nat, io_error) outcome \<times> nat) list \<Rightarrow> (unit, mount_error) outcome" where
  "wait_for_mount [] = OutOfFuel"
| "wait_for_mount ((fs_type, elapsed) # polls) =
     and_then (map_err StatfsFailed fs_type) (\<lambda>t.
     if t = FUSE_SUPER_MAGIC then Ok ()
     else if TIMEOUT < elapsed then Err TimedOut
     else wait_for_mount polls)"

text \<open>Each round sleeps, so the wait is over after 202 polls at the latest.\<close>

definition polls_spaced :: "((nat, io_error) outcome \<times> nat) list \<Rightarrow> bool" where
  "polls_spaced polls \<longleftrightarrow> (\<forall>k < length polls. POLL_INTERVAL * k \<le> snd (polls ! k) \<and> is_ok (fst (polls ! k)))"

lemma wait_for_mount_ends_from:
  assumes "\<And>k. k < length polls \<Longrightarrow> POLL_INTERVAL * (j + k) \<le> snd (polls ! k) \<and> is_ok (fst (polls ! k))"
    and "202 \<le> j + length polls" and "polls \<noteq> []"
  shows "wait_for_mount polls \<in> {Ok (), Err TimedOut}"
  using assms
proof (induction polls arbitrary: j)
  case (Cons p polls)
  obtain t elapsed where p: "p = (Ok t, elapsed)"
    using Cons.prems(1) [of 0] by (cases p; cases "fst p") auto
  show ?case
  proof (cases "polls = []")
    case True
    then have "TIMEOUT < elapsed"
      using Cons.prems(1) [of 0] Cons.prems(2) p by (simp add: POLL_INTERVAL_def TIMEOUT_def)
    with p show ?thesis by simp
  next
    case False
    have "wait_for_mount polls \<in> {Ok (), Err TimedOut}"
      by (rule Cons.IH [of "Suc j"]) (use Cons.prems(1) [of "Suc _"] Cons.prems(2) False in auto)
    with p show ?thesis by simp
  qed
qed simp

lemma wait_for_mount_ends:
  "polls_spaced polls \<Longrightarrow> 202 \<le> length polls \<Longrightarrow> wait_for_mount polls \<in> {Ok (), Err TimedOut}"
  using wait_for_mount_ends_from [of polls 0] by (cases polls) (simp_all add: polls_spaced_def)

lemma wait_for_mount_mounted:
  assumes "k < length polls" and "fst (polls ! k) = Ok FUSE_SUPER_MAGIC"
    and "\<And>j. j < k \<Longrightarrow> is_ok (fst (polls ! j)) \<and> snd (polls ! j) \<le> TIMEOUT"
  shows "wait_for_mount polls = Ok ()"
  using assms
proof (induction polls arbitrary: k)
  case (Cons p polls)
  show ?case
  proof (cases k)
    case 0
    with Cons.prems(2) show ?thesis by (cases p) simp
  next
    case (Suc i)
    obtain t elapsed where p: "p = (Ok t, elapsed)" "elapsed \<le> TIMEOUT"
      using Cons.prems(3) [of 0] Suc by (cases p; cases "fst p") auto
    have "wait_for_mount polls = Ok ()"
      by (rule Cons.IH [of i]) (use Cons.prems(1,2) Cons.prems(3) [of "Suc _"] Suc in auto)
    with p show ?thesis by simp
  qed
qed simp

section \<open>The file system seen through the mount\<close>

definition S_IFMT :: u32 where "S_IFMT = 0xF000"

definition client_metadata :: "ZipFuse \<Rightarrow> string list \<Rightarrow> (stat64, io_error) outcome" where
  "client_metadata fs path =
     and_then (lookup_path fs ROOT path) (\<lambda>inode.
     and_then (zip_getattr fs inode) (\<lambda>(st, _). Ok st))"

definition stat_is_dir :: "stat64 \<Rightarrow> bool" where
  "stat_is_dir st \<longleftrightarrow> st_mode st AND S_IFMT = S_IFDIR"

definition stat_is_file :: "stat64 \<Rightarrow> bool" where
  "stat_is_file st \<longleftrightarrow> st_mode st AND S_IFMT = S_IFREG"

text \<open>Reads of \<open>n\<close> bytes, one after the other, until one returns nothing.\<close>

fun read_rest :: "nat \<Rightarrow> ZipFuse \<Rightarrow> nat \<Rightarrow> nat \<Rightarrow> bytes \<Rightarrow> (bytes, io_error) outcome" where
  "read_rest 0 fs handle n acc = OutOfFuel"
| "read_rest (Suc fuel) fs handle n acc =
     (case zip_read vec_write fs handle n (length acc) [] of
        (Ok k, d) \<Rightarrow> if k = 0 then Ok acc else read_rest fuel fs handle n (acc @ d)
      | (Err e, d) \<Rightarrow> Err e
      | (Panic, d) \<Rightarrow> Panic
      | (OutOfFuel, d) \<Rightarrow> OutOfFuel)"

definition client_read :: "nat \<Rightarrow> nat \<Rightarrow> string list \<Rightarrow> (ZipFuse, bytes, io_error) prog" where
  "client_read fuel n path =
     bind_prog (\<lambda>fs. (lookup_path fs ROOT path, fs)) (\<lambda>inode.
     bind_prog (zip_open inode) (\<lambda>handle.
     bind_prog (\<lambda>fs. (read_rest fuel fs handle n [], fs)) (\<lambda>data.
     bind_prog (zip_release inode) (\<lambda>_.
     ret (Ok data)))))"

fun read_entries :: "nat \<Rightarrow> nat \<Rightarrow> ZipFuse \<Rightarrow> Inode \<Rightarrow> nat \<Rightarrow> nat \<Rightarrow> (ZipDirEntry list, io_error) outcome" where
  "read_entries 0 dirent_size fs inode n off = OutOfFuel"
| "read_entries (Suc fuel) dirent_size fs inode n off =
     and_then (zip_readdir dirent_size fs inode n off) (\<lambda>it.
     and_then (dir_collect (Suc (length (inner it))) it) (\<lambda>es.
     if es = [] then Ok []
     else and_then (read_entries fuel dirent_size fs inode n (zd_offset (last es))) (\<lambda>rest. Ok (es @ rest))))"

definition client_read_dir ::
  "((string \<times> DirectoryEntry) list \<Rightarrow> (string \<times> DirectoryEntry) list) \<Rightarrow> nat \<Rightarrow> nat \<Rightarrow> nat \<Rightarrow> string list \<Rightarrow>
   (ZipFuse, string list, io_error) prog" where
  "client_read_dir order dirent_size fuel n path =
     bind_prog (\<lambda>fs. (lookup_path fs ROOT path, fs)) (\<lambda>inode.
     bind_prog (zip_opendir order inode) (\<lambda>handle.
     bind_prog (\<lambda>fs. (read_entries fuel dirent_size fs handle n 0, fs)) (\<lambda>es.
     bind_prog (zip_releasedir inode) (\<lambda>_.
     ret (Ok (map zd_name es))))))"

definition path_of :: "string \<Rightarrow> string list" where
  "path_of path = (if path = [] then [] else split_on CHR ''/'' path)"

text \<open>\<open>Path::is_dir\<close> is false when the metadata cannot be had.\<close>

definition path_is_dir :: "ZipFuse \<Rightarrow> string list \<Rightarrow> bool" where
  "path_is_dir fs path = (case client_metadata fs path of Ok st \<Rightarrow> stat_is_dir st | _ \<Rightarrow> False)"

definition check_file :: "nat \<Rightarrow> nat \<Rightarrow> string \<Rightarrow> bytes \<Rightarrow> (ZipFuse, unit, io_error) prog" where
  "check_file fuel n file content =
     (let path = path_of file in
      bind_prog (\<lambda>fs. (assert_ok (client_metadata fs path), fs)) (\<lambda>_.
      bind_prog (\<lambda>fs. (expect (client_metadata fs path), fs)) (\<lambda>metadata.
      bind_prog (ret (assertion (stat_is_file metadata))) (\<lambda>_.
      bind_prog (ret (assertion (length content = nat (st_size metadata)))) (\<lambda>_.
      bind_prog (\<lambda>fs. case client_read fuel n path fs of (r, fs') \<Rightarrow> (expect r, fs')) (\<lambda>read_data.
      ret (assertion (content = read_data))))))))"

definition check_dir ::
  "((string \<times> DirectoryEntry) list \<Rightarrow> (string \<times> DirectoryEntry) list) \<Rightarrow> nat \<Rightarrow> nat \<Rightarrow> nat \<Rightarrow> string \<Rightarrow>
   string list \<Rightarrow> string list \<Rightarrow> (ZipFuse, unit, io_error) prog" where
  "check_dir order dirent_size fuel n dir files dirs =
     (let path = path_of dir in
      bind_prog (\<lambda>fs. (assert_ok (client_metadata fs path), fs)) (\<lambda>_.
      bind_prog (\<lambda>fs. (expect (client_metadata fs path), fs)) (\<lambda>metadata.
      bind_prog (ret (assertion (stat_is_dir metadata))) (\<lambda>_.
      bind_prog (\<lambda>fs. case client_read_dir order dirent_size fuel n path fs of (r, fs') \<Rightarrow> (expect r, fs')) (\<lambda>names.
      bind_prog (\<lambda>fs. (Ok (filter (\<lambda>x. path_is_dir fs (path @ [x])) names,
                          filter (\<lambda>x. \<not> path_is_dir fs (path @ [x])) names), fs)) (\<lambda>(actual_dirs, actual_files).
      bind_prog (ret (assertion (set files = set actual_files))) (\<lambda>_.
      ret (assertion (set dirs = set actual_dirs)))))))))"

text \<open>The archive with the added entries is mounted by a thread of the test; a failure of that thread leaves
  nothing to check.\<close>

definition run_test ::
  "((nat, io_error) outcome \<times> nat) list \<Rightarrow> bool \<Rightarrow> zip_writer \<Rightarrow> added list \<Rightarrow> (ZipFuse, unit, io_error) prog \<Rightarrow>
   (unit, io_error) outcome" where
  "run_test polls umount_ok w as check =
     and_then (assert_ok (wait_for_mount polls)) (\<lambda>_.
     and_then (expect (ZipFuse_new (w as))) (\<lambda>fs.
     and_then (fst (check fs)) (\<lambda>_.
     assertion umount_ok)))"

section \<open>What the client sees\<close>

definition mode_fits :: "InodeData \<Rightarrow> bool" where
  "mode_fits d \<longleftrightarrow> id_mode d AND S_IFMT \<in> {0, if is_dir d then S_IFDIR else S_IFREG}"

definition dir_at :: "ZipFuse \<Rightarrow> string list \<Rightarrow> (string \<times> DirectoryEntry) list option" where
  "dir_at fs path =
     (case lookup_path fs ROOT path of
        Ok i \<Rightarrow> (case it_get (inode_table fs) i of Some d \<Rightarrow> get_directory d | None \<Rightarrow> None)
      | _ \<Rightarrow> None)"

definition file_at :: "ZipFuse \<Rightarrow> string list \<Rightarrow> bytes option" where
  "file_at fs path =
     (case lookup_path fs ROOT path of
        Ok i \<Rightarrow>
          (case it_get (inode_table fs) i of
             Some d \<Rightarrow>
               (case get_zip_index d of
                  Some k \<Rightarrow>
                    (case by_index (zip_archive fs) k of
                       Ok zf \<Rightarrow> (case zf_contents zf of Ok c \<Rightarrow> if id_size d = length c then Some c else None | _ \<Rightarrow> None)
                     | _ \<Rightarrow> None)
                | None \<Rightarrow> None)
           | None \<Rightarrow> None)
      | _ \<Rightarrow> None)"

definition client_ok ::
  "((string \<times> DirectoryEntry) list \<Rightarrow> (string \<times> DirectoryEntry) list) \<Rightarrow> nat \<Rightarrow> nat \<Rightarrow> nat \<Rightarrow> ZipFuse \<Rightarrow> bool" where
  "client_ok order dirent_size fuel n fs \<longleftrightarrow>
     open_files fs = Map.empty \<and> open_dirs fs = Map.empty \<and>
     table_ok (inode_table fs) \<and> names_ok (inode_table fs) \<and> list_all mode_fits (table (inode_table fs)) \<and>
     (\<forall>h. mset (order h) = mset h) \<and> 0 < n \<and> n < 2 ^ 32 \<and>
     (\<forall>d h. d \<in> set (table (inode_table fs)) \<longrightarrow> get_directory d = Some h \<longrightarrow>
        names_fit dirent_size h \<and> length h < fuel \<and> length h < u64_limit)"

lemma client_metadata_at:
  assumes "lookup_path fs ROOT path = Ok i" and "it_get (inode_table fs) i = Some d"
    and "list_all mode_fits (table (inode_table fs))"
  shows "\<exists>st. client_metadata fs path = Ok st \<and> (stat_is_dir st \<longleftrightarrow> is_dir d) \<and> (stat_is_file st \<longleftrightarrow> \<not> is_dir d) \<and>
    st_size st = int (min (id_size d) i64_max)"
proof -
  have "mode_fits d" using assms(2,3) by (auto simp: it_get_Some_iff list_all_iff)
  then have "((if is_dir d then S_IFDIR else S_IFREG) OR id_mode d) AND S_IFMT = (if is_dir d then S_IFDIR else S_IFREG)"
    by (auto simp: mode_fits_def bit.conj_disj_distrib2 S_IFDIR_def S_IFREG_def S_IFMT_def split: if_splits)
  then show ?thesis
    using assms(1,2)
    by (auto simp: client_metadata_def zip_getattr_def stat_from_def find_inode_def stat_is_dir_def stat_is_file_def
        S_IFDIR_def S_IFREG_def)
qed

text \<open>The reads of a file put its content together.\<close>

lemma read_rest_all:
  assumes "open_files fs h = Some ofb" and "0 < ofb_open_count ofb" and "0 < n" and "length (ofb_buf ofb) + n < u64_limit"
  shows "k \<le> length (ofb_buf ofb) \<Longrightarrow> length (ofb_buf ofb) - k < fuel \<Longrightarrow>
    read_rest fuel fs h n (take k (ofb_buf ofb)) = Ok (ofb_buf ofb)"
proof (induction fuel arbitrary: k)
  case (Suc fuel)
  let ?c = "ofb_buf ofb"
  have rd: "zip_read vec_write fs h n k [] = (Ok (min n (length ?c - k)), take n (drop k ?c))"
    using assms Suc.prems(1) by (subst zip_read_open) (simp_all add: vec_write_def min.commute)
  show ?case
  proof (cases "k = length ?c")
    case False
    have "read_rest fuel fs h n (take (k + n) ?c) = Ok ?c" if "k + n \<le> length ?c"
      by (rule Suc.IH) (use that Suc.prems assms(3) in auto)
    moreover have "read_rest fuel fs h n (take (length ?c) ?c) = Ok ?c"
      by (rule Suc.IH) (use Suc.prems False in auto)
    ultimately show ?thesis
      using rd False Suc.prems assms(3) by (cases "k + n \<le> length ?c") (simp_all add: take_add [symmetric] min_def)
  qed (use rd in simp)
qed simp

lemma reset_open_files: "open_files fs = Map.empty \<Longrightarrow> fs\<lparr>open_files := Map.empty\<rparr> = (fs :: ZipFuse)"
  by (cases fs) simp

lemma reset_open_dirs: "open_dirs fs = Map.empty \<Longrightarrow> fs\<lparr>open_dirs := Map.empty\<rparr> = (fs :: ZipFuse)"
  by (cases fs) simp

lemma file_at_Some:
  assumes "file_at fs path = Some c"
  obtains i d k zf where "lookup_path fs ROOT path = Ok i" "it_get (inode_table fs) i = Some d" "get_zip_index d = Some k"
    "by_index (zip_archive fs) k = Ok zf" "zf_contents zf = Ok c" "id_size d = length c"
  using assms by (auto simp: file_at_def split: outcome.splits option.splits if_splits)

lemma client_read_file:
  assumes f: "file_at fs path = Some c" and "open_files fs = Map.empty" and "0 < n" and "length c + n \<le> i64_max"
    and "length c < fuel"
  shows "client_read fuel n path fs = (Ok c, fs)"
proof -
  obtain i d k zf where i: "lookup_path fs ROOT path = Ok i" "it_get (inode_table fs) i = Some d" "get_zip_index d = Some k"
    "by_index (zip_archive fs) k = Ok zf" "zf_contents zf = Ok c" "id_size d = length c"
    using f by (rule file_at_Some)
  let ?b = "\<lparr>ofb_open_count = 1, ofb_buf = c\<rparr>" and ?fs = "fs\<lparr>open_files := [i \<mapsto> \<lparr>ofb_open_count = 1, ofb_buf = c\<rparr>]\<rparr>"
  have "zip_open i fs = (Ok i, ?fs)"
    using assms i by (simp add: zip_open_def find_inode_def vec_with_capacity_def assertion_def)
  moreover have "read_rest fuel ?fs i n [] = Ok c"
    using read_rest_all [of ?fs i ?b n 0 fuel] assms i64_max_less_u64_limit by simp
  moreover have "zip_release i ?fs = (Ok (), fs)"
    using assms(2) by (simp add: zip_release_def checked_sub_def reset_open_files)
  ultimately show ?thesis using i(1) by (simp add: client_read_def bind_prog_def)
qed

lemma check_file_at:
  assumes f: "file_at fs (path_of file) = Some c" and ok: "client_ok order dirent_size fuel n fs"
    and c: "length c + n \<le> i64_max" "length c < fuel"
  shows "check_file fuel n file content fs = (assertion (content = c), fs)"
proof -
  obtain i d k zf where i: "lookup_path fs ROOT (path_of file) = Ok i" "it_get (inode_table fs) i = Some d"
    "get_zip_index d = Some k" "id_size d = length c"
    using f by (rule file_at_Some)
  have "\<not> is_dir d" using i(3) by (auto simp: get_zip_index_def is_dir_def split: InodeDataData.splits)
  moreover obtain st where "client_metadata fs (path_of file) = Ok st" "stat_is_file st \<longleftrightarrow> \<not> is_dir d"
      "st_size st = int (min (id_size d) i64_max)"
    using client_metadata_at [OF i(1,2)] ok by (auto simp: client_ok_def)
  moreover have "client_read fuel n (path_of file) fs = (Ok c, fs)"
    by (rule client_read_file [OF f]) (use ok c in \<open>auto simp: client_ok_def\<close>)
  ultimately show ?thesis
    using c i(4) by (cases "length content = length c") (auto simp: check_file_def bind_prog_def Let_def min_def assertion_def)
qed

text \<open>The reads of a directory list its entries.\<close>

lemma read_entries_all:
  assumes "open_dirs fs i = Some odb" and "0 < odb_open_count odb" and "names_fit dirent_size (odb_buf odb)"
    and "0 < n" "n < 2 ^ 32" and "length (odb_buf odb) < u64_limit"
  shows "off \<le> length (odb_buf odb) \<Longrightarrow> length (odb_buf odb) - off < fuel \<Longrightarrow>
    read_entries fuel dirent_size fs i n off = Ok (dir_records off (drop off (odb_buf odb)))"
proof (induction fuel arbitrary: off)
  case (Suc fuel)
  let ?b = "odb_buf odb"
  obtain it m where it: "zip_readdir dirent_size fs i n off = Ok it"
    "dir_collect (Suc (length (inner it))) it = Ok (dir_records off (take m (drop off ?b)))"
    "off < length ?b \<longrightarrow> 0 < m" "off + m \<le> length ?b"
    by (rule zip_readdir_records [OF assms(1-5) Suc.prems(1) assms(6)]) blast
  show ?case
  proof (cases "off = length ?b")
    case True
    with it show ?thesis by simp
  next
    case False
    let ?es = "dir_records off (take m (drop off ?b))"
    have m: "0 < m" using it(3) False Suc.prems(1) by simp
    have len: "length ?es = m" using it(4) by simp
    then have ne: "?es \<noteq> []" using m by (metis less_not_refl2 list.size(3))
    have "zd_offset (last ?es) = off + m"
      unfolding last_conv_nth [OF ne] len using m it(4) by (simp add: nth_dir_records dir_record_def)
    moreover note ne
    moreover have "read_entries fuel dirent_size fs i n (off + m) = Ok (dir_records (off + m) (drop (off + m) ?b))"
      by (rule Suc.IH) (use it(4) Suc.prems m in auto)
    moreover have "dir_records off (drop off ?b) = ?es @ dir_records (off + m) (drop (off + m) ?b)"
      using dir_records_append [of off "take m (drop off ?b)" "drop (off + m) ?b"] it(4)
      by (metis add.commute append_take_drop_id drop_drop len length_dir_records)
    ultimately show ?thesis using it(1,2) by simp
  qed
qed simp

lemma map_zd_name_dir_records: "map zd_name (dir_records off xs) = map fst xs"
  by (induction xs arbitrary: off) (simp_all add: dir_record_def)

lemma dir_at_Some:
  assumes "dir_at fs path = Some h"
  obtains i d where "lookup_path fs ROOT path = Ok i" "it_get (inode_table fs) i = Some d" "get_directory d = Some h"
  using assms by (auto simp: dir_at_def split: outcome.splits option.splits)

lemma client_ok_dir:
  assumes "client_ok order dirent_size fuel n fs" and "it_get (inode_table fs) i = Some d" and "get_directory d = Some h"
  shows "names_fit dirent_size h" "length h < fuel" "length h < u64_limit" "x \<in> fst ` set h \<Longrightarrow> CHR 0x00 \<notin> set x"
proof -
  have d: "d \<in> set (table (inode_table fs))" using assms(2) by (auto simp: it_get_Some_iff)
  from assms(1,3) d show "names_fit dirent_size h" "length h < fuel" "length h < u64_limit"
    unfolding client_ok_def by blast+
  have "data_names_ok d" using assms(1) d unfolding client_ok_def names_ok_def list_all_iff by blast
  then show "x \<in> fst ` set h \<Longrightarrow> CHR 0x00 \<notin> set x" using assms(3) unfolding data_names_ok_def by blast
qed

lemma client_read_dir_names:
  assumes h: "dir_at fs path = Some h" and ok: "client_ok order dirent_size fuel n fs"
  shows "client_read_dir order dirent_size fuel n path fs = (Ok (map fst (order h)), fs)"
proof -
  obtain i d where i: "lookup_path fs ROOT path = Ok i" "it_get (inode_table fs) i = Some d" "get_directory d = Some h"
    using h by (rule dir_at_Some)
  note dir = client_ok_dir [OF ok i(2,3)]
  have o: "open_dirs fs = Map.empty" "mset (order h) = mset h" "0 < n" "n < 2 ^ 32" using ok by (simp_all add: client_ok_def)
  have so: "set (order h) = set h" "length (order h) = length h" using mset_eq_setD mset_eq_length o(2) by blast+
  let ?b = "\<lparr>odb_open_count = 1, odb_buf = order h\<rparr>"
  let ?fs = "fs\<lparr>open_dirs := [i \<mapsto> \<lparr>odb_open_count = 1, odb_buf = order h\<rparr>]\<rparr>"
  have "try_map (\<lambda>(name, e). and_then (cstring_new name) (\<lambda>name. Ok (name, e))) (order h) =
      (Ok (order h) :: ((string \<times> DirectoryEntry) list, io_error) outcome)"
    by (rule cstring_try_map_names) (use dir(4) so(1) in simp)
  then have "zip_opendir order i fs = (Ok i, ?fs)"
    using i o(1) by (simp add: zip_opendir_def find_inode_def)
  moreover have "read_entries fuel dirent_size ?fs i n 0 = Ok (dir_records 0 (order h))"
    using read_entries_all [of ?fs i ?b dirent_size n 0 fuel] dir(1-3) so o(3,4) by (simp add: names_fit_def)
  moreover have "zip_releasedir i ?fs = (Ok (), fs)"
    using o(1) by (simp add: zip_releasedir_def checked_sub_def reset_open_dirs)
  ultimately show ?thesis using i(1) by (simp add: client_read_dir_def bind_prog_def map_zd_name_dir_records)
qed

lemma lookup_path_append:
  "lookup_path fs i (p @ q) = and_then (lookup_path fs i p) (\<lambda>j. lookup_path fs j q)"
proof (induction p arbitrary: i)
  case (Cons x p)
  then show ?case by (cases "zip_lookup fs i x") simp_all
qed simp

text \<open>The kinds of the entries are what their metadata says.\<close>

lemma path_is_dir_entry:
  assumes h: "dir_at fs path = Some h" and ok: "client_ok order dirent_size fuel n fs" and e: "(x, e) \<in> set h"
  shows "path_is_dir fs (path @ [x]) \<longleftrightarrow> de_kind e = DirectoryKind"
proof -
  obtain i d where i: "lookup_path fs ROOT path = Ok i" "it_get (inode_table fs) i = Some d" "get_directory d = Some h"
    using h by (rule dir_at_Some)
  have t: "entries_ok (inode_table fs)" using ok by (simp add: client_ok_def table_ok_def)
  have b: "i < length (table (inode_table fs))" "get_directory (table (inode_table fs) ! i) = Some h"
    using i(2,3) by (auto simp: it_get_Some_iff)
  have m: "map_of h x = Some e" using entries_okD(1) [OF t b] e by (simp add: map_of_is_SomeI)
  from entries_okD(2) [OF t b m] have j: "it_get (inode_table fs) (de_inode e) = Some (table (inode_table fs) ! de_inode e)"
      "de_kind e = kind_of (table (inode_table fs) ! de_inode e)"
    by (auto simp: it_get_Some_iff)
  have "lookup_path fs ROOT (path @ [x]) = Ok (de_inode e)"
    using i j(1) m by (simp add: lookup_path_append zip_lookup_def find_inode_def stat_from_def)
  from client_metadata_at [OF this j(1)] ok j(2) show ?thesis
    by (auto simp: path_is_dir_def kind_of_def client_ok_def)
qed

lemma check_dir_at:
  assumes h: "dir_at fs (path_of dir) = Some h" and ok: "client_ok order dirent_size fuel n fs"
  shows "check_dir order dirent_size fuel n dir files dirs fs =
    (assertion (set files = fst ` {(x, e) \<in> set h. de_kind e = FileKind} \<and>
                set dirs = fst ` {(x, e) \<in> set h. de_kind e = DirectoryKind}), fs)"
proof -
  obtain i d where i: "lookup_path fs ROOT (path_of dir) = Ok i" "it_get (inode_table fs) i = Some d"
      "get_directory d = Some h"
    using h by (rule dir_at_Some)
  have "is_dir d" using i(3) by (simp add: is_dir_iff)
  moreover obtain st where "client_metadata fs (path_of dir) = Ok st" "stat_is_dir st \<longleftrightarrow> is_dir d"
    using client_metadata_at [OF i(1,2)] ok by (auto simp: client_ok_def)
  moreover have "mset (order h) = mset h" using ok by (simp add: client_ok_def)
  then have so: "set (order h) = set h" by (rule mset_eq_setD)
  have sets: "set (filter P (map fst (order h))) = fst ` {(x, e) \<in> set h. de_kind e = k}"
    if "\<And>x e. (x, e) \<in> set h \<Longrightarrow> P x \<longleftrightarrow> de_kind e = k" for P k
  proof (rule set_eqI)
    fix x
    have "x \<in> set (filter P (map fst (order h))) \<longleftrightarrow> (\<exists>e. (x, e) \<in> set h \<and> P x)" by (force simp: so)
    also have "\<dots> \<longleftrightarrow> (\<exists>e. (x, e) \<in> set h \<and> de_kind e = k)" using that by blast
    also have "\<dots> \<longleftrightarrow> x \<in> fst ` {(x, e) \<in> set h. de_kind e = k}" by force
    finally show "x \<in> set (filter P (map fst (order h))) \<longleftrightarrow> x \<in> fst ` {(x, e) \<in> set h. de_kind e = k}" .
  qed
  have "set (filter (\<lambda>x. path_is_dir fs (path_of dir @ [x])) (map fst (order h))) =
        fst ` {(x, e) \<in> set h. de_kind e = DirectoryKind}"
    by (rule sets) (rule path_is_dir_entry [OF h ok])
  moreover have "set (filter (\<lambda>x. \<not> path_is_dir fs (path_of dir @ [x])) (map fst (order h))) =
        fst ` {(x, e) \<in> set h. de_kind e = FileKind}"
  proof (rule sets)
    fix x e
    assume "(x, e) \<in> set h"
    from path_is_dir_entry [OF h ok this] show "(\<not> path_is_dir fs (path_of dir @ [x])) = (de_kind e = FileKind)"
      by (cases "de_kind e") simp_all
  qed
  ultimately show ?thesis
    using client_read_dir_names [OF h ok]
    by (simp add: check_dir_def bind_prog_def Let_def assertion_def del: set_filter set_map)
qed

section \<open>The tests\<close>

type_synonym order_fn = "(string \<times> DirectoryEntry) list \<Rightarrow> (string \<times> DirectoryEntry) list"
type_synonym mount_polls = "((nat, io_error) outcome \<times> nat) list"

text \<open>The parameters of a run: the order of the table, the size of an entry's header, the bound on the number
  of requests, the size of a request.\<close>

record client_params =
  cp_order :: order_fn
  cp_dirent :: nat
  cp_fuel :: nat
  cp_size :: nat

abbreviation dir_check :: "client_params \<Rightarrow> string \<Rightarrow> string list \<Rightarrow> string list \<Rightarrow> (ZipFuse, unit, io_error) prog" where
  "dir_check cp \<equiv> check_dir (cp_order cp) (cp_dirent cp) (cp_fuel cp) (cp_size cp)"

abbreviation file_check :: "client_params \<Rightarrow> string \<Rightarrow> bytes \<Rightarrow> (ZipFuse, unit, io_error) prog" where
  "file_check cp \<equiv> check_file (cp_fuel cp) (cp_size cp)"

fun checks :: "(ZipFuse, unit, io_error) prog list \<Rightarrow> (ZipFuse, unit, io_error) prog" where
  "checks [] = ret (Ok ())"
| "checks (c # cs) = bind_prog c (\<lambda>_. checks cs)"

definition test_empty :: "client_params \<Rightarrow> zip_writer \<Rightarrow> mount_polls \<Rightarrow> bool \<Rightarrow> (unit, io_error) outcome" where
  "test_empty cp w polls umount_ok =
     run_test polls umount_ok w [] (checks [dir_check cp [] [] []])"

definition single_file :: "client_params \<Rightarrow> zip_writer \<Rightarrow> mount_polls \<Rightarrow> bool \<Rightarrow> (unit, io_error) outcome" where
  "single_file cp w polls umount_ok =
     run_test polls umount_ok w [(''foo'', Some digits)] (checks [dir_check cp [] [''foo''] [], file_check cp ''foo'' digits])"

definition single_dir :: "client_params \<Rightarrow> zip_writer \<Rightarrow> mount_polls \<Rightarrow> bool \<Rightarrow> (unit, io_error) outcome" where
  "single_dir cp w polls umount_ok =
     run_test polls umount_ok w [(''dir'', None)] (checks [dir_check cp [] [] [''dir''], dir_check cp ''dir'' [] []])"

definition complex_hierarchy :: "client_params \<Rightarrow> zip_writer \<Rightarrow> mount_polls \<Rightarrow> bool \<Rightarrow> (unit, io_error) outcome" where
  "complex_hierarchy cp w polls umount_ok =
     run_test polls umount_ok w complex_entries (checks
       [dir_check cp [] [''foo'', ''bar''] [''a'', ''x''],
        dir_check cp ''a'' [] [''b1'', ''b2''],
        dir_check cp ''a/b1'' [] [],
        dir_check cp ''a/b2'' [''c1''] [''c2''],
        dir_check cp ''a/b2/c2'' [''d1'', ''d2'', ''d3''] [],
        dir_check cp ''x'' [''y1'', ''y2''] [''y3''],
        dir_check cp ''x/y3'' [] [],
        file_check cp ''a/b2/c1'' [],
        file_check cp ''a/b2/c2/d1'' [],
        file_check cp ''a/b2/c2/d2'' [],
        file_check cp ''a/b2/c2/d3'' [],
        file_check cp ''x/y1'' [],
        file_check cp ''x/y2'' [],
        file_check cp ''foo'' [],
        file_check cp ''bar'' []])"

definition large_file :: "client_params \<Rightarrow> zip_writer \<Rightarrow> mount_polls \<Rightarrow> bool \<Rightarrow> (unit, io_error) outcome" where
  "large_file cp w polls umount_ok =
     run_test polls umount_ok w [(''foo'', Some (replicate (push_bit 20 2) 10))] (checks [file_check cp ''foo'' (replicate (push_bit 20 2) 10)])"

text \<open>The file type in the mode of an entry is the kind of the entry, or is left out.\<close>

definition modes_fit :: "ZipArchive \<Rightarrow> bool" where
  "modes_fit archive \<longleftrightarrow>
     (\<forall>zf mode. Ok zf \<in> set archive \<longrightarrow> unix_mode zf = Some mode \<longrightarrow>
        mode AND S_IFMT \<in> {0, if zf_is_file zf then S_IFREG else S_IFDIR})"

text \<open>What a run may assume: the mount appears, a listing gives every entry once, the kernel's requests
  have a size, and there are more requests than entries or bytes.\<close>

definition run_fine :: "client_params \<Rightarrow> nat \<Rightarrow> mount_polls \<Rightarrow> bool" where
  "run_fine cp bound polls \<longleftrightarrow>
     wait_for_mount polls = Ok () \<and> (\<forall>h. mset (cp_order cp h) = mset h) \<and> cp_dirent cp \<le> 2 ^ 16 \<and>
     bound < cp_fuel cp \<and> 0 < cp_size cp \<and> cp_size cp < 2 ^ 32"

abbreviation mounted :: "ZipArchive \<Rightarrow> InodeTable \<Rightarrow> ZipFuse" where
  "mounted archive it \<equiv> \<lparr>zip_archive = archive, inode_table = it, open_files = Map.empty, open_dirs = Map.empty\<rparr>"

lemma run_test_checks:
  assumes "run_fine cp bound polls" and "from_zip (w as) = Ok it"
  shows "run_test polls True w as check = and_then (fst (check (mounted (w as) it))) (\<lambda>_. Ok ())"
  using assms by (simp add: run_test_def run_fine_def ZipFuse_new_def)

text \<open>The conditions on the table alone.\<close>

definition table_fits :: "nat \<Rightarrow> InodeTable \<Rightarrow> bool" where
  "table_fits bound it \<longleftrightarrow>
     list_all mode_fits (table it) \<and>
     list_all (\<lambda>d. case get_directory d of None \<Rightarrow> True
                 | Some h \<Rightarrow> length h \<le> bound \<and> list_all (\<lambda>xe. length (fst xe) \<le> 1000) h) (table it)"

lemma client_ok_mounted:
  assumes "from_zip archive = Ok it" and "table_fits bound it" and "run_fine cp bound polls" and "bound < u64_limit"
  shows "client_ok (cp_order cp) (cp_dirent cp) (cp_fuel cp) (cp_size cp) (mounted archive it)"
proof -
  have "names_fit (cp_dirent cp) h \<and> length h < cp_fuel cp \<and> length h < u64_limit"
    if "d \<in> set (table it)" "get_directory d = Some h" for d h
    using assms(2-4) that by (fastforce simp: table_fits_def list_all_iff run_fine_def names_fit_def)
  then show ?thesis
    using assms table_ok_from_zip [OF assms(1)] from_zip_names_ok [OF assms(1)]
    by (simp add: client_ok_def table_fits_def run_fine_def)
qed

section \<open>The small archives\<close>

definition mode_ok :: "u32 \<Rightarrow> u32 option \<Rightarrow> bool" where
  "mode_ok kind mode \<longleftrightarrow> (case mode of None \<Rightarrow> True | Some m \<Rightarrow> m AND S_IFMT \<in> {0, kind})"

lemma modes_fit_list:
  "modes_fit archive \<longleftrightarrow>
   list_all (\<lambda>e. case e of Ok zf \<Rightarrow> mode_ok (if zf_is_file zf then S_IFREG else S_IFDIR) (unix_mode zf) | _ \<Rightarrow> True) archive"
  by (fastforce simp: modes_fit_def mode_ok_def list_all_iff split: outcome.splits option.splits)

lemma mode_ok_unwrap:
  "mode_ok kind mode \<Longrightarrow> unwrap_or 0 mode AND S_IFMT = 0 \<or> unwrap_or 0 mode AND S_IFMT = kind"
  "mode_ok kind mode \<Longrightarrow> unwrap_or DEFAULT_DIR_MODE mode AND S_IFMT = 0 \<or> unwrap_or DEFAULT_DIR_MODE mode AND S_IFMT = kind"
  by (auto simp: mode_ok_def unwrap_or_def DEFAULT_DIR_MODE_def S_IRUSR_def S_IXUSR_def S_IFMT_def split: option.splits)

lemma DEFAULT_DIR_MODE_fits: "DEFAULT_DIR_MODE AND S_IFMT = 0"
  by (simp add: DEFAULT_DIR_MODE_def S_IRUSR_def S_IXUSR_def S_IFMT_def)

lemma unwrap_or_simps: "unwrap_or d None = d" "unwrap_or d (Some a) = a"
  by (simp_all add: unwrap_or_def)

text \<open>The names of a directory's files and directories, and the content of a file.\<close>

definition dir_lists :: "ZipFuse \<Rightarrow> string \<Rightarrow> string list \<Rightarrow> string list \<Rightarrow> bool" where
  "dir_lists fs dir files dirs \<longleftrightarrow>
     (case dir_at fs (path_of dir) of
        None \<Rightarrow> False
      | Some h \<Rightarrow> set files = set (map fst (filter (\<lambda>xe. de_kind (snd xe) = FileKind) h)) \<and>
                  set dirs = set (map fst (filter (\<lambda>xe. de_kind (snd xe) = DirectoryKind) h)))"

lemma check_dir_lists:
  assumes "dir_lists fs dir files dirs" and "client_ok (cp_order cp) (cp_dirent cp) (cp_fuel cp) (cp_size cp) fs"
  shows "dir_check cp dir files dirs fs = (Ok (), fs)"
proof -
  obtain h where h: "dir_at fs (path_of dir) = Some h"
      "set files = set (map fst (filter (\<lambda>xe. de_kind (snd xe) = FileKind) h))"
      "set dirs = set (map fst (filter (\<lambda>xe. de_kind (snd xe) = DirectoryKind) h))"
    using assms(1) by (auto simp: dir_lists_def split: option.splits)
  have "set (map fst (filter (\<lambda>xe. de_kind (snd xe) = k) h)) = fst ` {(x, e) \<in> set h. de_kind e = k}" for k
    by (auto simp: image_iff)
  with check_dir_at [OF h(1) assms(2)] h(2,3) show ?thesis by simp
qed

lemma checks_pass:
  assumes "list_all (\<lambda>c. c fs = (Ok (), fs)) cs"
  shows "checks cs fs = (Ok (), fs)"
  using assms by (induction cs) simp_all

lemmas zip_client_eval =
  archive_of_def list_all2_Cons1 entry_of_def unwrap_or_simps
  from_zip_eq empty_table_def add_entry_def it_find_def it_get_def it_add_def it_put_def it_update_def
  add_to_directory_def get_directory_def cstring_new_def new_dir_def new_file_def is_dir_def ROOT_def
  modes_fit_list table_fits_def mode_fits_def mode_ok_unwrap DEFAULT_DIR_MODE_fits dir_lists_def dir_at_def path_of_def
  file_at_def zip_lookup_def find_inode_def stat_from_def get_zip_index_def by_index_def

lemma empty_tree:
  assumes "archive_of [] archive"
  shows "\<exists>it. from_zip archive = Ok it \<and> table_fits 10 it \<and> dir_lists (mounted archive it) [] [] []"
  using assms by (simp add: zip_client_eval)

lemma single_file_tree:
  assumes "archive_of [(''foo'', Some c)] archive" and "modes_fit archive"
  shows "\<exists>it. from_zip archive = Ok it \<and> table_fits 10 it \<and> dir_lists (mounted archive it) [] [''foo''] [] \<and>
    file_at (mounted archive it) (path_of ''foo'') = Some c"
  using assms by (auto simp: zip_client_eval)

lemma single_dir_tree:
  assumes "archive_of [(''dir'', None)] archive" and "modes_fit archive"
  shows "\<exists>it. from_zip archive = Ok it \<and> table_fits 10 it \<and> dir_lists (mounted archive it) [] [] [''dir''] \<and>
    dir_lists (mounted archive it) ''dir'' [] []"
  using assms by (auto simp: zip_client_eval)

lemma complex_tree:
  assumes "archive_of complex_entries archive" and "modes_fit archive"
  shows "\<exists>it. from_zip archive = Ok it \<and> table_fits 10 it \<and>
    list_all (\<lambda>(dir, files, dirs). dir_lists (mounted archive it) dir files dirs)
      [([], [''foo'', ''bar''], [''a'', ''x'']), (''a'', [], [''b1'', ''b2'']), (''a/b1'', [], []),
       (''a/b2'', [''c1''], [''c2'']), (''a/b2/c2'', [''d1'', ''d2'', ''d3''], []), (''x'', [''y1'', ''y2''], [''y3'']),
       (''x/y3'', [], [])] \<and>
    list_all (\<lambda>file. file_at (mounted archive it) (path_of file) = Some [])
      [''a/b2/c1'', ''a/b2/c2/d1'', ''a/b2/c2/d2'', ''a/b2/c2/d3'', ''x/y1'', ''x/y2'', ''foo'', ''bar'']"
  using assms by (auto simp: zip_client_eval complex_entries_def)

text \<open>A test passes if all its checks do on the mounted table.\<close>

lemma run_test_passes:
  assumes "run_fine cp bound polls" and "from_zip (w as) = Ok it"
    and "list_all (\<lambda>c. c (mounted (w as) it) = (Ok (), mounted (w as) it)) cs"
  shows "run_test polls True w as (checks cs) = Ok ()"
  using run_test_checks [where w = w and as = as, OF assms(1,2), of "checks cs"] checks_pass [OF assms(3)] by simp

lemma check_file_is:
  assumes "file_at fs (path_of file) = Some c" and "client_ok (cp_order cp) (cp_dirent cp) (cp_fuel cp) (cp_size cp) fs"
    and "length c < 2 ^ 32" and "length c < cp_fuel cp"
  shows "file_check cp file c fs = (Ok (), fs)"
  using check_file_at [OF assms(1,2) _ assms(4)] assms(2,3) by (simp add: client_ok_def i64_max_def)

text \<open>What the tests ask of the zip crate.\<close>

definition written :: "zip_writer \<Rightarrow> added list \<Rightarrow> bool" where
  "written w as \<longleftrightarrow> writes_back w as \<and> modes_fit (w as)"

lemma written_ok:
  assumes "written w as"
  shows "archive_of as (w as)" and "modes_fit (w as)"
  using assms by (simp_all add: written_def writes_back_def)

lemma mount_tests_pass:
  assumes fine: "run_fine cp 10 polls"
  shows "written w [] \<Longrightarrow> test_empty cp w polls True = Ok ()"
    "written w [(''foo'', Some digits)] \<Longrightarrow> single_file cp w polls True = Ok ()"
    "written w [(''dir'', None)] \<Longrightarrow> single_dir cp w polls True = Ok ()"
    "written w complex_entries \<Longrightarrow> complex_hierarchy cp w polls True = Ok ()"
proof -
  have lim: "(10 :: nat) < u64_limit" and fuel: "10 < cp_fuel cp" using fine by (simp_all add: u64_limit_def run_fine_def)
  note ok = client_ok_mounted [OF _ _ fine lim]
  show "test_empty cp w polls True = Ok ()" if "written w []"
    using empty_tree [OF written_ok(1) [OF that]] ok unfolding test_empty_def
    by (auto intro!: run_test_passes [OF fine] check_dir_lists simp del: checks.simps)
  show "single_file cp w polls True = Ok ()" if "written w [(''foo'', Some digits)]"
    using single_file_tree [OF written_ok [OF that]] ok fuel unfolding single_file_def
    by (auto intro!: run_test_passes [OF fine] check_dir_lists check_file_is simp: digits_def simp del: checks.simps)
  show "single_dir cp w polls True = Ok ()" if "written w [(''dir'', None)]"
    using single_dir_tree [OF written_ok [OF that]] ok unfolding single_dir_def
    by (auto intro!: run_test_passes [OF fine] check_dir_lists simp del: checks.simps)
  show "complex_hierarchy cp w polls True = Ok ()" if "written w complex_entries"
    using complex_tree [OF written_ok [OF that]] ok fuel unfolding complex_hierarchy_def
    by (auto intro!: run_test_passes [OF fine] check_dir_lists check_file_is simp del: checks.simps)
qed

lemma large_file_passes:
  assumes fine: "run_fine cp (2 ^ 21) polls" and "written w [(''foo'', Some (replicate (push_bit 20 2) 10))]"
  shows "large_file cp w polls True = Ok ()"
proof -
  let ?as = "[(''foo'', Some (replicate (push_bit 20 2) 10))]"
  obtain it where it: "from_zip (w ?as) = Ok it" "table_fits 10 it"
      "file_at (mounted (w ?as) it) (path_of ''foo'') = Some (replicate (push_bit 20 2) 10)"
    using single_file_tree [OF written_ok [OF assms(2)]] by blast
  have "run_fine cp 10 polls" using fine by (simp add: run_fine_def)
  from client_ok_mounted [OF it(1,2) this]
  have "client_ok (cp_order cp) (cp_dirent cp) (cp_fuel cp) (cp_size cp) (mounted (w ?as) it)"
    by (simp add: u64_limit_def)
  note check = check_file_is [OF it(3) this]
  show ?thesis
    unfolding large_file_def by (rule run_test_passes [OF fine], rule it(1)) (use check fine in \<open>simp add: run_fine_def\<close>)
qed

section \<open>A directory larger than the buffer\<close>

definition NUM_FILES :: nat where "NUM_FILES = push_bit 10 1"

text \<open>\<open>format!("{:0100}", i)\<close>: the decimal digits, with zeros in front up to 100 characters.\<close>

definition zero_padded :: "nat \<Rightarrow> nat \<Rightarrow> string" where
  "zero_padded width i = replicate (width - length (show_nat i)) CHR ''0'' @ show_nat i"

definition large_entries :: "added list" where
  "large_entries = map (\<lambda>i. (''dir/'' @ zero_padded 100 i, Some [])) [0..<NUM_FILES]"

definition large_dir :: "client_params \<Rightarrow> zip_writer \<Rightarrow> mount_polls \<Rightarrow> bool \<Rightarrow> (unit, io_error) outcome" where
  "large_dir cp w polls umount_ok =
     run_test polls umount_ok w large_entries (checks [dir_check cp ''dir'' (map (zero_padded 100) [0..<NUM_FILES]) []])"

lemma zero_padded_digits: "list_all is_digit (zero_padded width i)"
  using show_nat_digits [of i] by (auto simp: zero_padded_def list_all_iff is_digit_def)

lemma length_zero_padded: "length (show_nat i) \<le> width \<Longrightarrow> length (zero_padded width i) = width"
  by (simp add: zero_padded_def)

lemma digits_value_zeros: "digits_value (replicate k CHR ''0'' @ s) = digits_value s"
  by (induction k) (simp_all add: digits_value_def digit_value_def)

lemma inj_zero_padded: "inj (zero_padded width)"
  by (metis (mono_tags) digits_value_show_nat digits_value_zeros injI zero_padded_def)

text \<open>The table after the files \<open>ns\<close> of one directory have been added.\<close>

definition one_dir_table :: "string list \<Rightarrow> InodeTable \<Rightarrow> bool" where
  "one_dir_table ns t \<longleftrightarrow>
     (\<exists>h ds. map fst h = ns \<and> list_all (\<lambda>xe. de_kind (snd xe) = FileKind) h \<and>
        list_all (\<lambda>d. mode_fits d \<and> get_directory d = None) ds \<and>
        table t = [new_dir 0, (new_dir 0)\<lparr>id_data := Directory [(''dir'', \<lparr>de_inode = 2, de_kind = DirectoryKind\<rparr>)]\<rparr>,
          (new_dir DEFAULT_DIR_MODE)\<lparr>id_data := Directory h\<rparr>] @ ds)"

definition dir_entry :: "string \<Rightarrow> (ZipFile, io_error) outcome \<Rightarrow> bool" where
  "dir_entry n e \<longleftrightarrow> (\<exists>mode. mode_ok S_IFREG mode \<and>
     e = Ok \<lparr>enclosed_name = Some [''dir'', n], zf_is_file = True, unix_mode = mode, zf_size = 0, zf_contents = Ok []\<rparr>)"

lemma one_dir_table_first:
  assumes "dir_entry n e" and "n \<noteq> ''..''" and "CHR 0x00 \<notin> set n"
  shows "\<exists>t. add_entry i e empty_table = Ok t \<and> one_dir_table [n] t"
  using assms by (auto simp: dir_entry_def one_dir_table_def zip_client_eval map_eq_Cons_conv)

lemma one_dir_table_step:
  assumes "one_dir_table ns t" and "dir_entry n e" and "n \<noteq> ''..''" and "CHR 0x00 \<notin> set n" and "n \<notin> set ns"
  shows "\<exists>t'. add_entry i e t = Ok t' \<and> one_dir_table (ns @ [n]) t'"
proof -
  obtain h ds where t: "map fst h = ns" "list_all (\<lambda>xe. de_kind (snd xe) = FileKind) h"
      "list_all (\<lambda>d. mode_fits d \<and> get_directory d = None) ds"
      "t = \<lparr>table = [new_dir 0, (new_dir 0)\<lparr>id_data := Directory [(''dir'', \<lparr>de_inode = 2, de_kind = DirectoryKind\<rparr>)]\<rparr>,
          (new_dir DEFAULT_DIR_MODE)\<lparr>id_data := Directory h\<rparr>] @ ds\<rparr>"
    using assms(1) by (cases t) (auto simp: one_dir_table_def)
  have new: "map_of h n = None" using assms(5) unfolding t(1) [symmetric] by (simp add: map_of_eq_None_iff)
  obtain mode where e: "mode_ok S_IFREG mode" "e = Ok \<lparr>enclosed_name = Some [''dir'', n], zf_is_file = True,
      unix_mode = mode, zf_size = 0, zf_contents = Ok []\<rparr>"
    using assms(2) by (auto simp: dir_entry_def)
  let ?file = "\<lparr>id_size = 0, id_mode = unwrap_or 0 mode, id_data = ZFile i\<rparr>"
  let ?h = "h @ [(n, \<lparr>de_inode = 3 + length ds, de_kind = FileKind\<rparr>)]"
  let ?t = "\<lparr>table = [new_dir 0, (new_dir 0)\<lparr>id_data := Directory [(''dir'', \<lparr>de_inode = 2, de_kind = DirectoryKind\<rparr>)]\<rparr>,
      (new_dir DEFAULT_DIR_MODE)\<lparr>id_data := Directory ?h\<rparr>] @ ds @ [?file]\<rparr>"
  have "add_entry i e t = Ok ?t"
    using assms(3,4) new unfolding t(4) e(2) by (simp add: zip_client_eval AList_update_new)
  moreover have "mode_fits ?file \<and> get_directory ?file = None"
    using mode_ok_unwrap(1) [OF e(1)] by (simp add: mode_fits_def is_dir_def get_directory_def)
  then have "one_dir_table (ns @ [n]) ?t"
    using t(1-3) unfolding one_dir_table_def by (intro exI [of _ ?h] exI [of _ "ds @ [?file]"]) simp
  ultimately show ?thesis by blast
qed

lemma one_dir_table_entries:
  assumes "one_dir_table ms t" and "list_all2 dir_entry ns archive" and "distinct (ms @ ns)"
    and "\<And>n. n \<in> set ns \<Longrightarrow> n \<noteq> ''..'' \<and> CHR 0x00 \<notin> set n"
  shows "\<exists>t'. add_entries i archive t = Ok t' \<and> one_dir_table (ms @ ns) t'"
  using assms
proof (induction ns arbitrary: ms t archive i)
  case (Cons n ns)
  from Cons.prems(2) obtain e rest where archive: "archive = e # rest" "dir_entry n e" "list_all2 dir_entry ns rest"
    by (auto simp: list_all2_Cons1)
  obtain t1 where t1: "add_entry i e t = Ok t1" "one_dir_table (ms @ [n]) t1"
    using one_dir_table_step [OF Cons.prems(1) archive(2), of i] Cons.prems(3,4) by auto
  have "\<exists>t'. add_entries (Suc i) rest t1 = Ok t' \<and> one_dir_table ((ms @ [n]) @ ns) t'"
    by (rule Cons.IH [OF t1(2) archive(3)]) (use Cons.prems(3,4) in auto)
  with t1(1) archive(1) show ?case by simp
qed simp

lemma one_dir_table_from_zip:
  assumes "list_all2 dir_entry ns archive" and "distinct ns" and "ns \<noteq> []"
    and names: "\<And>n. n \<in> set ns \<Longrightarrow> n \<noteq> ''..'' \<and> CHR 0x00 \<notin> set n"
  shows "\<exists>t. from_zip archive = Ok t \<and> one_dir_table ns t"
proof -
  obtain n ms e rest where ns: "ns = n # ms" and archive: "archive = e # rest" "dir_entry n e" "list_all2 dir_entry ms rest"
    using assms(1,3) by (cases ns) (auto simp: list_all2_Cons1)
  obtain t where t: "add_entry 0 e empty_table = Ok t" "one_dir_table [n] t"
    using one_dir_table_first [OF archive(2), of 0] names [of n] ns by auto
  have "\<exists>t'. add_entries (Suc 0) rest t = Ok t' \<and> one_dir_table ([n] @ ms) t'"
    by (rule one_dir_table_entries [OF t(2) archive(3)]) (use assms(2) names ns in auto)
  with t(1) archive(1) ns show ?thesis by (simp add: from_zip_eq)
qed

text \<open>What the table gives to a client.\<close>

lemma one_dir_table_client:
  assumes "one_dir_table ns t" and "list_all (\<lambda>n. length n \<le> 1000) ns"
  shows "table_fits (max 1 (length ns)) t" and "dir_lists (mounted archive t) ''dir'' ns []"
proof -
  obtain h ds where t: "map fst h = ns" "list_all (\<lambda>xe. de_kind (snd xe) = FileKind) h"
      "list_all (\<lambda>d. mode_fits d \<and> get_directory d = None) ds"
      "table t = [new_dir 0, (new_dir 0)\<lparr>id_data := Directory [(''dir'', \<lparr>de_inode = 2, de_kind = DirectoryKind\<rparr>)]\<rparr>,
          (new_dir DEFAULT_DIR_MODE)\<lparr>id_data := Directory h\<rparr>] @ ds"
    using assms(1) by (auto simp: one_dir_table_def)
  have kinds: "filter (\<lambda>xe. de_kind (snd xe) = FileKind) h = h" "filter (\<lambda>xe. de_kind (snd xe) = DirectoryKind) h = []"
    using t(2) by (auto simp: list_all_iff filter_id_conv filter_empty_conv)
  have "list_all (\<lambda>xe. length (fst xe) \<le> 1000) h" and "length h = length ns"
    using assms(2) unfolding t(1) [symmetric] by (simp_all add: list_all_iff)
  with t(3,4) show "table_fits (max 1 (length ns)) t"
    by (auto simp: table_fits_def mode_fits_def is_dir_def new_dir_def get_directory_def DEFAULT_DIR_MODE_fits list_all_iff
        split: option.splits)
  show "dir_lists (mounted archive t) ''dir'' ns []"
    using t(1,4) kinds by (simp add: zip_client_eval)
qed

lemma length_show_nat: "i < 10 ^ Suc k \<Longrightarrow> length (show_nat i) \<le> Suc k"
proof (induction k arbitrary: i)
  case 0
  then show ?case by (subst show_nat.simps) simp
next
  case (Suc k)
  then have "length (show_nat (i div 10)) \<le> Suc k" by (simp add: less_mult_imp_div_less)
  then show ?case by (subst show_nat.simps) simp
qed

lemma large_entries_dir:
  assumes "archive_of large_entries archive" and "modes_fit archive"
  shows "list_all2 dir_entry (map (zero_padded 100) [0..<NUM_FILES]) archive"
proof -
  have split: "split_on CHR ''/'' (''dir/'' @ zero_padded 100 i) = [''dir'', zero_padded 100 i]" for i
  proof -
    have "CHR ''/'' \<notin> set (zero_padded 100 i)" using zero_padded_digits [of 100 i] by (auto simp: list_all_iff is_digit_def)
    then show ?thesis by (simp add: split_on_none)
  qed
  have "dir_entry (zero_padded 100 i) e" if e: "entry_of (''dir/'' @ zero_padded 100 i, Some []) e" "e \<in> set archive" for i e
  proof -
    from e(1) obtain mode where mode: "e = Ok \<lparr>enclosed_name = Some [''dir'', zero_padded 100 i], zf_is_file = True,
        unix_mode = mode, zf_size = 0, zf_contents = Ok []\<rparr>"
      unfolding entry_of_def fst_conv split by (auto simp: unwrap_or_simps)
    with e(2) assms(2) have "mode_ok S_IFREG mode" by (auto simp: modes_fit_list list_all_iff)
    with mode show ?thesis by (simp add: dir_entry_def)
  qed
  moreover have "list_all2 (\<lambda>i. entry_of (''dir/'' @ zero_padded 100 i, Some [])) [0..<NUM_FILES] archive"
    using assms(1) by (simp add: archive_of_def large_entries_def list.rel_map)
  ultimately have "list_all2 (\<lambda>i. dir_entry (zero_padded 100 i)) [0..<NUM_FILES] archive"
    using list.rel_mono_strong [of _ "[0..<NUM_FILES]" archive "\<lambda>i. dir_entry (zero_padded 100 i)"]
    by blast
  then show ?thesis by (simp add: list.rel_map)
qed

lemma large_dir_passes:
  assumes fine: "run_fine cp NUM_FILES polls" and "written w large_entries"
  shows "large_dir cp w polls True = Ok ()"
proof -
  define ns where "ns = map (zero_padded 100) [0..<NUM_FILES]"
  have num: "NUM_FILES = 1024" by (simp add: NUM_FILES_def)
  have "length (zero_padded 100 i) = 100" if "i < NUM_FILES" for i
    using length_zero_padded [of i 100] length_show_nat [of i 9] that num by simp
  then have lengths: "\<And>n. n \<in> set ns \<Longrightarrow> length n = 100" by (auto simp: ns_def)
  have "CHR 0x00 \<notin> set (zero_padded 100 i)" for i
    using zero_padded_digits [of 100 i] by (auto simp: list_all_iff is_digit_def)
  then have names: "n \<noteq> ''..'' \<and> CHR 0x00 \<notin> set n" if "n \<in> set ns" for n
    using that lengths [OF that] by (auto simp: ns_def)
  have size: "length ns = NUM_FILES" and "distinct ns"
    using inj_zero_padded by (auto simp: ns_def distinct_map intro: inj_on_subset)
  moreover have "ns \<noteq> []" using size num by (cases ns) auto
  ultimately obtain it where it: "from_zip (w large_entries) = Ok it" "one_dir_table ns it"
    using one_dir_table_from_zip [OF large_entries_dir [OF written_ok [OF assms(2)], folded ns_def] _ _ names] by blast
  have "list_all (\<lambda>n. length n \<le> 1000) ns" using lengths by (simp add: list_all_iff)
  note client = one_dir_table_client [OF it(2) this]
  have "client_ok (cp_order cp) (cp_dirent cp) (cp_fuel cp) (cp_size cp) (mounted (w large_entries) it)"
    using client_ok_mounted [OF it(1) client(1)] fine size num by (simp add: u64_limit_def)
  note check = check_dir_lists [OF client(2) this]
  show ?thesis
    unfolding large_dir_def ns_def [symmetric] by (rule run_test_passes [OF fine], rule it(1)) (simp add: check)
qed

end
