(* ===== verification/EditorThreads.thy ===== *)
theory EditorThreads
  imports Editor
begin

text \<open>
  Concurrent writes through \<open>VerifiedFileEditor::write_at\<close> of \<^verbatim>\<open>authfs/src/fsverity/editor.rs\<close>. The
  method takes the lock of the tree once for every piece of the buffer, inside the loop, so the
  writes of several threads interleave piece by piece. A run is a list of pieces, each with the
  index of its write; an interleaving contains the pieces of every write in the order of its loop.

  The lemmas: on a file that keeps its contract every interleaving succeeds, the file has the
  contents of the pieces written in that order, and the tree represents them.
\<close>

section \<open>Definitions\<close>

type_synonym write_call = "nat \<times> bytes"

text \<open>The bodies of the loops of the writes \<open>ws\<close>, in the order the threads obtain the lock.\<close>

definition editor_pieces ::
  "'s read_chunk_fn \<Rightarrow> 's write_at_fn \<Rightarrow> 'c sha256_ffi \<Rightarrow> nat \<Rightarrow> write_call list \<Rightarrow> (nat \<times> nat \<times> nat) list \<Rightarrow>
   ('s VerifiedFileEditor, unit, write_exit) prog" where
  "editor_pieces rd w ffi fuel ws run =
     fold_prog (\<lambda>u (j, piece). write_piece rd w ffi fuel (snd (ws ! j)) (fst (ws ! j)) u piece) () run"

definition interleaving :: "write_call list \<Rightarrow> (nat \<times> nat \<times> nat) list \<Rightarrow> bool" where
  "interleaving ws run \<longleftrightarrow>
     list_all (\<lambda>e. fst e < length ws) run \<and>
     list_all (\<lambda>j. map snd (filter (\<lambda>e. fst e = j) run) = chunk_plan CHUNK_SIZE (length (snd (ws ! j))) (fst (ws ! j)))
       [0..<length ws]"

text \<open>The bytes of a piece, and the contents after the pieces.\<close>

definition piece_bytes :: "write_call \<Rightarrow> nat \<times> nat \<Rightarrow> bytes" where
  "piece_bytes wc piece = take (snd piece) (drop (fst piece - fst wc) (snd wc))"

definition apply_pieces :: "write_call list \<Rightarrow> (nat \<times> nat \<times> nat) list \<Rightarrow> bytes \<Rightarrow> bytes" where
  "apply_pieces ws run c = fold (\<lambda>e d. pwrite d (fst (snd e)) (piece_bytes (ws ! fst e) (snd e))) run c"

definition write_end :: "write_call \<Rightarrow> nat" where
  "write_end wc = fst wc + length (snd wc)"

text \<open>A piece of its write.\<close>

definition piece_in :: "write_call \<Rightarrow> nat \<times> nat \<Rightarrow> bool" where
  "piece_in wc piece \<longleftrightarrow>
     0 < snd piece \<and> fst wc \<le> fst piece \<and> fst piece + snd piece \<le> write_end wc \<and>
     fst piece mod CHUNK_SIZE + snd piece \<le> CHUNK_SIZE"

section \<open>Pieces of an interleaving\<close>

lemma interleaving_plan:
  assumes "interleaving ws run" and "j < length ws"
  shows "(j, piece) \<in> set run \<longleftrightarrow> piece \<in> set (chunk_plan CHUNK_SIZE (length (snd (ws ! j))) (fst (ws ! j)))"
proof -
  have "map snd (filter (\<lambda>e. fst e = j) run) = chunk_plan CHUNK_SIZE (length (snd (ws ! j))) (fst (ws ! j))"
    using assms by (simp add: interleaving_def list_all_iff)
  then have "set (chunk_plan CHUNK_SIZE (length (snd (ws ! j))) (fst (ws ! j))) = snd ` {e \<in> set run. fst e = j}"
    by (metis list.set_map set_filter)
  then show ?thesis by force
qed

lemma interleaving_index: "interleaving ws run \<Longrightarrow> (j, piece) \<in> set run \<Longrightarrow> j < length ws"
  by (force simp: interleaving_def list_all_iff)

lemma interleaving_piece:
  assumes "interleaving ws run" and "(j, piece) \<in> set run"
  shows "piece_in (ws ! j) piece"
proof -
  have j: "j < length ws" by (rule interleaving_index [OF assms])
  obtain o1 k where piece: "piece = (o1, k)" by fastforce
  with assms interleaving_plan [OF assms(1) j]
  have "(o1, k) \<in> set (chunk_plan CHUNK_SIZE (length (snd (ws ! j))) (fst (ws ! j)))" by blast
  from chunk_plan_piece [OF CHUNK_SIZE_pos this] piece show ?thesis by (simp add: piece_in_def write_end_def)
qed

lemma length_piece_bytes: "piece_in wc piece \<Longrightarrow> length (piece_bytes wc piece) = snd piece"
  by (auto simp: piece_in_def piece_bytes_def write_end_def)

lemma length_apply_pieces:
  "(\<And>j piece. (j, piece) \<in> set run \<Longrightarrow> piece_in (ws ! j) piece) \<Longrightarrow>
   length (apply_pieces ws run c) = fold (\<lambda>e n. max n (fst (snd e) + snd (snd e))) run (length c)"
proof (induction run arbitrary: c)
  case Nil
  then show ?case by (simp add: apply_pieces_def)
next
  case (Cons e run)
  obtain j piece where e: "e = (j, piece)" by (cases e)
  have "piece_in (ws ! j) piece" using Cons.prems e by simp
  then have "length (pwrite c (fst piece) (piece_bytes (ws ! j) piece)) = max (length c) (fst piece + snd piece)"
    using length_piece_bytes [of "ws ! j" piece] by (auto simp: length_pwrite piece_in_def)
  with Cons e show ?case by (simp add: apply_pieces_def)
qed

text \<open>The end of a write is reached by its last piece.\<close>

lemma interleaving_ends:
  assumes run: "interleaving ws run"
  shows "fold (\<lambda>e n. max n (write_end (ws ! fst e))) run a =
    fold (\<lambda>e n. max n (fst (snd e) + snd (snd e))) run a"
proof -
  have last: "\<exists>p. (j, p) \<in> set run \<and> fst p + snd p = write_end (ws ! j)" if e: "(j, piece) \<in> set run" for j piece
  proof -
    have j: "j < length ws" by (rule interleaving_index [OF run e])
    have "0 < length (snd (ws ! j))"
      using interleaving_piece [OF run e] by (auto simp: piece_in_def write_end_def)
    from chunk_plan_last [OF CHUNK_SIZE_pos this] interleaving_plan [OF run j]
    show ?thesis by (fastforce simp: write_end_def)
  qed
  have "(\<forall>e\<in>set run. write_end (ws ! fst e) \<le> b) \<longleftrightarrow> (\<forall>e\<in>set run. fst (snd e) + snd (snd e) \<le> b)" for b
    using last interleaving_piece [OF run] by (force simp: piece_in_def)
  then have "fold (\<lambda>e n. max n (write_end (ws ! fst e))) run a \<le> b \<longleftrightarrow>
      fold (\<lambda>e n. max n (fst (snd e) + snd (snd e))) run a \<le> b" for b
    by (simp add: fold_max_le_iff)
  then show ?thesis by (meson order_antisym order_refl)
qed

text \<open>Where each byte of the result comes from: a write that covers it, or the old contents.\<close>

definition covers :: "write_call \<Rightarrow> nat \<Rightarrow> bool" where
  "covers wc p \<longleftrightarrow> fst wc \<le> p \<and> p < write_end wc"

lemma byte_at_piece:
  assumes "piece_in wc piece" and "fst piece \<le> p" "p < fst piece + snd piece"
  shows "covers wc p" and "piece_bytes wc piece ! (p - fst piece) = snd wc ! (p - fst wc)"
  using assms by (auto simp: piece_in_def covers_def piece_bytes_def write_end_def)

lemma byte_at_apply_pieces:
  "(\<And>j piece. (j, piece) \<in> set run \<Longrightarrow> piece_in (ws ! j) piece) \<Longrightarrow>
   (\<exists>e\<in>set run. covers (ws ! fst e) p \<and> byte_at (apply_pieces ws run c) p = snd (ws ! fst e) ! (p - fst (ws ! fst e))) \<or>
   (\<forall>e\<in>set run. \<not> (fst (snd e) \<le> p \<and> p < fst (snd e) + snd (snd e))) \<and> byte_at (apply_pieces ws run c) p = byte_at c p"
proof (induction run arbitrary: c)
  case Nil
  then show ?case by (simp add: apply_pieces_def)
next
  case (Cons e run)
  let ?c = "pwrite c (fst (snd e)) (piece_bytes (ws ! fst e) (snd e))"
  have e: "piece_in (ws ! fst e) (snd e)" using Cons.prems [of "fst e" "snd e"] by simp
  then have "byte_at ?c p = (if fst (snd e) \<le> p \<and> p < fst (snd e) + snd (snd e)
      then snd (ws ! fst e) ! (p - fst (ws ! fst e)) else byte_at c p)"
    by (simp add: byte_at_pwrite length_piece_bytes byte_at_piece)
  moreover have "apply_pieces ws (e # run) c = apply_pieces ws run ?c" by (simp add: apply_pieces_def)
  ultimately show ?case
    using Cons.IH [of ?c] Cons.prems byte_at_piece(1) [OF e, of p] by (auto split: if_splits)
qed

lemma byte_at_interleaving:
  assumes "interleaving ws run"
  shows "(\<exists>wc\<in>set ws. covers wc p \<and> byte_at (apply_pieces ws run c) p = snd wc ! (p - fst wc)) \<or>
    (\<forall>wc\<in>set ws. \<not> covers wc p) \<and> byte_at (apply_pieces ws run c) p = byte_at c p"
proof (cases "\<exists>wc\<in>set ws. covers wc p")
  case True
  then obtain j where j: "j < length ws" "covers (ws ! j) p" by (metis in_set_conv_nth)
  then obtain piece where "(j, piece) \<in> set run" "fst piece \<le> p" "p < fst piece + snd piece"
    using chunk_plan_covers [OF CHUNK_SIZE_pos, of "fst (ws ! j)" p "length (snd (ws ! j))"]
      interleaving_plan [OF assms j(1)] by (fastforce simp: covers_def write_end_def)
  then obtain e where "e \<in> set run" "covers (ws ! fst e) p"
    "byte_at (apply_pieces ws run c) p = snd (ws ! fst e) ! (p - fst (ws ! fst e))"
    using byte_at_apply_pieces [OF interleaving_piece [OF assms], of run p c] by fastforce
  moreover from this have "fst e < length ws" using interleaving_index [OF assms, of "fst e" "snd e"] by simp
  ultimately show ?thesis by (meson nth_mem)
next
  case False
  have "\<not> covers (ws ! fst e) p" if "e \<in> set run" for e
    using False interleaving_index [OF assms, of "fst e" "snd e"] that by simp
  with False show ?thesis
    using byte_at_apply_pieces [OF interleaving_piece [OF assms], of run p c] by blast
qed

section \<open>Every interleaving keeps tree and file in step\<close>

context editable_file
begin

lemma editor_pieces_ok:
  assumes H: "sha256_lib ffi H" and z: "zero_hash_ok H" and fuel: "CHUNK_SIZE \<le> fuel"
  shows "leaves (merkle_tree st) = leaf_hashes H d \<Longrightarrow> good (backing st) \<Longrightarrow> content (backing st) = d \<Longrightarrow>
    (\<And>j piece. (j, piece) \<in> set run \<Longrightarrow> piece_in (ws ! j) piece \<and> write_end (ws ! j) \<le> i64_max) \<Longrightarrow>
    \<exists>s'. editor_pieces read_chunk write_at ffi fuel ws run st =
      (Ok (), \<lparr>merkle_tree = \<lparr>leaves = leaf_hashes H (apply_pieces ws run d),
         ml_file_size = fold (\<lambda>e n. max n (write_end (ws ! fst e))) run (ml_file_size (merkle_tree st))\<rparr>,
        backing = s'\<rparr>) \<and> good s' \<and> content s' = apply_pieces ws run d"
proof (induction run arbitrary: st d)
  case Nil
  then show ?case by (cases st; cases "merkle_tree st") (simp add: editor_pieces_def apply_pieces_def)
next
  case (Cons e run)
  obtain j o1 k where e: "e = (j, o1, k)" using prod_cases3 by blast
  let ?off = "fst (ws ! j)" and ?buf = "snd (ws ! j)"
  define m where "m = o1 - ?off"
  have p: "piece_in (ws ! j) (o1, k)" "write_end (ws ! j) \<le> i64_max" using Cons.prems(4) [of j "(o1, k)"] e by auto
  then have o1: "o1 = ?off + m" and k: "0 < k" "m + k \<le> length ?buf" "(?off + m) mod CHUNK_SIZE + k \<le> CHUNK_SIZE"
    and lim: "?off + length ?buf \<le> i64_max"
    by (auto simp: piece_in_def write_end_def m_def)
  let ?d = "pwrite d o1 (piece_bytes (ws ! j) (o1, k))"
    and ?n = "max (ml_file_size (merkle_tree st)) (write_end (ws ! j))"
  from write_piece_at_ok [OF H z Cons.prems(1-3) k lim fuel, of "()"] obtain s1 where
    w: "write_piece read_chunk write_at ffi fuel ?buf ?off () (o1, k) st =
        (Ok (), \<lparr>merkle_tree = \<lparr>leaves = leaf_hashes H ?d, ml_file_size = ?n\<rparr>, backing = s1\<rparr>)"
      "good s1" "content s1 = ?d"
    by (auto simp: o1 [symmetric] piece_bytes_def m_def [symmetric] write_end_def)
  let ?st = "\<lparr>merkle_tree = \<lparr>leaves = leaf_hashes H ?d, ml_file_size = ?n\<rparr>, backing = s1\<rparr>"
  have "\<exists>s'. editor_pieces read_chunk write_at ffi fuel ws run ?st =
      (Ok (), \<lparr>merkle_tree = \<lparr>leaves = leaf_hashes H (apply_pieces ws run ?d),
         ml_file_size = fold (\<lambda>e n. max n (write_end (ws ! fst e))) run (ml_file_size (merkle_tree ?st))\<rparr>,
        backing = s'\<rparr>) \<and> good s' \<and> content s' = apply_pieces ws run ?d"
    by (rule Cons.IH) (use w Cons.prems(4) in \<open>auto dest: Cons.prems(4) [OF list.set_intros(2)]\<close>)
  with w(1) show ?case by (simp add: e editor_pieces_def apply_pieces_def)
qed

lemma concurrent_writes_in_step:
  assumes H: "sha256_lib ffi H" and z: "zero_hash_ok H" and fuel: "CHUNK_SIZE \<le> fuel"
    and st: "editor_in_step H content good st c" and run: "interleaving ws run"
    and lim: "\<And>wc. wc \<in> set ws \<Longrightarrow> write_end wc \<le> i64_max"
  shows "\<exists>st'. editor_pieces read_chunk write_at ffi fuel ws run st = (Ok (), st') \<and>
    editor_in_step H content good st' (apply_pieces ws run c)"
proof -
  have pieces: "piece_in (ws ! j) piece \<and> write_end (ws ! j) \<le> i64_max" if "(j, piece) \<in> set run" for j piece
    using interleaving_piece [OF run that] interleaving_index [OF run that] lim by simp
  have "ml_file_size (merkle_tree st) = length c" using st by (simp add: editor_in_step_def represents_def)
  then have "fold (\<lambda>e n. max n (write_end (ws ! fst e))) run (ml_file_size (merkle_tree st)) =
      length (apply_pieces ws run c)"
    using pieces by (subst length_apply_pieces) (auto simp: interleaving_ends [OF run])
  with editor_pieces_ok [OF H z fuel _ _ _ pieces, of st c run] st show ?thesis
    by (auto simp: editor_in_step_def represents_def)
qed

end

end
