(* ===== verification/CommandLine.thy ===== *)
theory CommandLine
  imports Text
begin

text \<open>
  Command lines. The programs declare their options to the clap crate (authfs through structopt) and
  read back the values of each option; the crate is a parameter, a function from the declaration and
  the words of the command line to the matches, or to no result when it ends the process with a usage
  message.

  What the programs rely on is stated by two predicates. \<open>clap_items\<close>: on a line of declared long
  options, each followed by its value, clap finds these values in order. \<open>clap_last\<close>: the values of
  an argument declared with \<open>last(true)\<close> are the words after the first \<^verbatim>\<open>--\<close>, on every line clap
  accepts. The parser \<open>long_options\<close> satisfies both.
\<close>

section \<open>Declarations and matches\<close>

text \<open>The arguments of an \<open>App\<close>, by kind: options with a value that may be repeated, options with a
  value that are required once, flags, required positional arguments, and the argument after \<^verbatim>\<open>--\<close>.\<close>

record App =
  app_values :: "string list"
  app_required :: "string list"
  app_flags :: "string list"
  app_positional :: "string list"
  app_last :: "string option"

record Matches =
  values_of :: "string \<Rightarrow> string list"
  is_present :: "string \<Rightarrow> bool"

type_synonym clap = "App \<Rightarrow> string list \<Rightarrow> Matches option"

text \<open>\<open>value_of\<close>, and \<open>values_of\<close> as an option: \<open>None\<close> when the argument was not given.\<close>

definition value_of :: "Matches \<Rightarrow> string \<Rightarrow> string option" where
  "value_of m n = (case values_of m n of [] \<Rightarrow> None | v # _ \<Rightarrow> Some v)"

definition given_values :: "Matches \<Rightarrow> string \<Rightarrow> string list option" where
  "given_values m n = (if values_of m n = [] then None else Some (values_of m n))"

section \<open>Lines of options\<close>

datatype cli_item = ValueOpt string string | FlagOpt string

fun item_words :: "cli_item \<Rightarrow> string list" where
  "item_words (ValueOpt n v) = [''--'' @ n, v]"
| "item_words (FlagOpt n) = [''--'' @ n]"

text \<open>A word that clap takes for a value wherever it stands.\<close>

definition plain :: "string \<Rightarrow> bool" where
  "plain w \<longleftrightarrow> w \<noteq> [] \<and> hd w \<noteq> CHR ''-''"

fun item_ok :: "App \<Rightarrow> cli_item \<Rightarrow> bool" where
  "item_ok app (ValueOpt n v) \<longleftrightarrow> n \<in> set (app_values app @ app_required app) \<and> plain v"
| "item_ok app (FlagOpt n) \<longleftrightarrow> n \<in> set (app_flags app)"

fun item_value :: "string \<Rightarrow> cli_item \<Rightarrow> string list" where
  "item_value n (ValueOpt n' v) = (if n' = n then [v] else [])"
| "item_value n (FlagOpt _) = []"

definition item_values :: "string \<Rightarrow> cli_item list \<Rightarrow> string list" where
  "item_values n items = concat (map (item_value n) items)"

definition app_ok :: "App \<Rightarrow> bool" where
  "app_ok app \<longleftrightarrow>
     distinct (app_values app @ app_required app @ app_flags app @ app_positional app @
       (case app_last app of None \<Rightarrow> [] | Some n \<Rightarrow> [n])) \<and>
     list_all (\<lambda>n. n \<noteq> [] \<and> CHR ''='' \<notin> set n) (app_values app @ app_required app @ app_flags app)"

definition command_line :: "string \<Rightarrow> string list \<Rightarrow> cli_item list \<Rightarrow> string list option \<Rightarrow> string list" where
  "command_line program pos items rest =
     program # pos @ concat (map item_words items) @ (case rest of None \<Rightarrow> [] | Some ws \<Rightarrow> ''--'' # ws)"

definition ordinary :: "App \<Rightarrow> string list \<Rightarrow> cli_item list \<Rightarrow> string list option \<Rightarrow> bool" where
  "ordinary app pos items rest \<longleftrightarrow>
     length pos = length (app_positional app) \<and> list_all plain pos \<and> list_all (item_ok app) items \<and>
     list_all (\<lambda>n. length (item_values n items) = 1) (app_required app) \<and>
     list_all (\<lambda>n. length (filter ((=) (FlagOpt n)) items) \<le> 1) (app_flags app) \<and>
     (case app_last app of None \<Rightarrow> rest = None | Some _ \<Rightarrow> rest \<noteq> None \<and> rest \<noteq> Some [])"

definition reads_back :: "App \<Rightarrow> Matches \<Rightarrow> string list \<Rightarrow> cli_item list \<Rightarrow> string list option \<Rightarrow> bool" where
  "reads_back app m pos items rest \<longleftrightarrow>
     list_all (\<lambda>n. values_of m n = item_values n items) (app_values app @ app_required app) \<and>
     list_all (\<lambda>n. is_present m n \<longleftrightarrow> FlagOpt n \<in> set items) (app_flags app) \<and>
     map (values_of m) (app_positional app) = map (\<lambda>w. [w]) pos \<and>
     (case app_last app of None \<Rightarrow> True | Some n \<Rightarrow> Some (values_of m n) = rest)"

text \<open>What is documented of clap.\<close>

definition clap_items :: "clap \<Rightarrow> bool" where
  "clap_items clap \<longleftrightarrow>
     (\<forall>app program pos items rest. app_ok app \<longrightarrow> ordinary app pos items rest \<longrightarrow>
        (\<exists>m. clap app (command_line program pos items rest) = Some m \<and> reads_back app m pos items rest))"

definition clap_last :: "clap \<Rightarrow> bool" where
  "clap_last clap \<longleftrightarrow>
     (\<forall>app argv m n. clap app argv = Some m \<longrightarrow> app_last app = Some n \<longrightarrow>
        values_of m n = tl (dropWhile (\<lambda>w. w \<noteq> ''--'') (tl argv)))"

section \<open>Reading lines\<close>

lemma item_values_simps [simp]:
  "item_values n [] = []"
  "item_values n (i # is) = item_value n i @ item_values n is"
  "item_values n (is @ js) = item_values n is @ item_values n js"
  by (simp_all add: item_values_def)

lemma item_values_map:
  "item_values n (map (\<lambda>x. ValueOpt n' (f x)) xs) = (if n' = n then map f xs else [])"
  by (induction xs) auto

lemma filter_flag_values [simp]: "filter ((=) (FlagOpt n)) (map (\<lambda>x. ValueOpt n' (f x)) xs) = []"
  by (induction xs) auto

lemma plain_show_nat: "plain (show_nat n @ w)"
  using show_nat_Cons [of n] not_is_digit_sign by (auto simp: plain_def)

lemma plain_show_int: "0 \<le> i \<Longrightarrow> plain (show_int i @ w)"
  by (simp add: show_int_def plain_show_nat)

text \<open>Words before \<^verbatim>\<open>--\<close> that are not \<^verbatim>\<open>--\<close> themselves do not change where it stands.\<close>

lemma last_words: "''--'' \<notin> set ws \<Longrightarrow> tl (dropWhile (\<lambda>w. w \<noteq> ''--'') (ws @ ''--'' # vs)) = vs"
  by (subst dropWhile_append2) auto

section \<open>A parser of long options\<close>

definition with_item :: "cli_item \<Rightarrow> (cli_item list \<times> string list \<times> string list option) \<Rightarrow>
    cli_item list \<times> string list \<times> string list option" where
  "with_item i = (\<lambda>(items, pos, rest). (i # items, pos, rest))"

definition with_pos :: "string \<Rightarrow> (cli_item list \<times> string list \<times> string list option) \<Rightarrow>
    cli_item list \<times> string list \<times> string list option" where
  "with_pos w = (\<lambda>(items, pos, rest). (items, w # pos, rest))"

fun scan_words :: "App \<Rightarrow> string list \<Rightarrow> (cli_item list \<times> string list \<times> string list option) option" where
  "scan_words app [] = Some ([], [], None)"
| "scan_words app (w # ws) =
     (if w = ''--'' then Some ([], [], Some ws)
      else if take 2 w = ''--'' then
        (if drop 2 w \<in> set (app_flags app) then map_option (with_item (FlagOpt (drop 2 w))) (scan_words app ws)
         else
           (case ws of
              v # ws' \<Rightarrow>
                if drop 2 w \<in> set (app_values app @ app_required app) \<and> plain v
                then map_option (with_item (ValueOpt (drop 2 w) v)) (scan_words app ws') else None
            | [] \<Rightarrow> None))
      else if plain w then map_option (with_pos w) (scan_words app ws)
      else None)"

definition matches_of :: "App \<Rightarrow> string list \<Rightarrow> cli_item list \<Rightarrow> string list option \<Rightarrow> Matches" where
  "matches_of app pos items rest =
     \<lparr>values_of = (\<lambda>n.
        if app_last app = Some n then (case rest of Some ws \<Rightarrow> ws | None \<Rightarrow> [])
        else (case map_of (zip (app_positional app) pos) n of Some w \<Rightarrow> [w] | None \<Rightarrow> item_values n items)),
      is_present = (\<lambda>n. FlagOpt n \<in> set items)\<rparr>"

definition long_options :: clap where
  "long_options app argv =
     (case scan_words app (tl argv) of
        Some (items, pos, rest) \<Rightarrow> if ordinary app pos items rest then Some (matches_of app pos items rest) else None
      | None \<Rightarrow> None)"

lemma plain_not_dashes: "plain w \<Longrightarrow> w \<noteq> ''--'' \<and> take 2 w \<noteq> ''--''"
  by (cases w) (auto simp: plain_def)

lemma scan_words_rest:
  "scan_words app ws = Some (items, pos, Some r) \<Longrightarrow> r = tl (dropWhile (\<lambda>w. w \<noteq> ''--'') ws)"
proof (induction app ws arbitrary: items pos rule: scan_words.induct)
  case (2 app w ws)
  show ?case
  proof (cases "w = ''--'' \<or> ws = []")
    case False
    then obtain v ws' where ws: "ws = v # ws'" "w \<noteq> ''--''" by (cases ws) auto
    with 2 plain_not_dashes [of v] show ?thesis
      by (auto simp: with_item_def with_pos_def split: if_splits)
  qed (use 2 in \<open>auto simp: with_item_def with_pos_def split: if_splits\<close>)
qed simp

lemma clap_last_long_options: "clap_last long_options"
  unfolding clap_last_def
proof (intro allI impI)
  fix app argv m n
  assume m: "long_options app argv = Some m" and n: "app_last app = Some n"
  then obtain items pos r where s: "scan_words app (tl argv) = Some (items, pos, Some r)"
    and m: "m = matches_of app pos items (Some r)"
    by (auto simp: long_options_def ordinary_def split: option.splits if_splits)
  from scan_words_rest [OF s] n m show "values_of m n = tl (dropWhile (\<lambda>w. w \<noteq> ''--'') (tl argv))"
    by (simp add: matches_of_def)
qed

lemma scan_words_items:
  assumes "app_ok app"
  shows "list_all (item_ok app) items \<Longrightarrow>
    scan_words app (concat (map item_words items) @ (case rest of None \<Rightarrow> [] | Some ws \<Rightarrow> ''--'' # ws)) = Some (items, [], rest)"
proof (induction items)
  case Nil
  then show ?case by (simp split: option.splits)
next
  case (Cons i items)
  from assms have ne: "n \<noteq> []" if "n \<in> set (app_values app @ app_required app @ app_flags app)" for n
    using that by (auto simp: app_ok_def list_all_iff)
  show ?case
  proof (cases i)
    case (ValueOpt n v)
    moreover have "n \<notin> set (app_flags app)" using assms Cons.prems ValueOpt by (auto simp: app_ok_def)
    ultimately show ?thesis using Cons ne [of n] by (auto simp: with_item_def)
  next
    case (FlagOpt n)
    then show ?thesis using Cons ne [of n] by (simp add: with_item_def)
  qed
qed

lemma scan_words_line:
  assumes "app_ok app" and "list_all (item_ok app) items"
  shows "list_all plain pos \<Longrightarrow>
    scan_words app (pos @ concat (map item_words items) @ (case rest of None \<Rightarrow> [] | Some ws \<Rightarrow> ''--'' # ws)) =
      Some (items, pos, rest)"
proof (induction pos)
  case Nil
  then show ?case using scan_words_items [OF assms] by simp
next
  case (Cons w pos)
  then show ?case using plain_not_dashes [of w] by (simp add: with_pos_def)
qed

lemma reads_back_matches_of:
  assumes "app_ok app" and "ordinary app pos items rest"
  shows "reads_back app (matches_of app pos items rest) pos items rest"
proof -
  have len: "length (app_positional app) = length pos" using assms(2) by (simp add: ordinary_def)
  have "values_of (matches_of app pos items rest) n = item_values n items"
    if "n \<in> set (app_values app @ app_required app)" for n
  proof -
    have "map_of (zip (app_positional app) pos) n = None" "app_last app \<noteq> Some n"
      using assms(1) that len by (auto simp: app_ok_def map_of_zip_is_None split: option.splits)
    then show ?thesis by (simp add: matches_of_def)
  qed
  then have "list_all (\<lambda>n. values_of (matches_of app pos items rest) n = item_values n items)
      (app_values app @ app_required app)" by (simp add: list_all_iff)
  moreover have "map (values_of (matches_of app pos items rest)) (app_positional app) = map (\<lambda>w. [w]) pos"
  proof (rule nth_equalityI)
    fix k
    assume "k < length (map (values_of (matches_of app pos items rest)) (app_positional app))"
    then have k: "k < length (app_positional app)" by simp
    moreover have "distinct (app_positional app)" "app_last app \<noteq> Some (app_positional app ! k)"
      using assms(1) k by (auto simp: app_ok_def split: option.splits)
    ultimately show "map (values_of (matches_of app pos items rest)) (app_positional app) ! k = map (\<lambda>w. [w]) pos ! k"
      using len by (simp add: matches_of_def map_of_zip_nth)
  qed (simp add: len)
  moreover have "list_all (\<lambda>n. is_present (matches_of app pos items rest) n \<longleftrightarrow> FlagOpt n \<in> set items) (app_flags app)"
    by (simp add: matches_of_def list_all_iff)
  moreover have "case app_last app of None \<Rightarrow> True | Some n \<Rightarrow> Some (values_of (matches_of app pos items rest) n) = rest"
    using assms(2) by (auto simp: ordinary_def matches_of_def split: option.splits)
  ultimately show ?thesis unfolding reads_back_def by blast
qed

lemma clap_items_long_options: "clap_items long_options"
  unfolding clap_items_def
proof (intro allI impI)
  fix app program pos items rest
  assume app: "app_ok app" and o: "ordinary app pos items rest"
  have "scan_words app (tl (command_line program pos items rest)) = Some (items, pos, rest)"
    using scan_words_line [OF app, of items pos rest] o by (simp add: command_line_def ordinary_def)
  then have "long_options app (command_line program pos items rest) = Some (matches_of app pos items rest)"
    using o by (simp add: long_options_def)
  with reads_back_matches_of [OF app o] show "\<exists>m. long_options app (command_line program pos items rest) = Some m \<and>
      reads_back app m pos items rest"
    by blast
qed

end
