(* ===== verification/FdServer.thy ===== *)
theory FdServer
  imports OsFile AuthCommon CommandLine
begin

text \<open>
  \<^verbatim>\<open>authfs/fd_server/src/main.rs\<close> and \<^verbatim>\<open>authfs/fd_server/src/fsverity.rs\<close>: the service that
  serves the files behind a set of file descriptors to the virtual machine.

  The state is the pool of configurations, whose files are named by their raw descriptors,
  and the open files themselves. The five operations of the binder interface are
  \<open>readFile\<close>, \<open>readFsverityMerkleTree\<close>, \<open>readFsveritySignature\<close>, \<open>writeFile\<close> and
  \<open>resize_file\<close>. The kernel's \<open>FS_IOC_READ_VERITY_METADATA\<close> is the parameter \<open>ioctl\<close>: for a
  descriptor, a metadata type, an offset and the length of the buffer it gives an error
  number or the bytes it stores. The clap crate, which splits the command line, is a parameter
  (\<^verbatim>\<open>CommandLine\<close>).
\<close>

section \<open>Definitions\<close>

datatype ExceptionCode = ILLEGAL_ARGUMENT | UNSUPPORTED_OPERATION | ILLEGAL_STATE | SECURITY
  | SERVICE_SPECIFIC

datatype Status = StatusException ExceptionCode | StatusOf StatusCode | StatusInt int
  | StatusErrno errno

definition ERROR_UNKNOWN_FD :: int where "ERROR_UNKNOWN_FD = 1"
definition ERROR_IO :: int where "ERROR_IO = 2"
definition MAX_REQUESTING_DATA :: int where "MAX_REQUESTING_DATA = 16384"

definition validate_and_cast_offset :: "int \<Rightarrow> (nat, Status) outcome" where
  "validate_and_cast_offset off =
     (if 0 \<le> off then Ok (nat off) else Err (StatusException ILLEGAL_ARGUMENT))"

definition validate_and_cast_size :: "int \<Rightarrow> (nat, Status) outcome" where
  "validate_and_cast_size n =
     (if MAX_REQUESTING_DATA < n then Err (StatusException ILLEGAL_ARGUMENT)
      else if 0 \<le> n then Ok (nat n) else Err (StatusException ILLEGAL_ARGUMENT))"

text \<open>A file is named by its descriptor: \<open>Readonly file alt_merkle_tree alt_signature\<close>.\<close>

datatype FdConfig = Readonly int "int option" "int option" | ReadWrite int

record FdService =
  fd_pool :: "int \<rightharpoonup> FdConfig"
  open_files :: "int \<rightharpoonup> File"

type_synonym ('a, 'e) fd_prog = "(FdService, 'a, 'e) prog"
type_synonym verity_ioctl = "int \<Rightarrow> nat \<Rightarrow> nat \<Rightarrow> nat \<Rightarrow> (bytes, errno) outcome"

text \<open>A call on the file behind a descriptor.\<close>

definition with_file :: "int \<Rightarrow> (File, 'a, io_error) prog \<Rightarrow> ('a, io_error) fd_prog" where
  "with_file fd p s =
     (case open_files s fd of
        None \<Rightarrow> (Err (OsError EBADF), s)
      | Some f \<Rightarrow> (case p f of (r, f') \<Rightarrow> (r, s\<lparr>open_files := (open_files s)(fd \<mapsto> f')\<rparr>)))"

definition get_file_config :: "int \<Rightarrow> (FdConfig, Status) fd_prog" where
  "get_file_config fid s = (ok_or (StatusInt ERROR_UNKNOWN_FD) (fd_pool s fid), s)"

definition read_into_buf :: "nat \<Rightarrow> nat \<Rightarrow> (File, bytes, io_error) prog" where
  "read_into_buf max_size off =
     bind_prog file_len (\<lambda>n.
     let buf_size = min (saturating_sub n off) max_size
     in read_exact_at buf_size off)"

definition readFile :: "int \<Rightarrow> int \<Rightarrow> int \<Rightarrow> (bytes, Status) fd_prog" where
  "readFile fid off n =
     bind_prog (ret (validate_and_cast_size n)) (\<lambda>max_size.
     bind_prog (ret (validate_and_cast_offset off)) (\<lambda>start.
     bind_prog (get_file_config fid) (\<lambda>config.
     let fd = (case config of Readonly file _ _ \<Rightarrow> file | ReadWrite file \<Rightarrow> file)
     in map_err_prog (\<lambda>_. StatusInt ERROR_IO) (with_file fd (read_into_buf max_size start)))))"

definition FS_VERITY_METADATA_TYPE_MERKLE_TREE :: nat where "FS_VERITY_METADATA_TYPE_MERKLE_TREE = 1"
definition FS_VERITY_METADATA_TYPE_SIGNATURE :: nat where "FS_VERITY_METADATA_TYPE_SIGNATURE = 3"

text \<open>The ioctl stores its bytes at the start of the buffer and returns their number.\<close>

definition read_metadata :: "verity_ioctl \<Rightarrow> int \<Rightarrow> nat \<Rightarrow> nat \<Rightarrow> bytes \<Rightarrow> (nat \<times> bytes, io_error) outcome"
  where
  "read_metadata ioctl fd metadata_type off buf =
     and_then (map_err OsError (ioctl fd metadata_type off (length buf))) (\<lambda>d.
     Ok (length d, take (length buf) (d @ drop (length d) buf)))"

definition read_merkle_tree :: "verity_ioctl \<Rightarrow> int \<Rightarrow> nat \<Rightarrow> bytes \<Rightarrow> (nat \<times> bytes, io_error) outcome" where
  "read_merkle_tree ioctl fd off buf = read_metadata ioctl fd FS_VERITY_METADATA_TYPE_MERKLE_TREE off buf"

definition read_signature :: "verity_ioctl \<Rightarrow> int \<Rightarrow> bytes \<Rightarrow> (nat \<times> bytes, io_error) outcome" where
  "read_signature ioctl fd buf = read_metadata ioctl fd FS_VERITY_METADATA_TYPE_SIGNATURE 0 buf"

text \<open>\<open>Status::from(e.raw_os_error().unwrap_or(ERROR_IO))\<close>\<close>

fun status_of_io_error :: "io_error \<Rightarrow> Status" where
  "status_of_io_error (OsError e) = StatusErrno e"
| "status_of_io_error (KindError k) = StatusInt ERROR_IO"

definition readFsverityMerkleTree ::
  "bool \<Rightarrow> verity_ioctl \<Rightarrow> int \<Rightarrow> int \<Rightarrow> int \<Rightarrow> (bytes, Status) fd_prog" where
  "readFsverityMerkleTree dbg ioctl fid off n =
     bind_prog (ret (validate_and_cast_size n)) (\<lambda>max_size.
     bind_prog (ret (validate_and_cast_offset off)) (\<lambda>start.
     bind_prog (get_file_config fid) (\<lambda>config.
     case config of
       Readonly file alt_merkle_tree _ \<Rightarrow>
         (case alt_merkle_tree of
            Some tree_file \<Rightarrow>
              map_err_prog (\<lambda>_. StatusInt ERROR_IO) (with_file tree_file (read_into_buf max_size start))
          | None \<Rightarrow>
              bind_prog (ret (map_err status_of_io_error
                (read_merkle_tree ioctl file start (zeros max_size)))) (\<lambda>(k, buf).
              bind_prog (ret (debug_assert dbg (k \<le> length buf))) (\<lambda>_.
              ret (Ok (take k buf)))))
     | ReadWrite _ \<Rightarrow> ret (Err (StatusException UNSUPPORTED_OPERATION)))))"

definition readFsveritySignature ::
  "bool \<Rightarrow> verity_ioctl \<Rightarrow> int \<Rightarrow> (bytes, Status) fd_prog" where
  "readFsveritySignature dbg ioctl fid =
     bind_prog (get_file_config fid) (\<lambda>config.
     case config of
       Readonly file _ alt_signature \<Rightarrow>
         (case alt_signature of
            Some sig_file \<Rightarrow>
              map_err_prog (\<lambda>_. StatusInt ERROR_IO)
                (with_file sig_file (read_into_buf (nat MAX_REQUESTING_DATA) 0))
          | None \<Rightarrow>
              bind_prog (ret (map_err status_of_io_error
                (read_signature ioctl file (zeros (nat MAX_REQUESTING_DATA))))) (\<lambda>(k, buf).
              bind_prog (ret (debug_assert dbg (k \<le> length buf))) (\<lambda>_.
              ret (Ok (take k buf)))))
     | ReadWrite _ \<Rightarrow> ret (Err (StatusException UNSUPPORTED_OPERATION)))"

definition writeFile :: "int \<Rightarrow> bytes \<Rightarrow> int \<Rightarrow> (int, Status) fd_prog" where
  "writeFile fid buf off =
     bind_prog (get_file_config fid) (\<lambda>config.
     case config of
       Readonly _ _ _ \<Rightarrow> ret (Err (StatusOf INVALID_OPERATION))
     | ReadWrite file \<Rightarrow>
         if off < 0 then ret (Err (StatusException ILLEGAL_ARGUMENT))
         else if i32_max < length buf then ret (Err (StatusException ILLEGAL_ARGUMENT))
         else
           bind_prog (map_err_prog (\<lambda>_. StatusInt ERROR_IO) (with_file file (file_write_at buf (nat off)))) (\<lambda>k.
           ret (Ok (as_i32 k))))"

definition resize_file :: "int \<Rightarrow> int \<Rightarrow> (unit, Status) fd_prog" where
  "resize_file fid n =
     bind_prog (get_file_config fid) (\<lambda>config.
     case config of
       Readonly _ _ _ \<Rightarrow> ret (Err (StatusOf INVALID_OPERATION))
     | ReadWrite file \<Rightarrow>
         if n < 0 then ret (Err (StatusException ILLEGAL_ARGUMENT))
         else map_err_prog (\<lambda>_. StatusInt ERROR_IO) (with_file file (set_len (nat n))))"

section \<open>Command line\<close>

datatype arg_error = UsageExit | BadFd int | ParseInt | TooManyOptions | ExpectedEmpty | IoFailure io_error

definition is_fd_valid :: "int \<Rightarrow> FdService \<Rightarrow> bool" where
  "is_fd_valid fd s \<longleftrightarrow> open_files s fd \<noteq> None"

definition fd_to_file :: "int \<Rightarrow> (int, arg_error) fd_prog" where
  "fd_to_file fd s = (if is_fd_valid fd s then Ok fd else Err (BadFd fd), s)"

text \<open>\<open>fds.get(i).map(|fd| fd_to_file(*fd)).transpose()?\<close>\<close>

definition optional_file :: "int list \<Rightarrow> nat \<Rightarrow> (int option, arg_error) fd_prog" where
  "optional_file fds i =
     (if i < length fds then bind_prog (fd_to_file (fds ! i)) (\<lambda>fd. ret (Ok (Some fd)))
      else ret (Ok None))"

definition parse_arg_ro_fds :: "string \<Rightarrow> (int \<times> FdConfig, arg_error) fd_prog" where
  "parse_arg_ro_fds arg =
     bind_prog (ret (try_map (\<lambda>x. ok_or ParseInt (parse_i32 x)) (split_on CHR '':'' arg))) (\<lambda>fds.
     if 3 < length fds then ret (Err TooManyOptions)
     else
       bind_prog (ret (index_vec fds 0)) (\<lambda>fd.
       bind_prog (fd_to_file fd) (\<lambda>file.
       bind_prog (optional_file fds 1) (\<lambda>alt_merkle_tree.
       bind_prog (optional_file fds 2) (\<lambda>alt_signature.
       ret (Ok (fd, Readonly file alt_merkle_tree alt_signature)))))))"

definition parse_arg_rw_fds :: "string \<Rightarrow> (int \<times> FdConfig, arg_error) fd_prog" where
  "parse_arg_rw_fds arg =
     bind_prog (ret (ok_or ParseInt (parse_i32 arg))) (\<lambda>fd.
     bind_prog (fd_to_file fd) (\<lambda>file.
     bind_prog (map_err_prog IoFailure (with_file file file_len)) (\<lambda>n.
     if 0 < n then ret (Err ExpectedEmpty) else ret (Ok (fd, ReadWrite file)))))"

text \<open>\<open>fd_pool.insert(fd, config)\<close>: a configuration that is replaced is dropped, which closes its
  files.\<close>

definition config_fds :: "FdConfig \<Rightarrow> int set" where
  "config_fds config =
     (case config of
        Readonly file alt_merkle_tree alt_signature \<Rightarrow> {file} \<union> set_option alt_merkle_tree \<union> set_option alt_signature
      | ReadWrite file \<Rightarrow> {file})"

definition drop_config :: "FdConfig option \<Rightarrow> FdService \<Rightarrow> FdService" where
  "drop_config old s =
     (case old of None \<Rightarrow> s | Some config \<Rightarrow> s\<lparr>open_files := open_files s |` (- config_fds config)\<rparr>)"

definition insert_config :: "int \<Rightarrow> FdConfig \<Rightarrow> (unit, arg_error) fd_prog" where
  "insert_config fd config s =
     (Ok (), drop_config (fd_pool s fd) (s\<lparr>fd_pool := (fd_pool s)(fd \<mapsto> config)\<rparr>))"

fun insert_all :: "(string \<Rightarrow> (int \<times> FdConfig, arg_error) fd_prog) \<Rightarrow> string list \<Rightarrow> (unit, arg_error) fd_prog" where
  "insert_all parse [] = ret (Ok ())"
| "insert_all parse (arg # args) =
     bind_prog (parse arg) (\<lambda>(fd, config).
     bind_prog (insert_config fd config) (\<lambda>_.
     insert_all parse args))"

text \<open>The two loops of \<open>parse_args\<close> insert into the pool in order.\<close>

definition insert_fd_args :: "string list \<Rightarrow> string list \<Rightarrow> (unit, arg_error) fd_prog" where
  "insert_fd_args ro_fds rw_fds =
     bind_prog (\<lambda>s. (Ok (), s\<lparr>fd_pool := Map.empty\<rparr>)) (\<lambda>_.
     bind_prog (insert_all parse_arg_ro_fds ro_fds) (\<lambda>_.
     insert_all parse_arg_rw_fds rw_fds))"

definition fd_server_app :: App where
  "fd_server_app =
     \<lparr>app_values = [''ro-fds'', ''rw-fds''], app_required = [], app_flags = [], app_positional = [], app_last = None\<rparr>"

definition fd_server_parse_args :: "clap \<Rightarrow> string list \<Rightarrow> (unit, arg_error) fd_prog" where
  "fd_server_parse_args clap argv =
     bind_prog (ret (ok_or UsageExit (clap fd_server_app argv))) (\<lambda>matches.
     insert_fd_args (values_of matches ''ro-fds'') (values_of matches ''rw-fds''))"

section \<open>Requests of a client\<close>

text \<open>What a client can ask for; a run of the service handles a sequence of requests.\<close>

datatype fd_request = ReadFile int int int | ReadMerkleTree int int int | ReadSignature int
  | WriteFile int bytes int | ResizeFile int int

fun serve :: "bool \<Rightarrow> verity_ioctl \<Rightarrow> fd_request \<Rightarrow> FdService \<Rightarrow> FdService" where
  "serve dbg ioctl (ReadFile fid off n) s = snd (readFile fid off n s)"
| "serve dbg ioctl (ReadMerkleTree fid off n) s = snd (readFsverityMerkleTree dbg ioctl fid off n s)"
| "serve dbg ioctl (ReadSignature fid) s = snd (readFsveritySignature dbg ioctl fid s)"
| "serve dbg ioctl (WriteFile fid buf off) s = snd (writeFile fid buf off s)"
| "serve dbg ioctl (ResizeFile fid n) s = snd (resize_file fid n s)"

definition serve_all :: "bool \<Rightarrow> verity_ioctl \<Rightarrow> fd_request list \<Rightarrow> FdService \<Rightarrow> FdService" where
  "serve_all dbg ioctl reqs s = fold (serve dbg ioctl) reqs s"

text \<open>The content behind a descriptor, and the descriptors the pool offers for writing.\<close>

definition fd_contents :: "int \<Rightarrow> FdService \<Rightarrow> bytes option" where
  "fd_contents fd s = map_option contents (open_files s fd)"

definition writable_fds :: "FdService \<Rightarrow> int set" where
  "writable_fds s = {fd. \<exists>i. fd_pool s i = Some (ReadWrite fd)}"

text \<open>The state differs at most in the contents of the files of \<open>W\<close> (and in the schedules).\<close>

definition only_changes :: "int set \<Rightarrow> FdService \<Rightarrow> FdService \<Rightarrow> bool" where
  "only_changes W s s' \<longleftrightarrow>
     fd_pool s' = fd_pool s \<and> (\<forall>fd. fd \<notin> W \<longrightarrow> fd_contents fd s' = fd_contents fd s)"

section \<open>Isolation of read-only files\<close>

lemma only_changes_refl [simp]: "only_changes W s s"
  by (simp add: only_changes_def)

lemma only_changes_trans: "only_changes W s t \<Longrightarrow> only_changes W t u \<Longrightarrow> only_changes W s u"
  by (simp add: only_changes_def)

lemma only_changes_with_file:
  assumes "\<And>f. fd \<in> W \<or> contents (snd (p f)) = contents f"
  shows "only_changes W s (snd (with_file fd p s))"
  using assms by (auto simp: only_changes_def with_file_def fd_contents_def split: option.splits prod.splits)
    (metis snd_conv)+

lemma contents_read_into_buf [simp]: "contents (snd (read_into_buf n off f)) = contents f"
  unfolding read_into_buf_def
  by (rule bind_prog_state [where P = "\<lambda>g. contents g = contents f"]) (simp_all add: Let_def)

lemma snd_bind_get_file_config:
  "snd (bind_prog (get_file_config fid) k s) =
     (case fd_pool s fid of None \<Rightarrow> s | Some config \<Rightarrow> snd (k config s))"
  by (simp add: bind_prog_def get_file_config_def split: option.splits)

lemma snd_bind_ret: "snd (bind_prog (ret r) k s) = (case r of Ok a \<Rightarrow> snd (k a s) | _ \<Rightarrow> s)"
  by (cases r) (simp_all add: bind_prog_def)

lemma snd_bind_ret_after: "snd (bind_prog m (\<lambda>k. ret (g k)) s) = snd (m s)"
  by (simp add: bind_prog_def split: prod.splits outcome.splits)

lemmas serve_state_simps =
  snd_bind_get_file_config snd_bind_ret snd_bind_ret_after

text \<open>Reads change no content at all.\<close>

lemma readFile_only_changes: "only_changes {} s (snd (readFile fid off n s))"
  by (auto simp: readFile_def serve_state_simps Let_def intro: only_changes_with_file
      split: outcome.splits option.splits)

lemma readFsverityMerkleTree_only_changes:
  "only_changes {} s (snd (readFsverityMerkleTree dbg ioctl fid off n s))"
  by (auto simp: readFsverityMerkleTree_def serve_state_simps intro: only_changes_with_file
      split: outcome.splits option.splits FdConfig.splits)

lemma readFsveritySignature_only_changes:
  "only_changes {} s (snd (readFsveritySignature dbg ioctl fid s))"
  by (auto simp: readFsveritySignature_def serve_state_simps intro: only_changes_with_file
      split: outcome.splits option.splits FdConfig.splits)

lemma only_changes_mono: "only_changes V s t \<Longrightarrow> V \<subseteq> W \<Longrightarrow> only_changes W s t"
  by (auto simp: only_changes_def)

lemma serve_only_changes: "only_changes (writable_fds s) s (serve dbg ioctl req s)"
proof (cases req)
  case (ReadFile fid off n)
  then show ?thesis using only_changes_mono [OF readFile_only_changes] by simp
next
  case (ReadMerkleTree fid off n)
  then show ?thesis using only_changes_mono [OF readFsverityMerkleTree_only_changes] by simp
next
  case (ReadSignature fid)
  then show ?thesis using only_changes_mono [OF readFsveritySignature_only_changes] by simp
next
  case (WriteFile fid buf off)
  then show ?thesis
    by (auto simp: writeFile_def serve_state_simps writable_fds_def intro!: only_changes_with_file
        split: option.splits FdConfig.splits)
next
  case (ResizeFile fid n)
  then show ?thesis
    by (auto simp: resize_file_def serve_state_simps writable_fds_def intro!: only_changes_with_file
        split: option.splits FdConfig.splits)
qed

lemma writable_fds_only_changes: "only_changes W s s' \<Longrightarrow> writable_fds s' = writable_fds s"
  by (simp add: only_changes_def writable_fds_def)

lemma serve_all_only_changes: "only_changes (writable_fds s) s (serve_all dbg ioctl reqs s)"
  unfolding serve_all_def
proof (induction reqs arbitrary: s)
  case Nil
  then show ?case by simp
next
  case (Cons req reqs)
  have "only_changes (writable_fds s) s (serve dbg ioctl req s)" by (rule serve_only_changes)
  moreover from this have "writable_fds (serve dbg ioctl req s) = writable_fds s"
    by (rule writable_fds_only_changes)
  ultimately show ?case
    using Cons.IH [of "serve dbg ioctl req s"] only_changes_trans by fastforce
qed

section \<open>A service whose files behave\<close>

definition config_file :: "FdConfig \<Rightarrow> int" where
  "config_file config = (case config of Readonly file _ _ \<Rightarrow> file | ReadWrite file \<Rightarrow> file)"

definition served_content :: "int \<Rightarrow> FdService \<Rightarrow> bytes" where
  "served_content fid s =
     (case fd_pool s fid of None \<Rightarrow> []
      | Some config \<Rightarrow> (case open_files s (config_file config) of None \<Rightarrow> [] | Some f \<Rightarrow> contents f))"

definition file_fine :: "File \<Rightarrow> bool" where
  "file_fine f \<longleftrightarrow> benign f \<and> length (contents f) \<le> i64_max"

definition served_fine :: "int \<Rightarrow> FdService \<Rightarrow> bool" where
  "served_fine fid s \<longleftrightarrow>
     (\<exists>config f. fd_pool s fid = Some config \<and> open_files s (config_file config) = Some f \<and> file_fine f)"

definition served_writable :: "int \<Rightarrow> FdService \<Rightarrow> bool" where
  "served_writable fid s \<longleftrightarrow> served_fine fid s \<and> (\<exists>fd. fd_pool s fid = Some (ReadWrite fd))"

lemma read_into_buf_fine:
  assumes "file_fine f"
  shows "\<exists>f'. read_into_buf n off f = (Ok (take n (drop off (contents f))), f') \<and> file_fine f' \<and>
              contents f' = contents f"
proof -
  obtain g where g: "file_len f = (Ok (length (contents f)), g)" "benign g" "contents g = contents f"
    using file_len_benign assms by (auto simp: file_fine_def)
  let ?k = "min (length (contents f) - off) n"
  show ?thesis
  proof (cases "?k = 0")
    case True
    with g assms show ?thesis
      by (auto simp: read_into_buf_def Let_def saturating_sub_def read_exact_at_def file_fine_def)
  next
    case False
    then have "off + ?k \<le> length (contents g)" "off \<le> i64_max" using g assms by (auto simp: file_fine_def)
    from read_exact_at_benign [OF g(2) this] obtain h where
      "read_exact_at ?k off g = (Ok (take ?k (drop off (contents f))), h)" "benign h"
      "contents h = contents f"
      using g(3) by auto
    moreover have "take ?k (drop off (contents f)) = take n (drop off (contents f))"
      by (auto simp: min_def)
    ultimately show ?thesis
      using g assms by (auto simp: read_into_buf_def Let_def saturating_sub_def file_fine_def)
  qed
qed

lemma with_file_Ok:
  "open_files s fd = Some f \<Longrightarrow> p f = (r, f') \<Longrightarrow>
   with_file fd p s = (r, s\<lparr>open_files := (open_files s)(fd \<mapsto> f')\<rparr>)"
  by (simp add: with_file_def)

lemma get_file_config_Some [simp]:
  "fd_pool s fid = Some config \<Longrightarrow> get_file_config fid s = (Ok config, s)"
  by (simp add: get_file_config_def)

lemma readFile_fine:
  assumes "served_fine fid s" and "0 \<le> n" and "n \<le> MAX_REQUESTING_DATA" and "0 \<le> off"
  shows "\<exists>s'. readFile fid off n s = (Ok (take (nat n) (drop (nat off) (served_content fid s))), s') \<and>
              served_fine fid s' \<and> served_content fid s' = served_content fid s \<and> fd_pool s' = fd_pool s"
proof -
  obtain config f where c: "fd_pool s fid = Some config" "open_files s (config_file config) = Some f"
    "file_fine f"
    using assms(1) by (auto simp: served_fine_def)
  obtain f' where f': "read_into_buf (nat n) (nat off) f = (Ok (take (nat n) (drop (nat off) (contents f))), f')"
    "file_fine f'" "contents f' = contents f"
    using read_into_buf_fine [OF c(3)] by blast
  have "with_file (config_file config) (read_into_buf (nat n) (nat off)) s =
     (Ok (take (nat n) (drop (nat off) (contents f))), s\<lparr>open_files := (open_files s)(config_file config \<mapsto> f')\<rparr>)"
    using c(2) f'(1) by (rule with_file_Ok)
  with c f' assms show ?thesis
    by (auto simp: readFile_def validate_and_cast_size_def validate_and_cast_offset_def
        served_fine_def served_content_def Let_def map_err_prog_simp simp flip: config_file_def)
qed

text \<open>A file served with its Merkle tree in another file.\<close>

definition served_tree :: "int \<Rightarrow> FdService \<Rightarrow> bytes" where
  "served_tree fid s =
     (case fd_pool s fid of
        Some (Readonly _ (Some tree_file) _) \<Rightarrow>
          (case open_files s tree_file of None \<Rightarrow> [] | Some f \<Rightarrow> contents f)
      | _ \<Rightarrow> [])"

definition served_with_tree :: "int \<Rightarrow> FdService \<Rightarrow> bool" where
  "served_with_tree fid s \<longleftrightarrow>
     (\<exists>file tree_file sig f t. fd_pool s fid = Some (Readonly file (Some tree_file) sig) \<and>
        open_files s file = Some f \<and> file_fine f \<and> open_files s tree_file = Some t \<and> file_fine t)"

lemma served_content_fd_contents:
  "served_content fid s = (case fd_pool s fid of None \<Rightarrow> []
     | Some config \<Rightarrow> (case fd_contents (config_file config) s of None \<Rightarrow> [] | Some c \<Rightarrow> c))"
  by (auto simp: served_content_def fd_contents_def split: option.splits)

lemma served_tree_fd_contents:
  "served_tree fid s = (case fd_pool s fid of
        Some (Readonly _ (Some tree_file) _) \<Rightarrow>
          (case fd_contents tree_file s of None \<Rightarrow> [] | Some c \<Rightarrow> c)
      | _ \<Rightarrow> [])"
  by (auto simp: served_tree_def fd_contents_def split: option.splits FdConfig.splits)

lemma only_changes_served:
  "only_changes {} s s' \<Longrightarrow> served_content fid s' = served_content fid s \<and> served_tree fid s' = served_tree fid s"
  by (auto simp: only_changes_def served_content_fd_contents served_tree_fd_contents
      split: option.splits FdConfig.splits)

lemma readFsverityMerkleTree_fine:
  assumes "served_with_tree fid s" and "0 \<le> n" and "n \<le> MAX_REQUESTING_DATA" and "0 \<le> off"
  shows "\<exists>s'. readFsverityMerkleTree dbg ioctl fid off n s =
           (Ok (take (nat n) (drop (nat off) (served_tree fid s))), s') \<and> served_with_tree fid s'"
proof -
  obtain fd tf sig f t where c: "fd_pool s fid = Some (Readonly fd (Some tf) sig)"
    "open_files s fd = Some f" "file_fine f" "open_files s tf = Some t" "file_fine t"
    using assms(1) unfolding served_with_tree_def by blast
  obtain t' where t': "read_into_buf (nat n) (nat off) t = (Ok (take (nat n) (drop (nat off) (contents t))), t')"
    "file_fine t'"
    using read_into_buf_fine [OF c(5)] by blast
  have "with_file tf (read_into_buf (nat n) (nat off)) s =
     (Ok (take (nat n) (drop (nat off) (contents t))), s\<lparr>open_files := (open_files s)(tf \<mapsto> t')\<rparr>)"
    using c(4) t'(1) by (rule with_file_Ok)
  with c t' assms show ?thesis
    by (auto simp: readFsverityMerkleTree_def validate_and_cast_size_def validate_and_cast_offset_def
        served_with_tree_def served_tree_def map_err_prog_simp)
qed

lemma readFile_fine_with_tree:
  assumes "served_with_tree fid s" and "0 \<le> n" and "n \<le> MAX_REQUESTING_DATA" and "0 \<le> off"
  shows "\<exists>s'. readFile fid off n s =
           (Ok (take (nat n) (drop (nat off) (served_content fid s))), s') \<and> served_with_tree fid s'"
proof -
  obtain fd tf sig f t where c: "fd_pool s fid = Some (Readonly fd (Some tf) sig)"
    "open_files s fd = Some f" "file_fine f" "open_files s tf = Some t" "file_fine t"
    using assms(1) unfolding served_with_tree_def by blast
  obtain f' where f': "read_into_buf (nat n) (nat off) f = (Ok (take (nat n) (drop (nat off) (contents f))), f')"
    "file_fine f'"
    using read_into_buf_fine [OF c(3)] by blast
  have "with_file fd (read_into_buf (nat n) (nat off)) s =
     (Ok (take (nat n) (drop (nat off) (contents f))), s\<lparr>open_files := (open_files s)(fd \<mapsto> f')\<rparr>)"
    using c(2) f'(1) by (rule with_file_Ok)
  with c f' assms show ?thesis
    by (auto simp: readFile_def validate_and_cast_size_def validate_and_cast_offset_def
        served_with_tree_def served_content_def config_file_def map_err_prog_simp)
qed

lemma writeFile_fine:
  assumes "served_writable fid s" and "buf \<noteq> []" and "length buf \<le> i32_max"
    and "off + length buf \<le> i64_max"
  shows "\<exists>k s'. writeFile fid buf (int off) s = (Ok (int k), s') \<and> 0 < k \<and> k \<le> length buf \<and>
                served_writable fid s' \<and>
                served_content fid s' = pwrite (served_content fid s) off (take k buf)"
proof -
  obtain fd f where c: "fd_pool s fid = Some (ReadWrite fd)" "open_files s fd = Some f" "file_fine f"
    using assms(1) by (auto simp: served_writable_def served_fine_def config_file_def)
  obtain k f' where f': "file_write_at buf off f = (Ok k, f')" "0 < k" "k \<le> length buf" "benign f'"
    "contents f' = pwrite (contents f) off (take k buf)"
    using file_write_at_benign [of f buf off] c(3) assms by (auto simp: file_fine_def)
  have "length (contents f') \<le> i64_max"
    using f' c(3) assms(4) by (auto simp: file_fine_def length_pwrite)
  with f' have "file_fine f'" by (simp add: file_fine_def)
  with c f' assms show ?thesis
    by (auto simp: writeFile_def served_writable_def served_fine_def served_content_def config_file_def
        with_file_Ok map_err_prog_simp bind_prog_def intro!: exI [of _ k])
qed

lemma resize_file_fine:
  assumes "served_writable fid s" and "n \<le> i64_max"
  shows "\<exists>s'. resize_file fid (int n) s = (Ok (), s') \<and> served_writable fid s' \<and>
              served_content fid s' = resize_bytes n (served_content fid s)"
proof -
  obtain fd f where c: "fd_pool s fid = Some (ReadWrite fd)" "open_files s fd = Some f" "file_fine f"
    using assms(1) by (auto simp: served_writable_def served_fine_def config_file_def)
  obtain f' where f': "set_len n f = (Ok (), f')" "benign f'" "contents f' = resize_bytes n (contents f)"
    using set_len_benign [of f n] c(3) assms by (auto simp: file_fine_def)
  then have "file_fine f'" using assms(2) by (simp add: file_fine_def resize_bytes_def)
  with c f' show ?thesis
    by (auto simp: resize_file_def served_writable_def served_fine_def served_content_def config_file_def
        with_file_Ok map_err_prog_simp)
qed

section \<open>The command line gives every descriptor its configuration\<close>

definition i32_fd :: "int \<Rightarrow> bool" where
  "i32_fd fd \<longleftrightarrow> 0 \<le> fd \<and> fd \<le> int i32_max"

lemma i32_fd_parse: "i32_fd fd \<Longrightarrow> parse_i32 (show_int fd) = Some fd"
  by (rule parse_i32_show_int) (auto simp: i32_fd_def)

lemma parse_arg_ro_fds_show:
  "i32_fd fd \<Longrightarrow> open_files s fd = Some f \<Longrightarrow>
   parse_arg_ro_fds (show_int fd) s = (Ok (fd, Readonly fd None None), s)"
  by (simp add: parse_arg_ro_fds_def split_on_none i32_fd_parse fd_to_file_def is_fd_valid_def optional_file_def
      bind_prog_def)

lemma parse_arg_rw_fds_show:
  assumes "i32_fd fd" and "open_files s fd = Some f" and "file_fine f" and "contents f = []"
  shows "\<exists>f'. parse_arg_rw_fds (show_int fd) s =
      (Ok (fd, ReadWrite fd), s\<lparr>open_files := (open_files s)(fd \<mapsto> f')\<rparr>) \<and> file_fine f' \<and> contents f' = []"
proof -
  obtain f' where f': "file_len f = (Ok 0, f')" "benign f'" "contents f' = []"
    using file_len_benign [of f] assms(3,4) by (auto simp: file_fine_def)
  then show ?thesis
    using assms by (auto simp: parse_arg_rw_fds_def i32_fd_parse fd_to_file_def is_fd_valid_def map_err_prog_def
        with_file_Ok bind_prog_def file_fine_def)
qed

text \<open>Every descriptor of a list is open on a well-behaved file, with the given contents.\<close>

definition fds_fine :: "int list \<Rightarrow> (int \<Rightarrow> bytes) \<Rightarrow> FdService \<Rightarrow> bool" where
  "fds_fine fds cont s \<longleftrightarrow>
     (\<forall>fd\<in>set fds. \<exists>f. open_files s fd = Some f \<and> file_fine f \<and> contents f = cont fd)"

text \<open>The pool after a list of descriptors has been inserted.\<close>

definition insert_fds :: "(int \<Rightarrow> FdConfig) \<Rightarrow> int list \<Rightarrow> (int \<rightharpoonup> FdConfig) \<Rightarrow> (int \<rightharpoonup> FdConfig)" where
  "insert_fds g fds pool = (\<lambda>fd. if fd \<in> set fds then Some (g fd) else pool fd)"

lemma insert_fds_Cons: "insert_fds g (fd # fds) pool = insert_fds g fds (pool(fd \<mapsto> g fd))"
  by (auto simp: insert_fds_def)

lemma fds_fine_pool [simp]: "fds_fine fds c (s\<lparr>fd_pool := p\<rparr>) = fds_fine fds c s"
  by (simp add: fds_fine_def)

lemma insert_all_ro:
  assumes "distinct fds" and "list_all i32_fd fds" and "fds_fine fds cont s"
    and "\<And>fd. fd \<in> set fds \<Longrightarrow> fd_pool s fd = None"
  shows "insert_all parse_arg_ro_fds (map show_int fds) s =
    (Ok (), s\<lparr>fd_pool := insert_fds (\<lambda>fd. Readonly fd None None) fds (fd_pool s)\<rparr>)"
  using assms
proof (induction fds arbitrary: s)
  case Nil
  then show ?case by (simp add: insert_fds_def)
next
  case (Cons fd fds)
  let ?s1 = "s\<lparr>fd_pool := (fd_pool s)(fd \<mapsto> Readonly fd None None)\<rparr>"
  obtain f where f: "open_files s fd = Some f" using Cons.prems(3) by (auto simp: fds_fine_def)
  have "insert_all parse_arg_ro_fds (map show_int fds) ?s1 =
      (Ok (), ?s1\<lparr>fd_pool := insert_fds (\<lambda>fd. Readonly fd None None) fds (fd_pool ?s1)\<rparr>)"
    by (rule Cons.IH) (use Cons.prems in \<open>auto simp: fds_fine_def\<close>)
  with Cons.prems f show ?case
    by (simp add: parse_arg_ro_fds_show insert_config_def drop_config_def bind_prog_def insert_fds_Cons)
qed

lemma insert_all_rw:
  assumes "distinct fds" and "list_all i32_fd fds" and "fds_fine fds (\<lambda>_. []) s"
    and "\<And>fd. fd \<in> set fds \<Longrightarrow> fd_pool s fd = None" and "fds_fine ins cont s" and "set ins \<inter> set fds = {}"
  shows "\<exists>s'. insert_all parse_arg_rw_fds (map show_int fds) s = (Ok (), s') \<and>
    fd_pool s' = insert_fds ReadWrite fds (fd_pool s) \<and> fds_fine fds (\<lambda>_. []) s' \<and> fds_fine ins cont s'"
  using assms
proof (induction fds arbitrary: s ins cont)
  case Nil
  then show ?case by (simp add: insert_fds_def)
next
  case (Cons fd fds)
  obtain f where f: "open_files s fd = Some f" "file_fine f" "contents f = []"
    using Cons.prems(3) by (auto simp: fds_fine_def)
  then obtain f' where f': "parse_arg_rw_fds (show_int fd) s =
      (Ok (fd, ReadWrite fd), s\<lparr>open_files := (open_files s)(fd \<mapsto> f')\<rparr>)" "file_fine f'" "contents f' = []"
    using parse_arg_rw_fds_show [of fd s f] Cons.prems(2) by auto
  let ?s1 = "s\<lparr>open_files := (open_files s)(fd \<mapsto> f'), fd_pool := (fd_pool s)(fd \<mapsto> ReadWrite fd)\<rparr>"
  have "\<exists>s'. insert_all parse_arg_rw_fds (map show_int fds) ?s1 = (Ok (), s') \<and>
      fd_pool s' = insert_fds ReadWrite fds (fd_pool ?s1) \<and>
      fds_fine fds (\<lambda>_. []) s' \<and> fds_fine (fd # ins) (cont(fd := [])) s'"
    by (rule Cons.IH) (use Cons.prems f' in \<open>auto simp: fds_fine_def\<close>)
  then obtain s' where s': "insert_all parse_arg_rw_fds (map show_int fds) ?s1 = (Ok (), s')"
    "fd_pool s' = insert_fds ReadWrite fds (fd_pool ?s1)"
    "fds_fine fds (\<lambda>_. []) s'" "fds_fine (fd # ins) (cont(fd := [])) s'"
    by blast
  have "fds_fine ins cont s'" "fds_fine (fd # fds) (\<lambda>_. []) s'"
    using s'(3,4) Cons.prems(6) by (auto simp: fds_fine_def)
  moreover have "insert_all parse_arg_rw_fds (map show_int (fd # fds)) s = (Ok (), s')"
    using f'(1) s'(1) Cons.prems(4) by (simp add: insert_config_def drop_config_def bind_prog_def)
  ultimately show ?case using s'(2) by (auto simp: insert_fds_Cons)
qed

lemma insert_fd_args_pool:
  assumes dist: "distinct (ins @ outs)" and i32: "list_all i32_fd (ins @ outs)"
    and ins: "fds_fine ins cont s" and outs: "fds_fine outs (\<lambda>_. []) s"
  shows "\<exists>s'. insert_fd_args (map show_int ins) (map show_int outs) s = (Ok (), s') \<and>
    fd_pool s' = insert_fds ReadWrite outs (insert_fds (\<lambda>fd. Readonly fd None None) ins Map.empty) \<and>
    fds_fine ins cont s' \<and> fds_fine outs (\<lambda>_. []) s'"
proof -
  let ?ro = "insert_fds (\<lambda>fd. Readonly fd None None) ins Map.empty"
  have ro: "insert_all parse_arg_ro_fds (map show_int ins) (s\<lparr>fd_pool := Map.empty\<rparr>) = (Ok (), s\<lparr>fd_pool := ?ro\<rparr>)"
    using insert_all_ro [of ins cont "s\<lparr>fd_pool := Map.empty\<rparr>"] dist i32 ins by simp
  have "?ro fd = None" if "fd \<in> set outs" for fd
    using that dist by (auto simp: insert_fds_def)
  then obtain s' where "insert_all parse_arg_rw_fds (map show_int outs) (s\<lparr>fd_pool := ?ro\<rparr>) = (Ok (), s')"
    "fd_pool s' = insert_fds ReadWrite outs ?ro" "fds_fine outs (\<lambda>_. []) s'" "fds_fine ins cont s'"
    using insert_all_rw [of outs "s\<lparr>fd_pool := ?ro\<rparr>" ins cont] dist i32 ins outs by auto
  with ro show ?thesis by (simp add: insert_fd_args_def bind_prog_def)
qed

text \<open>The command line with one option per descriptor.\<close>

lemma app_ok_fd_server: "app_ok fd_server_app"
  by (simp add: app_ok_def fd_server_app_def)

lemma fd_server_parse_args_line:
  assumes "clap_items clap" and "list_all i32_fd (ins @ outs)"
  shows "fd_server_parse_args clap (program # concat (map (\<lambda>fd. [''--ro-fds'', show_int fd]) ins) @
      concat (map (\<lambda>fd. [''--rw-fds'', show_int fd]) outs)) = insert_fd_args (map show_int ins) (map show_int outs)"
proof -
  let ?items = "map (\<lambda>fd. ValueOpt ''ro-fds'' (show_int fd)) ins @ map (\<lambda>fd. ValueOpt ''rw-fds'' (show_int fd)) outs"
  have "plain (show_int fd)" if "fd \<in> set (ins @ outs)" for fd
    using assms(2) that plain_show_int [of fd "[]"] by (auto simp: list_all_iff i32_fd_def)
  then have "ordinary fd_server_app [] ?items None"
    by (auto simp: ordinary_def fd_server_app_def list_all_iff)
  then obtain m where "clap fd_server_app (command_line program [] ?items None) = Some m"
    "reads_back fd_server_app m [] ?items None"
    using assms(1) app_ok_fd_server unfolding clap_items_def by blast
  then show ?thesis
    by (simp add: fd_server_parse_args_def command_line_def comp_def)
       (simp add: reads_back_def fd_server_app_def item_values_map)
qed

text \<open>A descriptor named twice is closed when its first configuration is replaced.\<close>

lemma duplicate_ro_fd_closed:
  assumes "i32_fd fd" and "open_files s fd = Some f"
  shows "\<exists>s'. insert_fd_args [show_int fd, show_int fd] [] s = (Ok (), s') \<and>
    fd_pool s' fd = Some (Readonly fd None None) \<and> open_files s' fd = None"
  using assms
  by (auto simp: insert_fd_args_def parse_arg_ro_fds_show insert_config_def drop_config_def config_fds_def
      bind_prog_def)

end
