(* ===== verification/RemoteFile.thy ===== *)
theory RemoteFile
  imports EditorThreads Verifier FdServer
begin

text \<open>
  \<^verbatim>\<open>authfs/src/file/remote_file.rs\<close>: files served by the remote service, as seen from the
  virtual machine. The service is not trusted: it is a value of type \<open>virt_fd_service\<close> with an
  arbitrary function per method of the binder interface, over an arbitrary state.

  Whatever the service does, the readers satisfy \<open>prefix_reader\<close>. On the service of
  theory \<^verbatim>\<open>FdServer\<close> (with files that behave) they satisfy \<open>chunk_reader\<close>, and the editor
  satisfies \<open>editable_file\<close>; a file served together with its Merkle tree satisfies
  \<open>verity_files\<close>. The lemmas about the editor and the verified reader apply to remote files
  through these interpretations.
\<close>

section \<open>Definitions\<close>

record 's virt_fd_service =
  svc_readFile :: "int \<Rightarrow> int \<Rightarrow> int \<Rightarrow> ('s, bytes, Status) prog"
  svc_readFsverityMerkleTree :: "int \<Rightarrow> int \<Rightarrow> int \<Rightarrow> ('s, bytes, Status) prog"
  svc_readFsveritySignature :: "int \<Rightarrow> ('s, bytes, Status) prog"
  svc_writeFile :: "int \<Rightarrow> bytes \<Rightarrow> int \<Rightarrow> ('s, int, Status) prog"
  svc_resize :: "int \<Rightarrow> int \<Rightarrow> ('s, unit, Status) prog"

definition fd_server :: "bool \<Rightarrow> verity_ioctl \<Rightarrow> FdService virt_fd_service" where
  "fd_server dbg ioctl =
     \<lparr>svc_readFile = readFile,
      svc_readFsverityMerkleTree = readFsverityMerkleTree dbg ioctl,
      svc_readFsveritySignature = readFsveritySignature dbg ioctl,
      svc_writeFile = writeFile,
      svc_resize = resize_file\<rparr>"

text \<open>\<open>i64::try_from(n).map_err(|_| io::Error::from_raw_os_error(libc::EOVERFLOW))\<close>\<close>

definition i64_try_from :: "nat \<Rightarrow> (int, io_error) outcome" where
  "i64_try_from n = (if n \<le> i64_max then Ok (int n) else Err (OsError EOVERFLOW))"

definition remote_read_chunk :: "'s virt_fd_service \<Rightarrow> int \<Rightarrow> 's read_chunk_fn" where
  "remote_read_chunk svc remote_fd chunk_index buf =
     bind_prog (ret (u64_mul chunk_index CHUNK_SIZE)) (\<lambda>start.
     bind_prog (ret (i64_try_from start)) (\<lambda>off.
     bind_prog (map_err_prog (\<lambda>_. KindError Other)
       (svc_readFile svc remote_fd off (as_i32 (length buf)))) (\<lambda>chunk.
     let n = min (length buf) (length chunk) in
     bind_prog (ret (slice_range chunk 0 n)) (\<lambda>d.
     bind_prog (ret (copy_into buf 0 n d)) (\<lambda>buf'.
     ret (Ok (n, buf')))))))"

definition RemoteFileReader_read_chunk :: "'s virt_fd_service \<Rightarrow> int \<Rightarrow> 's read_chunk_fn" where
  "RemoteFileReader_read_chunk svc file_fd = remote_read_chunk svc file_fd"

definition RemoteMerkleTreeReader_read_chunk :: "'s virt_fd_service \<Rightarrow> int \<Rightarrow> 's read_chunk_fn" where
  "RemoteMerkleTreeReader_read_chunk svc file_fd chunk_index buf =
     bind_prog (ret (u64_mul chunk_index CHUNK_SIZE)) (\<lambda>start.
     bind_prog (ret (i64_try_from start)) (\<lambda>off.
     bind_prog (map_err_prog (\<lambda>_. KindError Other)
       (svc_readFsverityMerkleTree svc file_fd off (as_i32 (length buf)))) (\<lambda>chunk.
     let n = min (length buf) (length chunk) in
     bind_prog (ret (slice_range chunk 0 n)) (\<lambda>d.
     bind_prog (ret (copy_into buf 0 n d)) (\<lambda>buf'.
     ret (Ok (n, buf')))))))"

definition RemoteFileEditor_write_at :: "'s virt_fd_service \<Rightarrow> int \<Rightarrow> 's write_at_fn" where
  "RemoteFileEditor_write_at svc file_fd buf off =
     bind_prog (ret (i64_try_from off)) (\<lambda>start.
     bind_prog (map_err_prog (\<lambda>_. KindError Other) (svc_writeFile svc file_fd buf start)) (\<lambda>n.
     ret (Ok (as_usize n))))"

definition RemoteFileEditor_resize :: "'s virt_fd_service \<Rightarrow> int \<Rightarrow> 's resize_fn" where
  "RemoteFileEditor_resize svc file_fd n =
     bind_prog (ret (i64_try_from n)) (\<lambda>m.
     map_err_prog (\<lambda>_. KindError Other) (svc_resize svc file_fd m))"

definition RemoteFileEditor_read_chunk :: "'s virt_fd_service \<Rightarrow> int \<Rightarrow> 's read_chunk_fn" where
  "RemoteFileEditor_read_chunk svc file_fd = remote_read_chunk svc file_fd"

section \<open>Any service\<close>

lemma remote_read_prefix:
  "remote_read_chunk svc fd i buf s = (Ok (n, buf'), s') \<Longrightarrow> length buf = CHUNK_SIZE \<Longrightarrow>
   n \<le> CHUNK_SIZE \<and> (\<exists>d. length d = n \<and> buf' = d @ drop n buf)"
  by (auto simp: remote_read_chunk_def bind_prog_Ok_iff Let_def copy_into_def slice_range_def
      split: if_splits)

lemma remote_merkle_read_prefix:
  "RemoteMerkleTreeReader_read_chunk svc fd i buf s = (Ok (n, buf'), s') \<Longrightarrow> length buf = CHUNK_SIZE \<Longrightarrow>
   n \<le> CHUNK_SIZE \<and> (\<exists>d. length d = n \<and> buf' = d @ drop n buf)"
  by (auto simp: RemoteMerkleTreeReader_read_chunk_def bind_prog_Ok_iff Let_def copy_into_def
      slice_range_def split: if_splits)

interpretation remote: prefix_reader "remote_read_chunk svc fd" for svc fd
  by unfold_locales (rule remote_read_prefix)

interpretation remote_tree: prefix_reader "RemoteMerkleTreeReader_read_chunk svc fd" for svc fd
  by unfold_locales (rule remote_merkle_read_prefix)

section \<open>The service of the repository\<close>

lemma remote_read_ok:
  assumes fine: "served_fine fid s" and i: "CHUNK_SIZE * i < length (served_content fid s)"
    and buf: "length buf = CHUNK_SIZE"
    and d: "d = take CHUNK_SIZE (drop (CHUNK_SIZE * i) (served_content fid s))"
  shows "\<exists>s'. remote_read_chunk (fd_server dbg ioctl) fid i buf s =
                (Ok (length d, d @ drop (length d) buf), s') \<and>
              served_fine fid s' \<and> served_content fid s' = served_content fid s \<and> fd_pool s' = fd_pool s"
proof -
  have start: "i * CHUNK_SIZE \<le> i64_max" "i * CHUNK_SIZE < u64_limit"
    using fine i by (auto simp: served_fine_def served_content_def file_fine_def mult.commute
        i64_max_def u64_limit_def)
  have size: "as_i32 (length buf) = int CHUNK_SIZE" "int CHUNK_SIZE \<le> MAX_REQUESTING_DATA"
    by (simp_all add: buf CHUNK_SIZE_def i32_max_def MAX_REQUESTING_DATA_def)
  have "take (nat (int CHUNK_SIZE)) (drop (nat (int (i * CHUNK_SIZE))) (served_content fid s)) = d"
    by (simp only: d nat_int mult.commute [of i])
  with readFile_fine [OF fine _ size(2), of "int (i * CHUNK_SIZE)"] obtain s' where
    r: "readFile fid (int (i * CHUNK_SIZE)) (int CHUNK_SIZE) s = (Ok d, s')"
    and s': "served_fine fid s'" "served_content fid s' = served_content fid s" "fd_pool s' = fd_pool s"
    by (metis of_nat_0_le_iff)
  have "length d \<le> length buf" by (simp add: d buf)
  then have "remote_read_chunk (fd_server dbg ioctl) fid i buf s =
      (Ok (length d, d @ drop (length d) buf), s')"
    using start r size(1)
    by (simp add: remote_read_chunk_def fd_server_def i64_try_from_def Let_def map_err_prog_simp
        bind_prog_def)
  with s' show ?thesis by blast
qed

interpretation remote_reader: chunk_reader "remote_read_chunk (fd_server dbg ioctl) fid"
  "served_content fid" "served_fine fid" for dbg ioctl fid
proof unfold_locales
  fix s i and buf d :: bytes
  assume "served_fine fid s" "CHUNK_SIZE * i < length (served_content fid s)" "length buf = CHUNK_SIZE"
    "d = take CHUNK_SIZE (drop (CHUNK_SIZE * i) (served_content fid s))"
  then show "\<exists>s'. remote_read_chunk (fd_server dbg ioctl) fid i buf s =
      (Ok (length d, d @ drop (length d) buf), s') \<and> served_fine fid s' \<and>
      served_content fid s' = served_content fid s"
    using remote_read_ok [of fid s i buf d dbg ioctl] by blast
qed

lemma remote_write_ok:
  assumes "served_writable fid s" "buf \<noteq> []" "length buf \<le> i32_max" "off + length buf \<le> i64_max"
  shows "\<exists>k s'. RemoteFileEditor_write_at (fd_server dbg ioctl) fid buf off s = (Ok k, s') \<and>
           0 < k \<and> k \<le> length buf \<and> served_writable fid s' \<and>
           served_content fid s' = pwrite (served_content fid s) off (take k buf)"
proof -
  obtain k s' where w: "writeFile fid buf (int off) s = (Ok (int k), s')" "0 < k" "k \<le> length buf"
    "served_writable fid s'" "served_content fid s' = pwrite (served_content fid s) off (take k buf)"
    using writeFile_fine [OF assms] by blast
  moreover have "k < u64_limit"
    using w(3) assms(4) i64_max_less_u64_limit by linarith
  ultimately show ?thesis
    using assms by (auto simp: RemoteFileEditor_write_at_def fd_server_def i64_try_from_def
        map_err_prog_simp bind_prog_def)
qed

lemma remote_resize_ok:
  assumes "served_writable fid s" "n \<le> i64_max"
  shows "\<exists>s'. RemoteFileEditor_resize (fd_server dbg ioctl) fid n s = (Ok (), s') \<and>
           served_writable fid s' \<and> served_content fid s' = resize_bytes n (served_content fid s)"
  using resize_file_fine [OF assms] assms
  by (auto simp: RemoteFileEditor_resize_def fd_server_def i64_try_from_def map_err_prog_simp)

lemma served_writable_fine: "served_writable fid s \<Longrightarrow> served_fine fid s"
  by (simp add: served_writable_def)

interpretation remote_editor: editable_file "remote_read_chunk (fd_server dbg ioctl) fid"
  "RemoteFileEditor_write_at (fd_server dbg ioctl) fid" "RemoteFileEditor_resize (fd_server dbg ioctl) fid"
  "served_content fid" "served_writable fid" for dbg ioctl fid
proof unfold_locales
  fix s i and buf d :: bytes
  assume a: "served_writable fid s" "CHUNK_SIZE * i < length (served_content fid s)"
    "length buf = CHUNK_SIZE" "d = take CHUNK_SIZE (drop (CHUNK_SIZE * i) (served_content fid s))"
  show "\<exists>s'. remote_read_chunk (fd_server dbg ioctl) fid i buf s =
      (Ok (length d, d @ drop (length d) buf), s') \<and> served_writable fid s' \<and>
      served_content fid s' = served_content fid s"
    using remote_read_ok [OF served_writable_fine [OF a(1)] a(2-4), of dbg ioctl] a(1)
    by (auto simp: served_writable_def)
qed (rule remote_write_ok, assumption+, rule remote_resize_ok, assumption+)

text \<open>A read-only file served with its Merkle tree.\<close>

lemma remote_chunk_args:
  assumes "CHUNK_SIZE * i < n" and "n \<le> i64_max" and "length buf = CHUNK_SIZE"
  shows "i * CHUNK_SIZE \<le> i64_max" "i * CHUNK_SIZE < u64_limit"
    "as_i32 (length buf) = int CHUNK_SIZE" "0 \<le> int CHUNK_SIZE" "int CHUNK_SIZE \<le> MAX_REQUESTING_DATA"
  using assms i64_max_less_u64_limit
  by (auto simp: CHUNK_SIZE_def i32_max_def MAX_REQUESTING_DATA_def mult.commute)

lemma served_with_tree_lengths:
  "served_with_tree fid s \<Longrightarrow>
   length (served_content fid s) \<le> i64_max \<and> length (served_tree fid s) \<le> i64_max"
  by (auto simp: served_with_tree_def served_content_def served_tree_def config_file_def file_fine_def)

lemma remote_verity_read_ok:
  assumes fine: "served_with_tree fid s" and i: "CHUNK_SIZE * i < length (served_content fid s)"
    and buf: "length buf = CHUNK_SIZE"
    and d: "d = take CHUNK_SIZE (drop (CHUNK_SIZE * i) (served_content fid s))"
  shows "\<exists>s'. remote_read_chunk (fd_server dbg ioctl) fid i buf s =
                (Ok (length d, d @ drop (length d) buf), s') \<and>
              served_with_tree fid s' \<and> served_content fid s' = served_content fid s"
proof -
  note args = remote_chunk_args [OF i conjunct1 [OF served_with_tree_lengths [OF fine]] buf]
  have "take (nat (int CHUNK_SIZE)) (drop (nat (int (i * CHUNK_SIZE))) (served_content fid s)) = d"
    by (simp only: d nat_int mult.commute [of i])
  with readFile_fine_with_tree [OF fine args(4,5), of "int (i * CHUNK_SIZE)"] obtain s' where
    r: "readFile fid (int (i * CHUNK_SIZE)) (int CHUNK_SIZE) s = (Ok d, s')" "served_with_tree fid s'"
    by (metis of_nat_0_le_iff)
  have "served_content fid s' = served_content fid s"
    using only_changes_served [OF readFile_only_changes] r(1) by (metis snd_conv)
  moreover have "length d \<le> length buf" by (simp add: d buf)
  then have "remote_read_chunk (fd_server dbg ioctl) fid i buf s =
      (Ok (length d, d @ drop (length d) buf), s')"
    using args r by (simp add: remote_read_chunk_def fd_server_def i64_try_from_def Let_def
        map_err_prog_simp bind_prog_def)
  ultimately show ?thesis using r(2) by blast
qed

lemma remote_tree_read_ok:
  assumes fine: "served_with_tree fid s" and i: "CHUNK_SIZE * i < length (served_tree fid s)"
    and buf: "length buf = CHUNK_SIZE"
    and d: "d = take CHUNK_SIZE (drop (CHUNK_SIZE * i) (served_tree fid s))"
  shows "\<exists>s'. RemoteMerkleTreeReader_read_chunk (fd_server dbg ioctl) fid i buf s =
                (Ok (length d, d @ drop (length d) buf), s') \<and>
              served_with_tree fid s' \<and> served_tree fid s' = served_tree fid s"
proof -
  note args = remote_chunk_args [OF i conjunct2 [OF served_with_tree_lengths [OF fine]] buf]
  have "take (nat (int CHUNK_SIZE)) (drop (nat (int (i * CHUNK_SIZE))) (served_tree fid s)) = d"
    by (simp only: d nat_int mult.commute [of i])
  with readFsverityMerkleTree_fine [OF fine args(4,5), of "int (i * CHUNK_SIZE)"] obtain s' where
    r: "readFsverityMerkleTree dbg ioctl fid (int (i * CHUNK_SIZE)) (int CHUNK_SIZE) s = (Ok d, s')"
      "served_with_tree fid s'"
    by (metis of_nat_0_le_iff)
  have "served_tree fid s' = served_tree fid s"
    using only_changes_served [OF readFsverityMerkleTree_only_changes] r(1) by (metis snd_conv)
  moreover have "length d \<le> length buf" by (simp add: d buf)
  then have "RemoteMerkleTreeReader_read_chunk (fd_server dbg ioctl) fid i buf s =
      (Ok (length d, d @ drop (length d) buf), s')"
    using args r by (simp add: RemoteMerkleTreeReader_read_chunk_def fd_server_def i64_try_from_def Let_def
        map_err_prog_simp bind_prog_def)
  ultimately show ?thesis using r(2) by blast
qed

text \<open>Neither reader changes a file.\<close>

lemma remote_read_only_changes: "only_changes {} s (snd (remote_read_chunk (fd_server dbg ioctl) fid i buf s))"
  unfolding remote_read_chunk_def fd_server_def
  by (auto simp: serve_state_simps Let_def split: outcome.splits
      intro!: bind_prog_state [where P = "only_changes {} s"] readFile_only_changes)

lemma remote_tree_read_only_changes:
  "only_changes {} s (snd (RemoteMerkleTreeReader_read_chunk (fd_server dbg ioctl) fid i buf s))"
  unfolding RemoteMerkleTreeReader_read_chunk_def fd_server_def
  by (auto simp: serve_state_simps Let_def split: outcome.splits
      intro!: bind_prog_state [where P = "only_changes {} s"] readFsverityMerkleTree_only_changes)

interpretation remote_verity: verity_files "remote_read_chunk (fd_server dbg ioctl) fid" "served_content fid"
  "served_with_tree fid" "RemoteMerkleTreeReader_read_chunk (fd_server dbg ioctl) fid" "served_tree fid"
  for dbg ioctl fid
proof unfold_locales
  fix s s' i r and buf :: bytes
  show "remote_read_chunk (fd_server dbg ioctl) fid i buf s = (r, s') \<Longrightarrow> served_tree fid s' = served_tree fid s"
    using only_changes_served [OF remote_read_only_changes] by (metis snd_conv)
  show "RemoteMerkleTreeReader_read_chunk (fd_server dbg ioctl) fid i buf s = (r, s') \<Longrightarrow>
      served_content fid s' = served_content fid s"
    using only_changes_served [OF remote_tree_read_only_changes] by (metis snd_conv)
qed (rule remote_verity_read_ok remote_tree_read_ok; assumption)+

end
