(* ===== verification/AuthFs.thy ===== *)
theory AuthFs
  imports LocalFile RemoteFile
begin

unbundle bit_operations_syntax

text \<open>
  \<^verbatim>\<open>authfs/src/fusefs.rs\<close>: the FUSE file system. Its state is the pool of file
  configurations, the state of the remote service all remote files share, and the local
  files (named by path, debug only). A file that is being written carries its Merkle leaves in
  its configuration.

  The remote service is an arbitrary \<open>virt_fd_service\<close>. The writer and the reader a FUSE
  request comes with belong to the \<open>fuse\<close> crate: a writer is a function over a state of its
  own (locale \<open>byte_sink\<close> of \<open>OsFile\<close> has what \<open>io::Write\<close> promises; the byte vector of the standard
  library is the instance), a reader gives the requested number of bytes or an error.

  The lemmas: \<open>read_chunks\<close> returns exactly the requested part of the file for every reader
  that returns genuine pages, and every request leaves read-only files and the set of inodes
  alone.
\<close>

section \<open>Reading by chunks\<close>

definition offset_to_chunk_index :: "nat \<Rightarrow> nat" where
  "offset_to_chunk_index off = off div CHUNK_SIZE"

definition on_fst :: "('s, 'a, 'e) prog \<Rightarrow> ('s \<times> 'w, 'a, 'e) prog" where
  "on_fst p sw = (case sw of (s, w) \<Rightarrow> (case p s of (r, s') \<Rightarrow> (r, (s', w))))"

definition on_snd :: "('w, 'a, 'e) prog \<Rightarrow> ('s \<times> 'w, 'a, 'e) prog" where
  "on_snd p sw = (case sw of (s, w) \<Rightarrow> (case p w of (r, w') \<Rightarrow> (r, (s, w'))))"

definition read_piece ::
  "'w write_fn \<Rightarrow> 's read_chunk_fn \<Rightarrow> nat \<Rightarrow> nat \<times> nat \<Rightarrow> ('s \<times> 'w, nat, io_error) prog" where
  "read_piece wr rd tot piece =
     (case piece of (current_offset, planned_data_size) \<Rightarrow>
      bind_prog (on_fst (rd (offset_to_chunk_index current_offset) (zeros CHUNK_SIZE))) (\<lambda>(read_size, buf).
      if read_size < planned_data_size then ret (Err (OsError ENODATA))
      else
        let begin_in_chunk = current_offset mod CHUNK_SIZE in
        bind_prog (ret (u64_add begin_in_chunk planned_data_size)) (\<lambda>end_in_chunk.
        bind_prog (ret (slice_range buf begin_in_chunk end_in_chunk)) (\<lambda>d.
        bind_prog (on_snd (wr d)) (\<lambda>s.
        if s \<noteq> planned_data_size then ret (Err (OsError EIO))
        else ret (u64_add tot s))))))"

definition read_chunks ::
  "'w write_fn \<Rightarrow> 's read_chunk_fn \<Rightarrow> nat \<Rightarrow> nat \<Rightarrow> nat \<Rightarrow> ('s \<times> 'w, nat, io_error) prog" where
  "read_chunks wr rd file_size off n =
     (let remaining_size = saturating_sub file_size off; size_to_read = min n remaining_size
      in chunked_try_fold (read_piece wr rd) 0 (ChunkedSizeIter_new size_to_read off CHUNK_SIZE))"

text \<open>The reader returns genuine pages into zeroed buffers.\<close>

definition genuine_reader :: "'s read_chunk_fn \<Rightarrow> bytes \<Rightarrow> bool" where
  "genuine_reader rd c \<longleftrightarrow>
     (\<forall>i s n b s'. i < num_chunks c \<longrightarrow> rd i (zeros CHUNK_SIZE) s = (Ok (n, b), s') \<longrightarrow> b = page c i)"

lemma on_fst_Ok_iff: "on_fst p (s, w) = (Ok a, (s', w')) \<longleftrightarrow> p s = (Ok a, s') \<and> w' = w"
  by (auto simp: on_fst_def split: prod.splits)

lemma on_snd_Ok_iff: "on_snd p (s, w) = (Ok a, (s', w')) \<longleftrightarrow> p w = (Ok a, w') \<and> s' = s"
  by (auto simp: on_snd_def split: prod.splits)

lemma slice_of_page:
  assumes "o1 mod CHUNK_SIZE + k \<le> CHUNK_SIZE" and "o1 + k \<le> length c"
  shows "take k (drop (o1 mod CHUNK_SIZE) (page c (o1 div CHUNK_SIZE))) = take k (drop o1 c)"
proof -
  have "CHUNK_SIZE * (o1 div CHUNK_SIZE) + o1 mod CHUNK_SIZE = o1" by simp
  then show ?thesis
    using slice_page [of "o1 mod CHUNK_SIZE" k "o1 div CHUNK_SIZE" c] assms by simp
qed

lemma chunk_index_in_range:
  "0 < k \<Longrightarrow> o1 + k \<le> length c \<Longrightarrow> o1 div CHUNK_SIZE < num_chunks c"
  unfolding num_chunks_def less_ceil_div_iff [OF CHUNK_SIZE_pos]
  using times_div_less_eq_dividend [of CHUNK_SIZE o1] by linarith

context byte_sink
begin

lemma read_piece_sound:
  assumes gen: "genuine_reader rd c" and k: "0 < k" "o1 + k \<le> length c" "o1 mod CHUNK_SIZE + k \<le> CHUNK_SIZE"
    and res: "read_piece wr rd tot (o1, k) (s, w) = (Ok tot', (s', w'))"
  shows "tot' = tot + k \<and> view w' = view w @ take k (drop o1 c)"
proof -
  from res obtain n b w1 m where
    r: "rd (o1 div CHUNK_SIZE) (zeros CHUNK_SIZE) s = (Ok (n, b), s')"
    and w: "wr (take k (drop (o1 mod CHUNK_SIZE) b)) w = (Ok k, w')"
    and t: "tot' = tot + k"
    by (auto simp: read_piece_def offset_to_chunk_index_def bind_prog_Ok_iff on_fst_Ok_iff on_snd_Ok_iff
        Let_def slice_range_def u64_add_def split: if_splits)
  have "b = page c (o1 div CHUNK_SIZE)"
    using gen r chunk_index_in_range [OF k(1,2)] unfolding genuine_reader_def by blast
  with slice_of_page [OF k(3,2)] w have "wr (take k (drop o1 c)) w = (Ok k, w')" by simp
  from write_prefix [OF this] t show ?thesis by simp
qed

lemma read_pieces_sound:
  assumes gen: "genuine_reader rd c"
  shows "off + n \<le> length c \<Longrightarrow>
    fold_prog (read_piece wr rd) tot (chunk_plan CHUNK_SIZE n off) (s, w) = (Ok tot', (s', w')) \<Longrightarrow>
    tot' = tot + n \<and> view w' = view w @ take n (drop off c)"
proof (induction n arbitrary: off tot s w rule: less_induct)
  case (less n)
  show ?case
  proof (cases "n = 0")
    case True
    with less.prems show ?thesis by simp
  next
    case False
    define k where "k = min n (CHUNK_SIZE - off mod CHUNK_SIZE)"
    have k: "0 < k" "k \<le> n" "off mod CHUNK_SIZE + k \<le> CHUNK_SIZE"
      using False by (auto simp: k_def min_def less_imp_le)
    have "chunk_plan CHUNK_SIZE n off = (off, k) # chunk_plan CHUNK_SIZE (n - k) (off + k)"
      using chunk_plan_Cons [OF CHUNK_SIZE_pos _ k_def] False by simp
    with less.prems(2) obtain t1 s1 w1 where
      p: "read_piece wr rd tot (off, k) (s, w) = (Ok t1, (s1, w1))" and
      q: "fold_prog (read_piece wr rd) t1 (chunk_plan CHUNK_SIZE (n - k) (off + k)) (s1, w1) = (Ok tot', (s', w'))"
      by (auto simp: bind_prog_Ok_iff)
    have "t1 = tot + k" "view w1 = view w @ take k (drop off c)"
      using read_piece_sound [OF gen k(1) _ k(3) p] less.prems(1) k(2) by auto
    moreover have "tot' = t1 + (n - k)" "view w' = view w1 @ take (n - k) (drop (off + k) c)"
      using less.IH [OF _ _ q] k less.prems(1) by auto
    moreover have "take k (drop off c) @ take (n - k) (drop (off + k) c) = take n (drop off c)"
      using take_add [of k "n - k" "drop off c"] k(2) by (simp add: add.commute)
    ultimately show ?thesis using k(2) by simp
  qed
qed

text \<open>A completed read has delivered exactly the part of the file that was asked for.\<close>

lemma read_chunks_sound:
  assumes gen: "genuine_reader rd c" and lim: "length c < u64_limit" "off < u64_limit"
    and res: "read_chunks wr rd (length c) off n (s, w) = (Ok tot, (s', w'))"
  shows "tot = min n (length c - off) \<and> view w' = view w @ take n (drop off c)"
proof -
  let ?n = "min n (length c - off)"
  have "off + ?n < u64_limit" using lim by auto
  then have f: "fold_prog (read_piece wr rd) 0 (chunk_plan CHUNK_SIZE ?n off) (s, w) = (Ok tot, (s', w'))"
    using res by (simp add: read_chunks_def saturating_sub_def chunked_try_fold_plan [OF CHUNK_SIZE_pos])
  have "take ?n (drop off c) = take n (drop off c)" by (simp add: min_def)
  moreover have "tot = ?n \<and> view w' = view w @ take ?n (drop off c)"
  proof (cases "off \<le> length c")
    case True
    then show ?thesis using read_pieces_sound [OF gen _ f] by simp
  next
    case False
    with f show ?thesis by simp
  qed
  ultimately show ?thesis by simp
qed

end

text \<open>A reader that returns every chunk of the file lets the read succeed.\<close>

definition complete_reader :: "'s read_chunk_fn \<Rightarrow> ('s \<Rightarrow> bool) \<Rightarrow> bytes \<Rightarrow> bool" where
  "complete_reader rd good c \<longleftrightarrow>
     (\<forall>i s. i < num_chunks c \<longrightarrow> good s \<longrightarrow>
        (\<exists>s'. rd i (zeros CHUNK_SIZE) s = (Ok (min CHUNK_SIZE (length c - CHUNK_SIZE * i), page c i), s') \<and> good s'))"

lemma read_piece_complete:
  assumes rd: "complete_reader rd good c" and s: "good s" and lim: "length c < u64_limit"
    and k: "0 < k" "o1 + k \<le> length c" "o1 mod CHUNK_SIZE + k \<le> CHUNK_SIZE" and tot: "tot + k < u64_limit"
  shows "\<exists>s'. read_piece vec_write rd tot (o1, k) (s, v) = (Ok (tot + k), (s', v @ take k (drop o1 c))) \<and> good s'"
proof -
  let ?i = "o1 div CHUNK_SIZE" and ?b = "o1 mod CHUNK_SIZE"
  have "?i < num_chunks c" by (rule chunk_index_in_range [OF k(1,2)])
  then obtain s' where r: "rd ?i (zeros CHUNK_SIZE) s =
      (Ok (min CHUNK_SIZE (length c - CHUNK_SIZE * ?i), page c ?i), s')" "good s'"
    using rd s by (auto simp: complete_reader_def)
  have "CHUNK_SIZE * ?i + ?b = o1" by simp
  then have enough: "\<not> min CHUNK_SIZE (length c - CHUNK_SIZE * ?i) < k"
    using k by linarith
  have "?b + k < u64_limit"
    using k(3) by (simp add: u64_limit_def CHUNK_SIZE_def)
  with r enough k tot slice_of_page [OF k(3,2)] show ?thesis
    by (auto simp: read_piece_def on_fst_def on_snd_def offset_to_chunk_index_def vec_write_def bind_prog_def Let_def)
qed

lemma read_pieces_complete:
  assumes rd: "complete_reader rd good c" and lim: "length c < u64_limit"
  shows "good s \<Longrightarrow> off + n \<le> length c \<Longrightarrow> tot + n < u64_limit \<Longrightarrow>
    \<exists>s'. fold_prog (read_piece vec_write rd) tot (chunk_plan CHUNK_SIZE n off) (s, v) =
         (Ok (tot + n), (s', v @ take n (drop off c))) \<and> good s'"
proof (induction n arbitrary: off tot s v rule: less_induct)
  case (less n)
  show ?case
  proof (cases "n = 0")
    case True
    with less.prems show ?thesis by simp
  next
    case False
    define k where "k = min n (CHUNK_SIZE - off mod CHUNK_SIZE)"
    have "off mod CHUNK_SIZE < CHUNK_SIZE" by simp
    then have k: "0 < k" "k \<le> n" "off mod CHUNK_SIZE + k \<le> CHUNK_SIZE"
      using False unfolding k_def by linarith+
    have plan: "chunk_plan CHUNK_SIZE n off = (off, k) # chunk_plan CHUNK_SIZE (n - k) (off + k)"
      using chunk_plan_Cons [OF CHUNK_SIZE_pos _ k_def] False by simp
    obtain s1 where one: "read_piece vec_write rd tot (off, k) (s, v) = (Ok (tot + k), (s1, v @ take k (drop off c)))"
      "good s1"
      using read_piece_complete [OF rd less.prems(1) lim k(1) _ k(3), of tot v] less.prems k(2) by auto
    have "n - k < n" "(off + k) + (n - k) \<le> length c" "(tot + k) + (n - k) < u64_limit"
      using k less.prems by auto
    from less.IH [OF this(1) one(2) this(2,3), of "v @ take k (drop off c)"] obtain s2 where
      two: "fold_prog (read_piece vec_write rd) (tot + k) (chunk_plan CHUNK_SIZE (n - k) (off + k))
        (s1, v @ take k (drop off c)) = (Ok (tot + n), (s2, v @ take k (drop off c) @ take (n - k) (drop (off + k) c)))"
      "good s2"
      using k(2) by auto
    have "take k (drop off c) @ take (n - k) (drop (off + k) c) = take n (drop off c)"
      using take_add [of k "n - k" "drop off c"] k(2) by (simp add: add.commute)
    with one two plan show ?thesis by auto
  qed
qed

lemma read_chunks_complete:
  assumes rd: "complete_reader rd good c" and lim: "length c < u64_limit" "off < u64_limit" and s: "good s"
  shows "\<exists>s'. read_chunks vec_write rd (length c) off n (s, v) =
      (Ok (min n (length c - off)), (s', v @ take n (drop off c))) \<and> good s'"
proof -
  let ?n = "min n (length c - off)"
  have take_n: "take ?n (drop off c) = take n (drop off c)" by (simp add: min_def)
  have run: "read_chunks vec_write rd (length c) off n (s, v) =
      fold_prog (read_piece vec_write rd) 0 (chunk_plan CHUNK_SIZE ?n off) (s, v)"
    unfolding read_chunks_def Let_def saturating_sub_def
    by (rule chunked_try_fold_plan) (use lim in auto)
  show ?thesis
  proof (cases "off \<le> length c")
    case True
    then show ?thesis
      using read_pieces_complete [OF rd lim(1) s, of off ?n 0 v] lim(1) run take_n by auto
  next
    case False
    with run s show ?thesis by auto
  qed
qed

context chunk_reader
begin

lemma complete_content: "complete_reader read_chunk (\<lambda>s. good s \<and> content s = c) c"
  unfolding complete_reader_def
proof (intro allI impI, elim conjE)
  fix i s
  assume i: "i < num_chunks c" and s: "good s" "content s = c"
  let ?d = "take CHUNK_SIZE (drop (CHUNK_SIZE * i) c)"
  have "CHUNK_SIZE * i < length (content s)"
    using i s(2) by (simp add: num_chunks_def less_ceil_div_iff)
  moreover have "?d @ drop (length ?d) (zeros CHUNK_SIZE) = page c i" by (rule chunk_is_page) (rule refl)
  moreover have "length ?d = min CHUNK_SIZE (length c - CHUNK_SIZE * i)" by simp
  ultimately show "\<exists>s'. read_chunk i (zeros CHUNK_SIZE) s =
      (Ok (min CHUNK_SIZE (length c - CHUNK_SIZE * i), page c i), s') \<and> good s' \<and> content s' = c"
    using read_ok [OF s(1) _ length_zeros refl, of i] s(2) by auto
qed

end

section \<open>The file system\<close>

datatype FileConfig =
    LocalVerifiedReadonlyFile VerifiedFileReader LocalFileReader string LocalFileReader string nat
  | LocalUnverifiedReadonlyFile LocalFileReader string nat
  | RemoteVerifiedReadonlyFile VerifiedFileReader int nat
  | RemoteUnverifiedReadonlyFile int nat
  | RemoteVerifiedNewFile int MerkleLeaves

text \<open>The verified local file has a reader for the data and one for the tree, each with the path
  of its file; a remote file has its identifier; the last number is the file size.\<close>

record 's AuthFs =
  file_pool :: "nat \<rightharpoonup> FileConfig"
  max_write :: u32
  remote :: 's
  local_files :: "string \<rightharpoonup> File"

type_synonym ('s, 'a) fs_prog = "('s AuthFs, 'a, io_error) prog"

definition AuthFs_new ::
  "(nat \<rightharpoonup> FileConfig) \<Rightarrow> u32 \<Rightarrow> 's \<Rightarrow> (string \<rightharpoonup> File) \<Rightarrow> 's AuthFs" where
  "AuthFs_new pool mw s lf = \<lparr>file_pool = pool, max_write = mw, remote = s, local_files = lf\<rparr>"

definition fs_get_file_config :: "nat \<Rightarrow> ('s, FileConfig) fs_prog" where
  "fs_get_file_config inode st = (ok_or (OsError ENOENT) (file_pool st inode), st)"

definition O_ACCMODE :: u32 where "O_ACCMODE = 3"
definition O_RDONLY :: u32 where "O_RDONLY = 0"

definition check_access_mode :: "u32 \<Rightarrow> u32 \<Rightarrow> (unit, io_error) outcome" where
  "check_access_mode flags mode =
     (if flags AND O_ACCMODE = mode then Ok () else Err (OsError EACCES))"

datatype FileMode = FileReadOnly | FileReadWrite

definition create_stat :: "nat \<Rightarrow> nat \<Rightarrow> FileMode \<Rightarrow> (stat64, io_error) outcome" where
  "create_stat ino file_size file_mode =
     and_then (if file_size \<le> i64_max then Ok (int file_size) else Err (OsError EFBIG)) (\<lambda>sz.
     and_then (divide_roundup file_size 512) (\<lambda>blocks.
     and_then (if blocks \<le> i64_max then Ok blocks else Err (OsError EFBIG)) (\<lambda>blocks'.
     Ok \<lparr>st_ino = ino,
         st_mode = (case file_mode of FileReadOnly \<Rightarrow> S_IFREG OR S_IRUSR
                    | FileReadWrite \<Rightarrow> S_IFREG OR S_IRUSR OR S_IWUSR),
         st_nlink = 1, st_size = sz, st_blksize = CHUNK_SIZE, st_blocks = blocks'\<rparr>)))"

definition stat_of_config :: "nat \<Rightarrow> FileConfig \<Rightarrow> (stat64, io_error) outcome" where
  "stat_of_config inode config =
     (case config of
        LocalVerifiedReadonlyFile _ _ _ _ _ file_size \<Rightarrow> create_stat inode file_size FileReadOnly
      | LocalUnverifiedReadonlyFile _ _ file_size \<Rightarrow> create_stat inode file_size FileReadOnly
      | RemoteUnverifiedReadonlyFile _ file_size \<Rightarrow> create_stat inode file_size FileReadOnly
      | RemoteVerifiedReadonlyFile _ _ file_size \<Rightarrow> create_stat inode file_size FileReadOnly
      | RemoteVerifiedNewFile _ tree \<Rightarrow> create_stat inode (MerkleLeaves_file_size tree) FileReadWrite)"

text \<open>A file name; \<open>None\<close> stands for one that is not UTF-8.\<close>

definition fs_lookup :: "string option \<Rightarrow> ('s, nat \<times> stat64) fs_prog" where
  "fs_lookup name =
     bind_prog (ret (ok_or (OsError EINVAL) name)) (\<lambda>num.
     bind_prog (ret (ok_or (OsError ENOENT) (parse_u64 num))) (\<lambda>inode.
     bind_prog (fs_get_file_config inode) (\<lambda>config.
     bind_prog (ret (stat_of_config inode config)) (\<lambda>st.
     ret (Ok (inode, st))))))"

definition fs_getattr :: "nat \<Rightarrow> ('s, stat64) fs_prog" where
  "fs_getattr inode =
     bind_prog (fs_get_file_config inode) (\<lambda>config. ret (stat_of_config inode config))"

datatype OpenOptions = KEEP_CACHE | OPEN_EMPTY

definition fs_open :: "nat \<Rightarrow> u32 \<Rightarrow> ('s, nat option \<times> OpenOptions) fs_prog" where
  "fs_open inode flags =
     bind_prog (fs_get_file_config inode) (\<lambda>config.
     bind_prog (ret (case config of
         RemoteVerifiedNewFile _ _ \<Rightarrow> Ok ()
       | _ \<Rightarrow> check_access_mode flags O_RDONLY)) (\<lambda>_.
     ret (Ok (None, KEEP_CACHE))))"

text \<open>Reading through the remote service, a local file, or the editor of the inode.\<close>

definition on_remote :: "('s \<times> 'w, 'a, io_error) prog \<Rightarrow> ('s AuthFs \<times> 'w, 'a, io_error) prog" where
  "on_remote p stw = (case stw of (st, w) \<Rightarrow>
     (case p (remote st, w) of (r, (s', w')) \<Rightarrow> (r, (st\<lparr>remote := s'\<rparr>, w'))))"

definition local_read :: "string \<Rightarrow> File read_chunk_fn \<Rightarrow> 's AuthFs read_chunk_fn" where
  "local_read path rd i buf st =
     (case local_files st path of
        None \<Rightarrow> (Err (OsError EBADF), st)
      | Some f \<Rightarrow> (case rd i buf f of (r, f') \<Rightarrow> (r, st\<lparr>local_files := (local_files st)(path \<mapsto> f')\<rparr>)))"

definition fs_read ::
  "bool \<Rightarrow> 's virt_fd_service \<Rightarrow> 'c sha256_ffi \<Rightarrow> 'w write_fn \<Rightarrow> nat \<Rightarrow> nat \<Rightarrow> nat \<Rightarrow>
   ('s AuthFs \<times> 'w, nat, io_error) prog" where
  "fs_read dbg svc ffi wr inode n off =
     bind_prog (on_fst (fs_get_file_config inode)) (\<lambda>config.
     case config of
       LocalVerifiedReadonlyFile reader fl path trd tree_path file_size \<Rightarrow>
         read_chunks wr (verified_read_chunk dbg (local_read path (local_read_chunk dbg fl))
           (local_read tree_path (local_read_chunk dbg trd)) ffi reader) file_size off n
     | LocalUnverifiedReadonlyFile fl path file_size \<Rightarrow>
         read_chunks wr (local_read path (local_read_chunk dbg fl)) file_size off n
     | RemoteVerifiedReadonlyFile reader fd file_size \<Rightarrow>
         on_remote (read_chunks wr (verified_read_chunk dbg (RemoteFileReader_read_chunk svc fd)
           (RemoteMerkleTreeReader_read_chunk svc fd) ffi reader) file_size off n)
     | RemoteUnverifiedReadonlyFile fd file_size \<Rightarrow>
         on_remote (read_chunks wr (RemoteFileReader_read_chunk svc fd) file_size off n)
     | RemoteVerifiedNewFile fd tree \<Rightarrow>
         on_remote (read_chunks wr (RemoteFileEditor_read_chunk svc fd) (MerkleLeaves_file_size tree) off n))"

text \<open>An operation of the editor of an inode updates the leaves in the pool.\<close>

definition with_editor ::
  "nat \<Rightarrow> int \<Rightarrow> MerkleLeaves \<Rightarrow> ('s VerifiedFileEditor, 'a, io_error) prog \<Rightarrow> ('s, 'a) fs_prog" where
  "with_editor inode fd tree p st =
     (case p \<lparr>merkle_tree = tree, backing = remote st\<rparr> of (r, e) \<Rightarrow>
        (r, st\<lparr>remote := backing e,
              file_pool := (file_pool st)(inode \<mapsto> RemoteVerifiedNewFile fd (merkle_tree e))\<rparr>))"

definition fs_write ::
  "'s virt_fd_service \<Rightarrow> 'c sha256_ffi \<Rightarrow> nat \<Rightarrow> nat \<Rightarrow> (nat \<Rightarrow> (bytes, io_error) outcome) \<Rightarrow> nat \<Rightarrow> nat \<Rightarrow>
   ('s, nat) fs_prog" where
  "fs_write svc ffi fuel inode read_exact n off =
     bind_prog (fs_get_file_config inode) (\<lambda>config.
     case config of
       RemoteVerifiedNewFile fd tree \<Rightarrow>
         bind_prog (ret (read_exact n)) (\<lambda>buf.
         with_editor inode fd tree
           (editor_write_at (RemoteFileEditor_read_chunk svc fd) (RemoteFileEditor_write_at svc fd)
             ffi fuel buf off))
     | _ \<Rightarrow> ret (Err (OsError EBADF)))"

record SetattrValid =
  SIZE :: bool
  MODE :: bool
  UID :: bool
  GID :: bool

definition fs_setattr ::
  "bool \<Rightarrow> 's virt_fd_service \<Rightarrow> 'c sha256_ffi \<Rightarrow> nat \<Rightarrow> int \<Rightarrow> SetattrValid \<Rightarrow> ('s, stat64) fs_prog" where
  "fs_setattr dbg svc ffi inode attr_size valid =
     bind_prog (fs_get_file_config inode) (\<lambda>config.
     case config of
       RemoteVerifiedNewFile fd tree \<Rightarrow>
         bind_prog (ret (create_stat inode (MerkleLeaves_file_size tree) FileReadWrite)) (\<lambda>new_attr.
         bind_prog
           (if SIZE valid then
              bind_prog (ret (debug_assert dbg (0 \<le> attr_size))) (\<lambda>_.
              bind_prog (with_editor inode fd tree
                (editor_resize dbg (RemoteFileEditor_read_chunk svc fd) (RemoteFileEditor_resize svc fd) ffi
                  (as_usize attr_size))) (\<lambda>_.
              ret (Ok (new_attr\<lparr>st_size := attr_size\<rparr>))))
            else ret (Ok new_attr)) (\<lambda>new_attr'.
         if MODE valid then ret (Err (OsError ENOSYS))
         else if UID valid then ret (Err (OsError ENOSYS))
         else if GID valid then ret (Err (OsError ENOSYS))
         else ret (Ok new_attr')))
     | _ \<Rightarrow> ret (Err (OsError EBADF)))"

section \<open>Requests\<close>

datatype fs_request =
    FsLookup "string option"
  | FsGetattr nat
  | FsOpen nat u32
  | FsRead nat nat nat
  | FsWrite nat bytes nat
  | FsSetattr nat int SetattrValid

text \<open>The state after a request; what is read goes to a byte vector, and a write request
  carries its bytes.\<close>

fun fs_handle ::
  "bool \<Rightarrow> 's virt_fd_service \<Rightarrow> 'c sha256_ffi \<Rightarrow> nat \<Rightarrow> fs_request \<Rightarrow> 's AuthFs \<Rightarrow> 's AuthFs" where
  "fs_handle dbg svc ffi fuel (FsLookup name) st = snd (fs_lookup name st)"
| "fs_handle dbg svc ffi fuel (FsGetattr inode) st = snd (fs_getattr inode st)"
| "fs_handle dbg svc ffi fuel (FsOpen inode flags) st = snd (fs_open inode flags st)"
| "fs_handle dbg svc ffi fuel (FsRead inode n off) st =
     fst (snd (fs_read dbg svc ffi vec_write inode n off (st, [])))"
| "fs_handle dbg svc ffi fuel (FsWrite inode buf off) st =
     snd (fs_write svc ffi fuel inode (\<lambda>_. Ok buf) (length buf) off st)"
| "fs_handle dbg svc ffi fuel (FsSetattr inode sz valid) st =
     snd (fs_setattr dbg svc ffi inode sz valid st)"

definition fs_handle_all ::
  "bool \<Rightarrow> 's virt_fd_service \<Rightarrow> 'c sha256_ffi \<Rightarrow> nat \<Rightarrow> fs_request list \<Rightarrow> 's AuthFs \<Rightarrow> 's AuthFs" where
  "fs_handle_all dbg svc ffi fuel reqs st = fold (fs_handle dbg svc ffi fuel) reqs st"

text \<open>Inodes are static; only the leaves of a file that is being written change.\<close>

fun same_config :: "FileConfig option \<Rightarrow> FileConfig option \<Rightarrow> bool" where
  "same_config (Some (RemoteVerifiedNewFile fd t)) y = (\<exists>t'. y = Some (RemoteVerifiedNewFile fd t'))"
| "same_config x y = (y = x)"

definition same_pool :: "(nat \<rightharpoonup> FileConfig) \<Rightarrow> (nat \<rightharpoonup> FileConfig) \<Rightarrow> bool" where
  "same_pool p q \<longleftrightarrow> (\<forall>i. same_config (p i) (q i))"

lemma same_config_refl [simp]: "same_config x x"
  by (cases "(x, x)" rule: same_config.cases) auto

lemma same_config_trans: "same_config x y \<Longrightarrow> same_config y z \<Longrightarrow> same_config x z"
  by (cases "(x, y)" rule: same_config.cases) auto

lemma same_pool_refl [simp]: "same_pool p p"
  by (simp add: same_pool_def)

lemma same_pool_trans: "same_pool p q \<Longrightarrow> same_pool q r \<Longrightarrow> same_pool p r"
  using same_config_trans by (fastforce simp: same_pool_def)

lemma snd_bind_fs_get_file_config:
  "snd (bind_prog (fs_get_file_config inode) k st) =
     (case file_pool st inode of None \<Rightarrow> st | Some config \<Rightarrow> snd (k config st))"
  by (simp add: bind_prog_def fs_get_file_config_def split: option.splits)

lemma snd_bind_ret_prog: "snd (bind_prog (ret r) k s) = (case r of Ok a \<Rightarrow> snd (k a s) | _ \<Rightarrow> s)"
  by (cases r) (simp_all add: bind_prog_def)

lemma with_editor_same_pool:
  "pool inode = Some (RemoteVerifiedNewFile fd tree) \<Longrightarrow> same_pool pool (file_pool st) \<Longrightarrow>
   same_pool pool (file_pool (snd (with_editor inode fd tree' p st)))"
  by (auto simp: with_editor_def same_pool_def split: prod.splits)

text \<open>Reading never touches the pool.\<close>

lemma read_chunks_state:
  assumes rd: "\<And>i buf t. P t \<Longrightarrow> P (snd (rd i buf t))" and s: "P s"
  shows "P (fst (snd (read_chunks wr rd n off k (s, w))))"
proof -
  have fst_step: "P (fst t) \<Longrightarrow> P (fst (snd (on_fst (rd i buf) t)))" for i buf and t :: "'a \<times> 'b"
    using rd by (cases t) (auto simp: on_fst_def split: prod.splits dest: rd [of _ i buf])
  have snd_step: "P (fst t) \<Longrightarrow> P (fst (snd (on_snd (wr d) t)))" for d and t :: "'a \<times> 'b"
    by (cases t) (auto simp: on_snd_def split: prod.splits)
  have piece: "P (fst t) \<Longrightarrow> P (fst (snd (read_piece wr rd acc x t)))" for acc x and t :: "'a \<times> 'b"
    unfolding read_piece_def
    by (cases x) (auto simp: Let_def intro!: bind_prog_state [where P = "\<lambda>t. P (fst t)"] fst_step snd_step)
  show ?thesis
    unfolding read_chunks_def Let_def
    by (rule chunked_try_fold_state [where P = "\<lambda>t. P (fst t)"]) (simp_all add: piece s)
qed

lemma local_read_pool: "file_pool (snd (local_read path rd i buf st)) = file_pool st"
  by (simp add: local_read_def split: option.splits prod.splits)

lemma on_remote_pool: "file_pool (fst (snd (on_remote p (st, w)))) = file_pool st"
  by (simp add: on_remote_def split: prod.splits)

lemma fs_read_pool: "file_pool (fst (snd (fs_read dbg svc ffi wr inode n off (st, w)))) = file_pool st"
proof (cases "file_pool st inode")
  case None
  then show ?thesis by (simp add: fs_read_def fs_get_file_config_def on_fst_def bind_prog_def)
next
  case (Some config)
  let ?P = "\<lambda>t. file_pool t = file_pool st"
  have loc: "?P t \<Longrightarrow> ?P (snd (local_read path rd i buf t))" for path rd i buf and t :: "'a AuthFs"
    by (simp add: local_read_pool)
  note keep = read_chunks_state [where P = ?P, OF loc refl]
    read_chunks_state [where P = ?P, OF verified_read_chunk_state [where P = ?P, OF loc loc] refl]
  from Some keep show ?thesis
    by (cases config) (simp_all add: fs_read_def fs_get_file_config_def on_fst_def bind_prog_def on_remote_pool)
qed

lemma fs_handle_same_pool: "same_pool (file_pool st) (file_pool (fs_handle dbg svc ffi fuel req st))"
proof (cases req)
  case (FsWrite inode buf off)
  then show ?thesis
    by (auto simp: fs_write_def snd_bind_fs_get_file_config snd_bind_ret_prog
        intro!: with_editor_same_pool split: option.splits FileConfig.splits)
next
  case (FsSetattr inode sz valid)
  have "same_pool (file_pool st) (file_pool (snd (fs_setattr dbg svc ffi inode sz valid st)))"
    unfolding fs_setattr_def snd_bind_fs_get_file_config
    by (auto simp: snd_bind_ret_prog
        intro!: with_editor_same_pool bind_prog_state [where P = "\<lambda>t. same_pool (file_pool st) (file_pool t)"]
        split: option.splits FileConfig.splits outcome.splits)
  with FsSetattr show ?thesis by simp
qed (simp_all add: fs_lookup_def fs_getattr_def fs_open_def fs_read_pool snd_bind_ret_prog
    snd_bind_fs_get_file_config split: outcome.splits option.splits)

lemma fs_handle_all_same_pool:
  "same_pool (file_pool st) (file_pool (fs_handle_all dbg svc ffi fuel reqs st))"
  unfolding fs_handle_all_def
proof (induction reqs arbitrary: st)
  case Nil
  then show ?case by simp
next
  case (Cons req reqs)
  have "same_pool (file_pool (fs_handle dbg svc ffi fuel req st))
      (file_pool (fold (fs_handle dbg svc ffi fuel) reqs (fs_handle dbg svc ffi fuel req st)))"
    by (rule Cons.IH)
  with fs_handle_same_pool [of st dbg svc ffi fuel req] show ?case
    using same_pool_trans by fastforce
qed

section \<open>Verified remote files\<close>

lemma verified_read_chunk_file:
  "verified_read_chunk dbg rd_file rd_tree ffi r i buf s = (Ok (n, b), s') \<Longrightarrow>
   \<exists>s1. rd_file i buf s = (Ok (n, b), s1)"
  by (auto simp: verified_read_chunk_def bind_prog_Ok_iff split: if_splits)

text \<open>Whatever the service does, the verified reader of a remote file returns genuine pages.\<close>

lemma remote_verified_genuine:
  assumes H: "sha256_lib ffi H" and n: "length c \<le> 2 ^ 61"
    and r: "vr_file_size r = length c" "vr_root_hash r = verity_root H c"
    and nf: "\<not> forges H (served_chunks (remote_read_chunk svc fd) \<union>
      served_blocks (RemoteMerkleTreeReader_read_chunk svc fd)) (verity_pages H c)"
  shows "genuine_reader (verified_read_chunk dbg (remote_read_chunk svc fd)
    (RemoteMerkleTreeReader_read_chunk svc fd) ffi r) c"
  unfolding genuine_reader_def
proof (intro allI impI)
  fix i s k b s'
  assume i: "i < num_chunks c" and v: "verified_read_chunk dbg (remote_read_chunk svc fd)
    (RemoteMerkleTreeReader_read_chunk svc fd) ffi r i (zeros CHUNK_SIZE) s = (Ok (k, b), s')"
  obtain s1 where "remote_read_chunk svc fd i (zeros CHUNK_SIZE) s = (Ok (k, b), s1)"
    using verified_read_chunk_file [OF v] by blast
  then have "b = resize_bytes CHUNK_SIZE (take k b)" by (rule remote.read_into_zeros)
  also have "\<dots> = page c i"
    using remote_tree.verified_read_chunk_sound [OF H i n r nf v] by blast
  finally show "b = page c i" .
qed

text \<open>A FUSE read of a verified remote file that succeeds returns the bytes of the file.\<close>

lemma fs_read_verified_sound:
  assumes H: "sha256_lib ffi H" and n: "length c \<le> 2 ^ 61" and off: "off < u64_limit"
    and pool: "file_pool st inode = Some (RemoteVerifiedReadonlyFile r fd (length c))"
    and r: "vr_file_size r = length c" "vr_root_hash r = verity_root H c"
    and nf: "\<not> forges H (served_chunks (remote_read_chunk svc fd) \<union>
      served_blocks (RemoteMerkleTreeReader_read_chunk svc fd)) (verity_pages H c)"
    and res: "fs_read dbg svc ffi vec_write inode k off (st, v) = (Ok m, (st', v'))"
  shows "m = min k (length c - off) \<and> v' = v @ take k (drop off c)"
proof -
  obtain s1 where "read_chunks vec_write (verified_read_chunk dbg (remote_read_chunk svc fd)
      (RemoteMerkleTreeReader_read_chunk svc fd) ffi r) (length c) off k (remote st, v) = (Ok m, (s1, v'))"
    using res pool by (auto simp: fs_read_def fs_get_file_config_def on_fst_def bind_prog_def on_remote_def
        RemoteFileReader_read_chunk_def split: prod.splits)
  moreover have "length c < u64_limit" using n by (simp add: u64_limit_def)
  ultimately show ?thesis
    using vec.read_chunks_sound [OF remote_verified_genuine [OF H n r nf] _ off] by blast
qed

section \<open>Access\<close>

text \<open>Read-only files cannot be opened for writing, written or changed.\<close>

fun is_readonly :: "FileConfig \<Rightarrow> bool" where
  "is_readonly (RemoteVerifiedNewFile _ _) = False"
| "is_readonly _ = True"

lemma fs_get_file_config_Some [simp]:
  "file_pool st inode = Some config \<Longrightarrow> fs_get_file_config inode st = (Ok config, st)"
  by (simp add: fs_get_file_config_def)

lemma fs_readonly_protected:
  assumes "file_pool st inode = Some config" and "is_readonly config"
  shows "fs_write svc ffi fuel inode rx n off st = (Err (OsError EBADF), st)"
    and "fs_setattr dbg svc ffi inode sz valid st = (Err (OsError EBADF), st)"
    and "is_ok (fst (fs_open inode flags st)) \<longleftrightarrow> flags AND O_ACCMODE = O_RDONLY"
proof -
  show "fs_write svc ffi fuel inode rx n off st = (Err (OsError EBADF), st)"
    using assms by (cases config) (simp_all add: fs_write_def)
  show "fs_setattr dbg svc ffi inode sz valid st = (Err (OsError EBADF), st)"
    using assms by (cases config) (simp_all add: fs_setattr_def)
  show "is_ok (fst (fs_open inode flags st)) \<longleftrightarrow> flags AND O_ACCMODE = O_RDONLY"
    using assms by (cases config) (simp_all add: fs_open_def check_access_mode_def)
qed

text \<open>The lookup of a decimal inode number finds the file with its attributes.\<close>

lemma fs_lookup_show_nat:
  assumes "inode < u64_limit"
  shows "fs_lookup (Some (show_nat inode)) st =
    (case file_pool st inode of
       None \<Rightarrow> (Err (OsError ENOENT), st)
     | Some config \<Rightarrow> (and_then (stat_of_config inode config) (\<lambda>x. Ok (inode, x)), st))"
  using parse_u64_show_nat [OF assms]
  by (cases "file_pool st inode"; simp add: fs_lookup_def fs_get_file_config_def bind_prog_def)
     (auto split: outcome.splits)

end
