(* ===== verification/AuthFsMain.thy ===== *)
theory AuthFsMain
  imports AuthFs
begin

text \<open>
  \<^verbatim>\<open>authfs/src/main.rs\<close>: the command-line options of authfs and the pool of files built from
  them. \<open>Args_from_args\<close> is what structopt derives from the declaration of \<open>Args\<close>: it has clap split
  the command line and runs the parser of each option on its values. An option value its parser
  rejects ends the process with a usage message, which is an error here.

  The lemmas give the exact result of each option parser on a well-formed value, and what
  the pool holds. The signature of a verified file is checked by an authenticator that
  accepts everything (the source has a TODO for the real one), so a pool entry for a verified
  remote file carries whatever root the remote tree has; \<open>new_config_remote_verified_root\<close>
  says exactly which.
\<close>

section \<open>Options\<close>

datatype anyhow_error = UsageMessage | InvalidOption | ParseError | BinderError Status | VerityError FsverityError
  | IoError io_error

record OptionRemoteRoFile =
  rro_ino :: nat
  rro_remote_id :: int
  rro_file_size :: nat
  rro_certificate_path :: string

record OptionRemoteRoFileUnverified =
  rru_ino :: nat
  rru_remote_id :: int
  rru_file_size :: nat

record OptionRemoteRwFile =
  rrw_ino :: nat
  rrw_remote_id :: int

record OptionLocalFileRo =
  lro_ino :: nat
  lro_file_path :: string
  lro_merkle_tree_dump_path :: string
  lro_signature_path :: string
  lro_certificate_path :: string

record OptionLocalRoFileUnverified =
  lru_ino :: nat
  lru_file_path :: string

definition parse_remote_ro_file_option :: "string \<Rightarrow> (OptionRemoteRoFile, anyhow_error) outcome" where
  "parse_remote_ro_file_option option =
     (case split_on CHR '':'' option of
        [s0, s1, s2, s3] \<Rightarrow>
          and_then (ok_or ParseError (parse_u64 s0)) (\<lambda>ino.
          and_then (ok_or ParseError (parse_i32 s1)) (\<lambda>remote_id.
          and_then (ok_or ParseError (parse_u64 s2)) (\<lambda>file_size.
          Ok \<lparr>rro_ino = ino, rro_remote_id = remote_id, rro_file_size = file_size,
              rro_certificate_path = s3\<rparr>)))
      | _ \<Rightarrow> Err InvalidOption)"

definition parse_remote_ro_file_unverified_option ::
  "string \<Rightarrow> (OptionRemoteRoFileUnverified, anyhow_error) outcome" where
  "parse_remote_ro_file_unverified_option option =
     (case split_on CHR '':'' option of
        [s0, s1, s2] \<Rightarrow>
          and_then (ok_or ParseError (parse_u64 s0)) (\<lambda>ino.
          and_then (ok_or ParseError (parse_i32 s1)) (\<lambda>remote_id.
          and_then (ok_or ParseError (parse_u64 s2)) (\<lambda>file_size.
          Ok \<lparr>rru_ino = ino, rru_remote_id = remote_id, rru_file_size = file_size\<rparr>)))
      | _ \<Rightarrow> Err InvalidOption)"

text \<open>The numbers of this option are unwrapped: a value that is not a number is a panic.\<close>

definition parse_remote_new_rw_file_option :: "string \<Rightarrow> (OptionRemoteRwFile, anyhow_error) outcome" where
  "parse_remote_new_rw_file_option option =
     (case split_on CHR '':'' option of
        [s0, s1] \<Rightarrow>
          and_then (unwrap (parse_u64 s0)) (\<lambda>ino.
          and_then (unwrap (parse_i32 s1)) (\<lambda>remote_id.
          Ok \<lparr>rrw_ino = ino, rrw_remote_id = remote_id\<rparr>))
      | _ \<Rightarrow> Err InvalidOption)"

definition parse_local_file_ro_option :: "string \<Rightarrow> (OptionLocalFileRo, anyhow_error) outcome" where
  "parse_local_file_ro_option option =
     (case split_on CHR '':'' option of
        [s0, s1, s2, s3, s4] \<Rightarrow>
          and_then (ok_or ParseError (parse_u64 s0)) (\<lambda>ino.
          Ok \<lparr>lro_ino = ino, lro_file_path = s1, lro_merkle_tree_dump_path = s2,
              lro_signature_path = s3, lro_certificate_path = s4\<rparr>)
      | _ \<Rightarrow> Err InvalidOption)"

definition parse_local_ro_file_unverified_ro_option ::
  "string \<Rightarrow> (OptionLocalRoFileUnverified, anyhow_error) outcome" where
  "parse_local_ro_file_unverified_ro_option option =
     (case split_on CHR '':'' option of
        [s0, s1] \<Rightarrow>
          and_then (ok_or ParseError (parse_u64 s0)) (\<lambda>ino.
          Ok \<lparr>lru_ino = ino, lru_file_path = s1\<rparr>)
      | _ \<Rightarrow> Err InvalidOption)"

record Args =
  args_mount_point :: string
  remote_ro_file :: "OptionRemoteRoFile list"
  remote_ro_file_unverified :: "OptionRemoteRoFileUnverified list"
  remote_new_rw_file :: "OptionRemoteRwFile list"
  local_ro_file :: "OptionLocalFileRo list"
  local_ro_file_unverified :: "OptionLocalRoFileUnverified list"
  args_debug :: bool

definition authfs_app :: App where
  "authfs_app =
     \<lparr>app_values = [''remote-ro-file'', ''remote-ro-file-unverified'', ''remote-new-rw-file'', ''local-ro-file'',
        ''local-ro-file-unverified''],
      app_required = [], app_flags = [''debug''], app_positional = [''mount-point''], app_last = None\<rparr>"

definition Args_from_args :: "clap \<Rightarrow> string list \<Rightarrow> (Args, anyhow_error) outcome" where
  "Args_from_args clap argv =
     and_then (ok_or UsageMessage (clap authfs_app argv)) (\<lambda>matches.
     and_then (unwrap (value_of matches ''mount-point'')) (\<lambda>mp.
     and_then (try_map parse_remote_ro_file_option (values_of matches ''remote-ro-file'')) (\<lambda>rro.
     and_then (try_map parse_remote_ro_file_unverified_option (values_of matches ''remote-ro-file-unverified'')) (\<lambda>rru.
     and_then (try_map parse_remote_new_rw_file_option (values_of matches ''remote-new-rw-file'')) (\<lambda>rrw.
     and_then (try_map parse_local_file_ro_option (values_of matches ''local-ro-file'')) (\<lambda>lro.
     and_then (try_map parse_local_ro_file_unverified_ro_option (values_of matches ''local-ro-file-unverified'')) (\<lambda>lru.
     Ok \<lparr>args_mount_point = mp, remote_ro_file = rro, remote_ro_file_unverified = rru, remote_new_rw_file = rrw,
         local_ro_file = lro, local_ro_file_unverified = lru, args_debug = is_present matches ''debug''\<rparr>)))))))"

section \<open>Configurations\<close>

text \<open>The service and the local files, before the file system exists.\<close>

type_synonym ('s, 'a) setup_prog = "('s \<times> (string \<rightharpoonup> File), 'a, anyhow_error) prog"

definition on_service :: "('s, 'a, 'e) prog \<Rightarrow> ('e \<Rightarrow> anyhow_error) \<Rightarrow> ('s, 'a) setup_prog" where
  "on_service p g = map_err_prog g (on_fst p)"

definition on_path :: "string \<Rightarrow> (File, 'a, io_error) prog \<Rightarrow> (string \<rightharpoonup> File, 'a, io_error) prog" where
  "on_path path p fs =
     (case fs path of
        None \<Rightarrow> (Err (OsError ENOENT), fs)
      | Some f \<Rightarrow> (case p f of (r, f') \<Rightarrow> (r, fs(path \<mapsto> f'))))"

definition on_local :: "string \<Rightarrow> (File, 'a, io_error) prog \<Rightarrow> ('s, 'a) setup_prog" where
  "on_local path p = map_err_prog IoError (on_snd (on_path path p))"

definition new_config_remote_verified_file ::
  "'s virt_fd_service \<Rightarrow> 'c sha256_ffi \<Rightarrow> int \<Rightarrow> nat \<Rightarrow> ('s, FileConfig) setup_prog" where
  "new_config_remote_verified_file svc ffi remote_id file_size =
     bind_prog (on_service (svc_readFsveritySignature svc remote_id) BinderError) (\<lambda>signature.
     bind_prog (on_service (VerifiedFileReader_new (fake_verify always_succeed)
       (RemoteMerkleTreeReader_read_chunk svc remote_id) ffi file_size signature) VerityError) (\<lambda>reader.
     ret (Ok (RemoteVerifiedReadonlyFile reader remote_id file_size))))"

definition new_config_remote_unverified_file :: "int \<Rightarrow> nat \<Rightarrow> ('s, FileConfig) setup_prog" where
  "new_config_remote_unverified_file remote_id file_size =
     ret (Ok (RemoteUnverifiedReadonlyFile remote_id file_size))"

definition read_to_end :: "(File, bytes, io_error) prog" where
  "read_to_end f =
     (case next_event f of
        (SysFail e, f') \<Rightarrow> (Err (OsError e), f')
      | (_, f') \<Rightarrow> (Ok (contents f), f'))"

text \<open>The tree of a local file read during the setup, where errors are \<open>io::Error\<close>s.\<close>

definition setup_read :: "string \<Rightarrow> File read_chunk_fn \<Rightarrow> ('s \<times> (string \<rightharpoonup> File)) read_chunk_fn" where
  "setup_read path rd i buf = on_snd (on_path path (rd i buf))"

definition new_config_local_ro_file ::
  "bool \<Rightarrow> 'c sha256_ffi \<Rightarrow> string \<Rightarrow> string \<Rightarrow> string \<Rightarrow> ('s, FileConfig) setup_prog" where
  "new_config_local_ro_file dbg ffi protected_file merkle_tree_dump signature =
     bind_prog (on_local protected_file file_len) (\<lambda>file_size.
     bind_prog (on_local protected_file LocalFileReader_new) (\<lambda>file_reader.
     bind_prog (on_local merkle_tree_dump LocalFileReader_new) (\<lambda>merkle_tree_reader.
     bind_prog (on_local signature read_to_end) (\<lambda>sig.
     bind_prog (map_err_prog VerityError (VerifiedFileReader_new (fake_verify always_succeed)
       (setup_read merkle_tree_dump (local_read_chunk dbg merkle_tree_reader)) ffi file_size sig)) (\<lambda>reader.
     ret (Ok (LocalVerifiedReadonlyFile reader file_reader protected_file merkle_tree_reader
       merkle_tree_dump file_size)))))))"

definition new_config_local_ro_file_unverified :: "string \<Rightarrow> ('s, FileConfig) setup_prog" where
  "new_config_local_ro_file_unverified file_path =
     bind_prog (on_local file_path LocalFileReader_new) (\<lambda>reader.
     ret (Ok (LocalUnverifiedReadonlyFile reader file_path (LocalFileReader_len reader))))"

definition new_config_remote_new_verified_file :: "int \<Rightarrow> ('s, FileConfig) setup_prog" where
  "new_config_remote_new_verified_file remote_id =
     ret (Ok (RemoteVerifiedNewFile remote_id MerkleLeaves_new))"

text \<open>A loop of \<open>prepare_file_pool\<close>: build the configuration of each option and insert it.\<close>

definition insert_configs ::
  "('o \<Rightarrow> nat) \<Rightarrow> ('o \<Rightarrow> ('s, FileConfig) setup_prog) \<Rightarrow> (nat \<rightharpoonup> FileConfig) \<Rightarrow> 'o list \<Rightarrow>
   ('s, nat \<rightharpoonup> FileConfig) setup_prog" where
  "insert_configs ino new_config pool options =
     fold_prog (\<lambda>pool config. bind_prog (new_config config) (\<lambda>fc. ret (Ok (pool(ino config \<mapsto> fc))))) pool options"

definition prepare_file_pool ::
  "bool \<Rightarrow> 's virt_fd_service \<Rightarrow> 'c sha256_ffi \<Rightarrow> Args \<Rightarrow> ('s, nat \<rightharpoonup> FileConfig) setup_prog" where
  "prepare_file_pool dbg svc ffi args =
     bind_prog (insert_configs rro_ino
       (\<lambda>c. new_config_remote_verified_file svc ffi (rro_remote_id c) (rro_file_size c))
       Map.empty (remote_ro_file args)) (\<lambda>p1.
     bind_prog (insert_configs rru_ino
       (\<lambda>c. new_config_remote_unverified_file (rru_remote_id c) (rru_file_size c))
       p1 (remote_ro_file_unverified args)) (\<lambda>p2.
     bind_prog (insert_configs rrw_ino
       (\<lambda>c. new_config_remote_new_verified_file (rrw_remote_id c)) p2 (remote_new_rw_file args)) (\<lambda>p3.
     bind_prog (insert_configs lro_ino
       (\<lambda>c. new_config_local_ro_file dbg ffi (lro_file_path c) (lro_merkle_tree_dump_path c)
         (lro_signature_path c)) p3 (local_ro_file args)) (\<lambda>p4.
     insert_configs lru_ino (\<lambda>c. new_config_local_ro_file_unverified (lru_file_path c))
       p4 (local_ro_file_unverified args)))))"

section \<open>Parsing what the other programs write\<close>

lemma parse_remote_ro_file_unverified_show:
  assumes "ino < u64_limit" and "sz < u64_limit" and "- int (i32_max + 1) \<le> rid" and "rid \<le> int i32_max"
  shows "parse_remote_ro_file_unverified_option
      (show_nat ino @ CHR '':'' # show_int rid @ CHR '':'' # show_nat sz) =
    Ok \<lparr>rru_ino = ino, rru_remote_id = rid, rru_file_size = sz\<rparr>"
  using assms
  by (simp add: parse_remote_ro_file_unverified_option_def split_on_append split_on_none
      parse_u64_show_nat parse_i32_show_int)

lemma parse_remote_new_rw_file_show:
  assumes "ino < u64_limit" and "- int (i32_max + 1) \<le> rid" and "rid \<le> int i32_max"
  shows "parse_remote_new_rw_file_option (show_nat ino @ CHR '':'' # show_int rid) =
    Ok \<lparr>rrw_ino = ino, rrw_remote_id = rid\<rparr>"
  using assms
  by (simp add: parse_remote_new_rw_file_option_def split_on_append split_on_none
      parse_u64_show_nat parse_i32_show_int)

text \<open>A malformed number: an error for the read-only options, a panic for the writable one.\<close>

lemma parse_new_rw_file_panics:
  assumes "CHR '':'' \<notin> set a" and "CHR '':'' \<notin> set b" and "parse_u64 a = None \<or> parse_i32 b = None"
  shows "parse_remote_new_rw_file_option (a @ CHR '':'' # b) = Panic"
  using assms
  by (cases "parse_u64 a") (auto simp: parse_remote_new_rw_file_option_def split_on_append split_on_none)

section \<open>The pool\<close>

lemma insert_configs_dom:
  "insert_configs ino mk pool cs s = (Ok pool', s') \<Longrightarrow> dom pool' = dom pool \<union> ino ` set cs"
proof (induction cs arbitrary: pool s)
  case Nil
  then show ?case by (simp add: insert_configs_def)
next
  case (Cons c cs)
  then obtain fc s1 where "insert_configs ino mk (pool(ino c \<mapsto> fc)) cs s1 = (Ok pool', s')"
    by (auto simp: insert_configs_def bind_prog_Ok_iff)
  from Cons.IH [OF this] show ?case by auto
qed

text \<open>Options whose configuration needs neither the service nor a file.\<close>

lemma insert_configs_pure:
  assumes "\<And>c s. mk c s = (Ok (g c), s)"
  shows "insert_configs ino mk pool cs s = (Ok (pool ++ map_of (rev (map (\<lambda>c. (ino c, g c)) cs))), s)"
proof (induction cs arbitrary: pool)
  case Nil
  then show ?case by (simp add: insert_configs_def)
next
  case (Cons c cs)
  have "insert_configs ino mk pool (c # cs) s = insert_configs ino mk (pool(ino c \<mapsto> g c)) cs s"
    by (simp add: insert_configs_def bind_prog_def assms)
  also have "\<dots> = (Ok (pool(ino c \<mapsto> g c) ++ map_of (rev (map (\<lambda>c. (ino c, g c)) cs))), s)"
    by (rule Cons.IH)
  also have "pool(ino c \<mapsto> g c) ++ map_of (rev (map (\<lambda>c. (ino c, g c)) cs)) =
      pool ++ map_of (rev (map (\<lambda>c. (ino c, g c)) (c # cs)))"
    by (auto simp: map_add_def fun_eq_iff split: option.splits)
  finally show ?case .
qed

lemma prepare_file_pool_dom:
  assumes "prepare_file_pool dbg svc ffi args s = (Ok pool, s')"
  shows "dom pool = rro_ino ` set (remote_ro_file args) \<union> rru_ino ` set (remote_ro_file_unverified args) \<union>
    rrw_ino ` set (remote_new_rw_file args) \<union> lro_ino ` set (local_ro_file args) \<union>
    lru_ino ` set (local_ro_file_unverified args)"
  using assms unfolding prepare_file_pool_def
  by (clarsimp simp: bind_prog_Ok_iff) (drule insert_configs_dom, simp)+

text \<open>What an option puts into the pool stays unless a later option names the same inode.\<close>

lemma insert_configs_other:
  "insert_configs ino mk pool cs s = (Ok pool', s') \<Longrightarrow> i \<notin> ino ` set cs \<Longrightarrow> pool' i = pool i"
proof (induction cs arbitrary: pool s)
  case Nil
  then show ?case by (simp add: insert_configs_def)
next
  case (Cons c cs)
  then obtain fc s1 where "insert_configs ino mk (pool(ino c \<mapsto> fc)) cs s1 = (Ok pool', s')"
    by (auto simp: insert_configs_def bind_prog_Ok_iff)
  with Cons show ?case by fastforce
qed

lemma insert_configs_from:
  "insert_configs ino mk pool cs s = (Ok pool', s') \<Longrightarrow> i \<in> ino ` set cs \<Longrightarrow>
   \<exists>c t t' fc. c \<in> set cs \<and> ino c = i \<and> mk c t = (Ok fc, t') \<and> pool' i = Some fc"
proof (induction cs arbitrary: pool s)
  case Nil
  then show ?case by simp
next
  case (Cons c cs)
  then obtain fc s1 where fc: "mk c s = (Ok fc, s1)"
    "insert_configs ino mk (pool(ino c \<mapsto> fc)) cs s1 = (Ok pool', s')"
    by (auto simp: insert_configs_def bind_prog_Ok_iff)
  show ?case
  proof (cases "i \<in> ino ` set cs")
    case True
    with Cons.IH [OF fc(2)] show ?thesis by fastforce
  next
    case False
    with Cons.prems(2) have "ino c = i" by auto
    with insert_configs_other [OF fc(2) False] fc(1) show ?thesis by fastforce
  qed
qed

text \<open>A writable entry starts as the empty file.\<close>

lemma prepare_file_pool_new_file:
  assumes "prepare_file_pool dbg svc ffi args s = (Ok pool, s')"
    and "i \<in> rrw_ino ` set (remote_new_rw_file args)"
    and "i \<notin> lro_ino ` set (local_ro_file args)" and "i \<notin> lru_ino ` set (local_ro_file_unverified args)"
  shows "\<exists>c \<in> set (remote_new_rw_file args). rrw_ino c = i \<and>
    pool i = Some (RemoteVerifiedNewFile (rrw_remote_id c) MerkleLeaves_new)"
proof -
  obtain p2 s2 p3 s3 p4 s4 where
    p3: "insert_configs rrw_ino (\<lambda>c. new_config_remote_new_verified_file (rrw_remote_id c)) p2
      (remote_new_rw_file args) s2 = (Ok p3, s3)" and
    p4: "insert_configs lro_ino (\<lambda>c. new_config_local_ro_file dbg ffi (lro_file_path c)
      (lro_merkle_tree_dump_path c) (lro_signature_path c)) p3 (local_ro_file args) s3 = (Ok p4, s4)" and
    p5: "insert_configs lru_ino (\<lambda>c. new_config_local_ro_file_unverified (lru_file_path c)) p4
      (local_ro_file_unverified args) s4 = (Ok pool, s')"
    using assms(1) by (auto simp: prepare_file_pool_def bind_prog_Ok_iff)
  from insert_configs_from [OF p3 assms(2)] obtain c where
    "c \<in> set (remote_new_rw_file args)" "rrw_ino c = i"
    "p3 i = Some (RemoteVerifiedNewFile (rrw_remote_id c) MerkleLeaves_new)"
    by (auto simp: new_config_remote_new_verified_file_def)
  with insert_configs_other [OF p4 assms(3)] insert_configs_other [OF p5 assms(4)] show ?thesis by auto
qed

text \<open>The root of a verified remote file is that of the first page of the remote tree, for every
  signature the service hands out.\<close>

lemma new_config_remote_verified_root:
  assumes H: "sha256_lib ffi H"
    and sig: "svc_readFsveritySignature svc rid s = (Ok sig, s1)"
    and tree: "RemoteMerkleTreeReader_read_chunk svc rid 0 (zeros CHUNK_SIZE) s1 = (Ok (CHUNK_SIZE, b), s2)"
  shows "new_config_remote_verified_file svc ffi rid n (s, lf) =
    (Ok (RemoteVerifiedReadonlyFile \<lparr>vr_file_size = n, vr_root_hash = H b\<rparr> rid n), (s2, lf))"
proof -
  have "length b = CHUNK_SIZE"
    using remote_tree.length_read [OF tree] by simp
  with tree show ?thesis
    by (simp add: new_config_remote_verified_file_def on_service_def on_fst_def map_err_prog_def bind_prog_def
        sig VerifiedFileReader_new_def fake_verify_def always_succeed_def sha256_chain_hash [OF H]
        build_fsverity_formatted_digest_hash [OF H])
qed

end
