(* ===== verification/Compos.thy ===== *)
theory Compos
  imports AuthFsMain
begin

text \<open>
  \<^verbatim>\<open>compos/src\<close>: the programs that run a task in the virtual machine. \<^verbatim>\<open>pvm_exec.rs\<close> collects
  the descriptors and starts the file server, \<^verbatim>\<open>compsvc.rs\<close> starts a worker for a request,
  \<^verbatim>\<open>compsvc_worker.rs\<close> mounts authfs, opens a file of it per descriptor and starts the task.

  The programs talk to each other through command lines. The clap crate, which splits them, is a
  parameter (\<^verbatim>\<open>CommandLine\<close>); for the line typed by the user of \<^verbatim>\<open>pvm_exec\<close> the option values are
  (\<open>ExecMatches\<close>). The jails, the binder call and the kernel are parameters. The lemmas show that
  the values one program writes are the values the next one reads, through all four programs.
\<close>

section \<open>compsvc\<close>

record InputFdAnnotation =
  in_fd :: int
  in_file_size :: int

record OutputFdAnnotation =
  out_fd :: int

record Metadata =
  input_fd_annotations :: "InputFdAnnotation list"
  output_fd_annotations :: "OutputFdAnnotation list"

record CompService =
  worker_bin :: string
  task_bin :: string
  cs_debuggable :: bool

definition WORKER_BIN :: string where "WORKER_BIN = ''/system/bin/compsvc_worker''"
definition AUTHFS_MOUNTPOINT :: string where "AUTHFS_MOUNTPOINT = ''/data/local/tmp/authfs_mnt''"

text \<open>
  A jail of \<open>minijail\<close>: an error, among them the exit code of the process. The crate is a
  parameter: whether a jail can be made (which may depend on how many programs were started before),
  whether a program starts in it, how its process ends. What a program does with its jails is a trace;
  a jail is known by its place among the programs started.
\<close>

datatype minijail_error = ReturnCode nat | Killed nat | OtherJailError

datatype jail_event =
    Started string "(int \<times> int) list" "string list"
  | Waited nat
  | KillSent nat

record jail_env =
  jail_new :: "nat \<Rightarrow> (unit, minijail_error) outcome"
  jail_start :: "string \<Rightarrow> (int \<times> int) list \<Rightarrow> string list \<Rightarrow> (unit, minijail_error) outcome"
  jail_end :: "nat \<Rightarrow> (unit, minijail_error) outcome"

type_synonym 'a jail_prog = "(jail_event list, 'a, minijail_error) prog"

fun is_start :: "jail_event \<Rightarrow> bool" where
  "is_start (Started _ _ _) = True"
| "is_start _ = False"

text \<open>\<open>Minijail::new\<close>.\<close>

definition jail_create :: "jail_env \<Rightarrow> unit jail_prog" where
  "jail_create env tr = (jail_new env (length (filter is_start tr)), tr)"

text \<open>\<open>run_remap\<close>, and \<open>run\<close> with descriptors that keep their numbers.\<close>

definition jail_run_remap :: "jail_env \<Rightarrow> string \<Rightarrow> (int \<times> int) list \<Rightarrow> string list \<Rightarrow> nat jail_prog" where
  "jail_run_remap env program fds argv tr =
     (case jail_start env program fds argv of
        Ok _ \<Rightarrow> (Ok (length (filter is_start tr)), tr @ [Started program fds argv])
      | Err e \<Rightarrow> (Err e, tr)
      | Panic \<Rightarrow> (Panic, tr)
      | OutOfFuel \<Rightarrow> (OutOfFuel, tr))"

definition jail_run :: "jail_env \<Rightarrow> string \<Rightarrow> int list \<Rightarrow> string list \<Rightarrow> nat jail_prog" where
  "jail_run env program fds argv = jail_run_remap env program (map (\<lambda>fd. (fd, fd)) fds) argv"

definition jail_wait :: "jail_env \<Rightarrow> nat \<Rightarrow> unit jail_prog" where
  "jail_wait env j tr = (jail_end env j, tr @ [Waited j])"

text \<open>A \<open>Result\<close> that is kept as a value and not propagated.\<close>

definition as_value :: "('s, 'a, 'e) prog \<Rightarrow> ('s, ('a, 'e) outcome, 'f) prog" where
  "as_value p s =
     (case p s of
        (Panic, s') \<Rightarrow> (Panic, s')
      | (OutOfFuel, s') \<Rightarrow> (OutOfFuel, s')
      | (r, s') \<Rightarrow> (Ok r, s'))"

text \<open>The scope guard of a jail: however the body ends, the process is sent a kill. After a panic this
  is because panics unwind, the default of Rust; with \<open>panic = "abort"\<close> no guard would run.\<close>

definition kill_guard :: "nat \<Rightarrow> (jail_event list, 'a, 'e) prog \<Rightarrow> (jail_event list, 'a, 'e) prog" where
  "kill_guard j body tr =
     (case body tr of
        (OutOfFuel, tr') \<Rightarrow> (OutOfFuel, tr')
      | (r, tr') \<Rightarrow> (r, tr' @ [KillSent j]))"

definition build_worker_args :: "CompService \<Rightarrow> string list \<Rightarrow> Metadata \<Rightarrow> (string list, 'e) outcome" where
  "build_worker_args cs args metadata =
     and_then (slice_range args 1 (length args)) (\<lambda>rest.
     Ok ([WORKER_BIN, ''--authfs-root'', AUTHFS_MOUNTPOINT] @
         concat (map (\<lambda>a. [''--in-fd'', show_int (in_fd a) @ '':'' @ show_int (in_file_size a)])
           (input_fd_annotations metadata)) @
         concat (map (\<lambda>a. [''--out-fd'', show_int (out_fd a)]) (output_fd_annotations metadata)) @
         (if cs_debuggable cs then [''--debug''] else []) @
         [''--'', task_bin cs] @ rest))"

definition run_worker_in_jail_and_wait :: "jail_env \<Rightarrow> CompService \<Rightarrow> string list \<Rightarrow> unit jail_prog" where
  "run_worker_in_jail_and_wait env cs args =
     bind_prog (jail_create env) (\<lambda>_.
     bind_prog (jail_run env (worker_bin cs) (if cs_debuggable cs then [1, 2] else []) args) (\<lambda>jail.
     jail_wait env jail))"

definition comp_execute ::
  "jail_env \<Rightarrow> CompService \<Rightarrow> string list \<Rightarrow> Metadata \<Rightarrow> (jail_event list, int, Status) prog" where
  "comp_execute env cs args metadata =
     bind_prog (ret (build_worker_args cs args metadata)) (\<lambda>worker_args.
     \<lambda>tr. (case run_worker_in_jail_and_wait env cs worker_args tr of
        (Ok _, tr') \<Rightarrow> (Ok 0, tr')
      | (Err (ReturnCode exit_code), tr') \<Rightarrow> (Err (StatusOf FAILED_TRANSACTION), tr')
      | (Err e, tr') \<Rightarrow> (Err (StatusOf UNKNOWN_ERROR), tr')
      | (Panic, tr') \<Rightarrow> (Panic, tr')
      | (OutOfFuel, tr') \<Rightarrow> (OutOfFuel, tr')))"

text \<open>\<open>parse_args\<close> of compsvc, on the values of \<open>task_bin\<close> and \<open>--debug\<close>.\<close>

definition compsvc_parse_args :: "string \<Rightarrow> bool \<Rightarrow> CompService" where
  "compsvc_parse_args task debug = \<lparr>worker_bin = WORKER_BIN, task_bin = task, cs_debuggable = debug\<rparr>"

text \<open>\<open>main\<close> of compsvc: the registration of the service and the thread pool are parameters, the
  service handed to the registration is the result of a parameter that captures it.\<close>

datatype service_error = RegistrationFailed Status | ServiceExited

definition SERVICE_NAME :: string where "SERVICE_NAME = ''compsvc''"

definition compsvc_main ::
  "(string \<Rightarrow> CompService \<Rightarrow> (unit, Status) outcome) \<Rightarrow> string \<Rightarrow> bool \<Rightarrow> (unit, service_error) outcome" where
  "compsvc_main add_service task debug =
     and_then (map_err RegistrationFailed (add_service SERVICE_NAME (compsvc_parse_args task debug))) (\<lambda>_.
     Err ServiceExited)"

section \<open>compsvc_worker\<close>

record InFdAnnotation =
  conf_in_fd :: int
  conf_file_size :: nat

record OutFdAnnotation =
  conf_out_fd :: int

record WorkerConfig =
  authfs_root :: string
  in_fds :: "InFdAnnotation list"
  out_fds :: "OutFdAnnotation list"
  task_args :: "string list"
  wc_debuggable :: bool

definition AUTHFS_BIN :: string where "AUTHFS_BIN = ''/apex/com.android.virt/bin/authfs''"
definition AUTHFS_SETUP_POLL_INTERVAL_MS :: nat where "AUTHFS_SETUP_POLL_INTERVAL_MS = 50"
definition AUTHFS_SETUP_TIMEOUT_MS :: nat where "AUTHFS_SETUP_TIMEOUT_MS = 10000"

datatype worker_error = WorkerUsage | InvalidArgument | NumberError | SetupTimeout | WorkerIo io_error
  | WorkerJail minijail_error | WorkerExit nat

text \<open>\<open>arg.find(':')\<close>\<close>

fun find_char :: "char \<Rightarrow> string \<Rightarrow> nat option" where
  "find_char c [] = None"
| "find_char c (x # xs) = (if x = c then Some 0 else map_option Suc (find_char c xs))"

definition parse_in_fd :: "string \<Rightarrow> (InFdAnnotation, worker_error) outcome" where
  "parse_in_fd arg =
     (case find_char CHR '':'' arg of
        Some index \<Rightarrow>
          and_then (ok_or NumberError (parse_i32 (take index arg))) (\<lambda>fd.
          and_then (slice_range (drop index arg) 1 (length (drop index arg))) (\<lambda>sz.
          and_then (ok_or NumberError (parse_u64 sz)) (\<lambda>file_size.
          Ok \<lparr>conf_in_fd = fd, conf_file_size = file_size\<rparr>)))
      | None \<Rightarrow> Err InvalidArgument)"

definition parse_out_fd :: "string \<Rightarrow> (OutFdAnnotation, worker_error) outcome" where
  "parse_out_fd arg = and_then (ok_or NumberError (parse_i32 arg)) (\<lambda>fd. Ok \<lparr>conf_out_fd = fd\<rparr>)"

definition worker_app :: App where
  "worker_app =
     \<lparr>app_values = [''in-fd'', ''out-fd''], app_required = [''authfs-root''], app_flags = [''debug''], app_positional = [],
      app_last = Some ''args''\<rparr>"

text \<open>clap ends the process when the line does not match the declaration.\<close>

definition worker_parse_args :: "clap \<Rightarrow> string list \<Rightarrow> (WorkerConfig, worker_error) outcome" where
  "worker_parse_args clap argv =
     and_then (ok_or WorkerUsage (clap worker_app argv)) (\<lambda>matches.
     and_then (unwrap (value_of matches ''authfs-root'')) (\<lambda>root.
     and_then (try_map parse_in_fd (values_of matches ''in-fd'')) (\<lambda>ins.
     and_then (try_map parse_out_fd (values_of matches ''out-fd'')) (\<lambda>outs.
     and_then (unwrap (given_values matches ''args'')) (\<lambda>args.
     Ok \<lparr>authfs_root = root, in_fds = ins, out_fds = outs, task_args = args,
         wc_debuggable = is_present matches ''debug''\<rparr>)))))"

definition authfs_args :: "WorkerConfig \<Rightarrow> string list" where
  "authfs_args config =
     [AUTHFS_BIN, authfs_root config] @
     concat (map (\<lambda>c. [''--remote-ro-file-unverified'',
         show_int (conf_in_fd c) @ '':'' @ show_int (conf_in_fd c) @ '':'' @ show_nat (conf_file_size c)])
       (in_fds config)) @
     concat (map (\<lambda>c. [''--remote-new-rw-file'', show_int (conf_out_fd c) @ '':'' @ show_int (conf_out_fd c)])
       (out_fds config))"

definition spawn_authfs :: "jail_env \<Rightarrow> WorkerConfig \<Rightarrow> nat jail_prog" where
  "spawn_authfs env config =
     bind_prog (jail_create env) (\<lambda>_.
     jail_run env AUTHFS_BIN (if wc_debuggable config then [1, 2] else []) (authfs_args config))"

text \<open>The polling loop, on the answers of \<open>is_fuse\<close> and of the clock (milliseconds since the
  start) it gets turn by turn; the list is the fuel.\<close>

fun wait_until_authfs_ready :: "((bool, io_error) outcome \<times> nat) list \<Rightarrow> (unit, worker_error) outcome" where
  "wait_until_authfs_ready [] = OutOfFuel"
| "wait_until_authfs_ready ((is_fuse, elapsed) # polls) =
     and_then (map_err WorkerIo is_fuse) (\<lambda>mounted.
     if mounted then Ok ()
     else if AUTHFS_SETUP_TIMEOUT_MS < elapsed then Err SetupTimeout
     else wait_until_authfs_ready polls)"

definition open_authfs_file ::
  "(string \<Rightarrow> bool \<Rightarrow> (int, io_error) outcome) \<Rightarrow> string \<Rightarrow> int \<Rightarrow> bool \<Rightarrow> (int, io_error) outcome" where
  "open_authfs_file open_path root basename writable = open_path (root @ ''/'' @ show_int basename) writable"

definition open_authfs_files_for_mapping ::
  "(string \<Rightarrow> bool \<Rightarrow> (int, io_error) outcome) \<Rightarrow> WorkerConfig \<Rightarrow> ((int \<times> int) list, io_error) outcome" where
  "open_authfs_files_for_mapping open_path config =
     and_then (try_map (\<lambda>c.
       and_then (open_authfs_file open_path (authfs_root config) (conf_in_fd c) False) (\<lambda>f.
       Ok (f, conf_in_fd c))) (in_fds config)) (\<lambda>ins.
     and_then (try_map (\<lambda>c.
       and_then (open_authfs_file open_path (authfs_root config) (conf_out_fd c) True) (\<lambda>f.
       Ok (f, conf_out_fd c))) (out_fds config)) (\<lambda>outs.
     Ok (ins @ outs)))"

definition spawn_jailed_task :: "jail_env \<Rightarrow> WorkerConfig \<Rightarrow> (int \<times> int) list \<Rightarrow> nat jail_prog" where
  "spawn_jailed_task env config fd_mapping =
     bind_prog (jail_create env) (\<lambda>_.
     bind_prog (ret (index_vec (task_args config) 0)) (\<lambda>program.
     jail_run_remap env program (fd_mapping @ (if wc_debuggable config then [(1, 1), (2, 2)] else []))
       (task_args config)))"

text \<open>\<open>main\<close>: authfs lives until the guard goes out of scope, after the task has ended or at the first
  error. The exit code of the task becomes the exit code of the worker.\<close>

definition worker_task ::
  "jail_env \<Rightarrow> ((bool, io_error) outcome \<times> nat) list \<Rightarrow> (string \<Rightarrow> bool \<Rightarrow> (int, io_error) outcome) \<Rightarrow>
   WorkerConfig \<Rightarrow> (jail_event list, (unit, minijail_error) outcome, worker_error) prog" where
  "worker_task env polls open_path config =
     bind_prog (ret (wait_until_authfs_ready polls)) (\<lambda>_.
     bind_prog (ret (map_err WorkerIo (open_authfs_files_for_mapping open_path config))) (\<lambda>fd_mapping.
     bind_prog (map_err_prog WorkerJail (spawn_jailed_task env config fd_mapping)) (\<lambda>jail.
     as_value (jail_wait env jail))))"

definition worker_main ::
  "jail_env \<Rightarrow> ((bool, io_error) outcome \<times> nat) list \<Rightarrow> (string \<Rightarrow> bool \<Rightarrow> (int, io_error) outcome) \<Rightarrow>
   clap \<Rightarrow> string list \<Rightarrow> (jail_event list, unit, worker_error) prog" where
  "worker_main env polls open_path clap argv =
     bind_prog (ret (worker_parse_args clap argv)) (\<lambda>config.
     bind_prog (map_err_prog WorkerJail (spawn_authfs env config)) (\<lambda>authfs_jail.
     bind_prog (kill_guard authfs_jail (worker_task env polls open_path config)) (\<lambda>jail_result.
     ret (map_err (\<lambda>e. case e of ReturnCode exit_code \<Rightarrow> WorkerExit exit_code | _ \<Rightarrow> WorkerJail e) jail_result))))"

section \<open>pvm_exec\<close>

definition FD_SERVER_BIN :: string where "FD_SERVER_BIN = ''/apex/com.android.virt/bin/fd_server''"

record ExecMatches =
  em_in_fd :: "string list"
  em_out_fd :: "string list"
  em_debug :: bool
  em_args :: "string list"

record ExecConfig =
  ec_args :: "string list"
  ec_metadata :: Metadata
  ec_debuggable :: bool

datatype exec_error = ExecNumber | ExecErrno errno | ExecBadFd int | ExecJail minijail_error
  | BinderCallFailed Status | ExecExit int

definition fd_server_args :: "Metadata \<Rightarrow> string list" where
  "fd_server_args metadata =
     [FD_SERVER_BIN] @
     concat (map (\<lambda>a. [''--ro-fds'', show_int (in_fd a)]) (input_fd_annotations metadata)) @
     concat (map (\<lambda>a. [''--rw-fds'', show_int (out_fd a)]) (output_fd_annotations metadata))"

definition spawn_fd_server :: "jail_env \<Rightarrow> Metadata \<Rightarrow> bool \<Rightarrow> nat jail_prog" where
  "spawn_fd_server env metadata debuggable =
     (let inheritable_fds = (if debuggable then [1, 2] else []) @
            map in_fd (input_fd_annotations metadata) @ map out_fd (output_fd_annotations metadata)
      in bind_prog (jail_create env) (\<lambda>_.
         jail_run env FD_SERVER_BIN inheritable_fds (fd_server_args metadata)))"

text \<open>The kernel: \<open>fcntl(fd, F_GETFD)\<close> and \<open>fstat(fd).st_size\<close>.\<close>

type_synonym fcntl_getfd = "int \<Rightarrow> (int, errno) outcome"
type_synonym fstat_size = "int \<Rightarrow> (int, errno) outcome"

definition exec_is_fd_valid :: "fcntl_getfd \<Rightarrow> int \<Rightarrow> (bool, exec_error) outcome" where
  "exec_is_fd_valid fcntl fd = and_then (map_err ExecErrno (fcntl fd)) (\<lambda>retval. Ok (0 \<le> retval))"

definition parse_arg_fd :: "fcntl_getfd \<Rightarrow> string \<Rightarrow> (int, exec_error) outcome" where
  "parse_arg_fd fcntl arg =
     and_then (ok_or ExecNumber (parse_i32 arg)) (\<lambda>fd.
     and_then (exec_is_fd_valid fcntl fd) (\<lambda>valid.
     if \<not> valid then Err (ExecBadFd fd) else Ok fd))"

definition exec_parse_args ::
  "fcntl_getfd \<Rightarrow> fstat_size \<Rightarrow> ExecMatches \<Rightarrow> (ExecConfig, exec_error) outcome" where
  "exec_parse_args fcntl fstat m =
     and_then (try_map (\<lambda>arg.
         and_then (parse_arg_fd fcntl arg) (\<lambda>fd.
         and_then (map_err ExecErrno (fstat fd)) (\<lambda>file_size.
         Ok \<lparr>in_fd = fd, in_file_size = file_size\<rparr>))) (em_in_fd m)) (\<lambda>ins.
     and_then (try_map (\<lambda>arg. and_then (parse_arg_fd fcntl arg) (\<lambda>fd. Ok \<lparr>out_fd = fd\<rparr>)) (em_out_fd m)) (\<lambda>outs.
     Ok \<lparr>ec_args = em_args m,
         ec_metadata = \<lparr>input_fd_annotations = ins, output_fd_annotations = outs\<rparr>,
         ec_debuggable = em_debug m\<rparr>))"

text \<open>
  \<open>main\<close>, with the binder call as a parameter: \<open>None\<close> is a service that cannot be reached, which
  panics. The call may start processes of its own in the other machine; what this one does is the
  trace. The exit status of the process is the error.
\<close>

definition exec_main ::
  "fcntl_getfd \<Rightarrow> fstat_size \<Rightarrow> jail_env \<Rightarrow> (string list \<Rightarrow> Metadata \<Rightarrow> (int, Status) outcome) option \<Rightarrow>
   ExecMatches \<Rightarrow> (jail_event list, unit, exec_error) prog" where
  "exec_main fcntl fstat env service m =
     bind_prog (ret (exec_parse_args fcntl fstat m)) (\<lambda>config.
     bind_prog (map_err_prog ExecJail (spawn_fd_server env (ec_metadata config) (ec_debuggable config))) (\<lambda>fd_server_jail.
     bind_prog (kill_guard fd_server_jail
       (bind_prog (ret (unwrap service)) (\<lambda>execute.
        ret (map_err BinderCallFailed (execute (ec_args config) (ec_metadata config)))))) (\<lambda>exit_code.
     if 0 < exit_code then ret (Err (ExecExit exit_code)) else ret (Ok ()))))"

section \<open>From one program to the next\<close>

text \<open>Descriptors and sizes as the kernel gives them.\<close>

definition metadata_ok :: "Metadata \<Rightarrow> bool" where
  "metadata_ok md \<longleftrightarrow>
     list_all (\<lambda>a. 0 \<le> in_fd a \<and> in_fd a \<le> int i32_max \<and> 0 \<le> in_file_size a \<and> in_file_size a \<le> int i64_max)
       (input_fd_annotations md) \<and>
     list_all (\<lambda>a. 0 \<le> out_fd a \<and> out_fd a \<le> int i32_max) (output_fd_annotations md)"

lemma find_char_append: "c \<notin> set a \<Longrightarrow> find_char c (a @ c # b) = Some (length a)"
  by (induction a) auto

lemma show_int_nonneg: "0 \<le> i \<Longrightarrow> show_int i = show_nat (nat i)"
  by (simp add: show_int_def)

lemma parse_in_fd_show:
  assumes "- int (i32_max + 1) \<le> fd" "fd \<le> int i32_max" "0 \<le> sz" "sz \<le> int i64_max"
  shows "parse_in_fd (show_int fd @ CHR '':'' # show_int sz) = Ok \<lparr>conf_in_fd = fd, conf_file_size = nat sz\<rparr>"
proof -
  have "nat sz < u64_limit" using assms(3,4) i64_max_less_u64_limit by linarith
  with assms show ?thesis
    by (simp add: parse_in_fd_def find_char_append parse_i32_show_int show_int_nonneg [of sz] parse_u64_show_nat)
qed

lemma parse_out_fd_show:
  "- int (i32_max + 1) \<le> fd \<Longrightarrow> fd \<le> int i32_max \<Longrightarrow> parse_out_fd (show_int fd) = Ok \<lparr>conf_out_fd = fd\<rparr>"
  by (simp add: parse_out_fd_def parse_i32_show_int)

text \<open>The options of the worker's command line.\<close>

definition worker_items :: "CompService \<Rightarrow> Metadata \<Rightarrow> cli_item list" where
  "worker_items cs md =
     ValueOpt ''authfs-root'' AUTHFS_MOUNTPOINT #
     map (\<lambda>a. ValueOpt ''in-fd'' (show_int (in_fd a) @ '':'' @ show_int (in_file_size a))) (input_fd_annotations md) @
     map (\<lambda>a. ValueOpt ''out-fd'' (show_int (out_fd a))) (output_fd_annotations md) @
     (if cs_debuggable cs then [FlagOpt ''debug''] else [])"

lemma build_worker_args_line:
  assumes "build_worker_args cs args md = Ok argv"
  shows "argv = command_line WORKER_BIN [] (worker_items cs md) (Some (task_bin cs # drop 1 args))"
  using assms
  by (cases args) (auto simp: build_worker_args_def worker_items_def command_line_def comp_def slice_range_def)

lemma worker_items_ordinary:
  assumes "metadata_ok md"
  shows "ordinary worker_app [] (worker_items cs md) (Some (task_bin cs # args))"
proof -
  have "plain AUTHFS_MOUNTPOINT" by (simp add: plain_def AUTHFS_MOUNTPOINT_def)
  with assms show ?thesis
    by (auto simp: ordinary_def worker_app_def worker_items_def list_all_iff metadata_ok_def plain_show_int
        plain_show_int [where w = "[]", simplified] item_values_map)
qed

lemma worker_parse_args_for:
  assumes clap: "clap_items clap" and md: "metadata_ok md" and argv: "build_worker_args cs args md = Ok argv"
  shows "worker_parse_args clap argv =
    Ok \<lparr>authfs_root = AUTHFS_MOUNTPOINT,
        in_fds = map (\<lambda>a. \<lparr>conf_in_fd = in_fd a, conf_file_size = nat (in_file_size a)\<rparr>) (input_fd_annotations md),
        out_fds = map (\<lambda>a. \<lparr>conf_out_fd = out_fd a\<rparr>) (output_fd_annotations md),
        task_args = task_bin cs # drop 1 args, wc_debuggable = cs_debuggable cs\<rparr>"
proof -
  let ?in = "\<lambda>a. show_int (in_fd a) @ '':'' @ show_int (in_file_size a)"
  have "app_ok worker_app" by (simp add: app_ok_def worker_app_def)
  with worker_items_ordinary [OF md] obtain m where m: "clap worker_app argv = Some m"
    "reads_back worker_app m [] (worker_items cs md) (Some (task_bin cs # drop 1 args))"
    using clap unfolding build_worker_args_line [OF argv] clap_items_def by blast
  then have vals: "values_of m ''authfs-root'' = [AUTHFS_MOUNTPOINT]"
    "values_of m ''in-fd'' = map ?in (input_fd_annotations md)"
    "values_of m ''out-fd'' = map (\<lambda>a. show_int (out_fd a)) (output_fd_annotations md)"
    "values_of m ''args'' = task_bin cs # drop 1 args" "is_present m ''debug'' = cs_debuggable cs"
    by (auto simp: reads_back_def worker_app_def worker_items_def item_values_map)
  have ins: "try_map (\<lambda>a. parse_in_fd (?in a)) (input_fd_annotations md) =
      Ok (map (\<lambda>a. \<lparr>conf_in_fd = in_fd a, conf_file_size = nat (in_file_size a)\<rparr>) (input_fd_annotations md))"
    by (rule try_map_Ok) (use md in \<open>auto simp: metadata_ok_def list_all_iff intro!: parse_in_fd_show\<close>)
  have outs: "try_map (\<lambda>a. parse_out_fd (show_int (out_fd a))) (output_fd_annotations md) =
      Ok (map (\<lambda>a. \<lparr>conf_out_fd = out_fd a\<rparr>) (output_fd_annotations md))"
    by (rule try_map_Ok) (use md in \<open>auto simp: metadata_ok_def list_all_iff intro!: parse_out_fd_show\<close>)
  show ?thesis
    by (simp add: worker_parse_args_def m(1) vals value_of_def given_values_def try_map_map ins [simplified] outs)
qed

text \<open>The task of the worker, for every line that compsvc writes and clap accepts.\<close>

lemma worker_line_no_dashes: "''--'' \<notin> set (concat (map item_words (worker_items cs md)))"
proof -
  have "''--'' \<noteq> show_int i @ w" for i w
    using show_nat_Cons [of "nat i"] show_nat_Cons [of "nat (- i)"] not_is_digit_sign [of "CHR ''-''"]
    by (auto simp: show_int_def)
  then have "''--'' \<noteq> show_int i @ CHR '':'' # w" "''--'' \<noteq> show_int i" for i w by (metis append_Nil2)+
  then show ?thesis by (auto simp: worker_items_def AUTHFS_MOUNTPOINT_def)
qed

lemma worker_parse_args_task:
  assumes "clap_last clap" and "build_worker_args cs args md = Ok argv" and "worker_parse_args clap argv = Ok config"
  shows "task_args config = task_bin cs # drop 1 args"
proof -
  from assms(3) obtain m where m: "clap worker_app argv = Some m" "task_args config = values_of m ''args''"
    by (auto simp: worker_parse_args_def and_then_Ok_iff given_values_def split: if_splits)
  have "values_of m ''args'' = tl (dropWhile (\<lambda>w. w \<noteq> ''--'') (tl argv))"
    using assms(1) m(1) unfolding clap_last_def by (auto simp: worker_app_def)
  also have "\<dots> = task_bin cs # drop 1 args"
    using last_words [OF worker_line_no_dashes] by (simp add: build_worker_args_line [OF assms(2)] command_line_def)
  finally show ?thesis using m(2) by simp
qed

section \<open>Inside the virtual machine\<close>

text \<open>The values of the options the worker writes for authfs.\<close>

definition ro_unverified_value :: "InFdAnnotation \<Rightarrow> string" where
  "ro_unverified_value c =
     show_int (conf_in_fd c) @ '':'' @ show_int (conf_in_fd c) @ '':'' @ show_nat (conf_file_size c)"

definition new_rw_value :: "OutFdAnnotation \<Rightarrow> string" where
  "new_rw_value c = show_int (conf_out_fd c) @ '':'' @ show_int (conf_out_fd c)"

definition authfs_items :: "WorkerConfig \<Rightarrow> cli_item list" where
  "authfs_items config =
     map (\<lambda>c. ValueOpt ''remote-ro-file-unverified'' (ro_unverified_value c)) (in_fds config) @
     map (\<lambda>c. ValueOpt ''remote-new-rw-file'' (new_rw_value c)) (out_fds config)"

lemma authfs_args_line: "authfs_args config = command_line AUTHFS_BIN [authfs_root config] (authfs_items config) None"
  by (simp add: authfs_args_def authfs_items_def command_line_def ro_unverified_value_def new_rw_value_def comp_def)

definition config_ok :: "WorkerConfig \<Rightarrow> bool" where
  "config_ok config \<longleftrightarrow>
     list_all (\<lambda>c. 0 \<le> conf_in_fd c \<and> conf_in_fd c \<le> int i32_max \<and> conf_file_size c < u64_limit) (in_fds config) \<and>
     list_all (\<lambda>c. 0 \<le> conf_out_fd c \<and> conf_out_fd c \<le> int i32_max) (out_fds config)"

lemma parse_ro_unverified_value:
  assumes "0 \<le> conf_in_fd c" "conf_in_fd c \<le> int i32_max" "conf_file_size c < u64_limit"
  shows "parse_remote_ro_file_unverified_option (ro_unverified_value c) =
    Ok \<lparr>rru_ino = nat (conf_in_fd c), rru_remote_id = conf_in_fd c, rru_file_size = conf_file_size c\<rparr>"
proof -
  have "nat (conf_in_fd c) < u64_limit" using assms(2) by (simp add: i32_max_def u64_limit_def)
  then show ?thesis
    using parse_remote_ro_file_unverified_show [of "nat (conf_in_fd c)" "conf_file_size c" "conf_in_fd c"] assms
    by (simp add: ro_unverified_value_def show_int_nonneg)
qed

lemma parse_new_rw_value:
  assumes "0 \<le> conf_out_fd c" "conf_out_fd c \<le> int i32_max"
  shows "parse_remote_new_rw_file_option (new_rw_value c) =
    Ok \<lparr>rrw_ino = nat (conf_out_fd c), rrw_remote_id = conf_out_fd c\<rparr>"
proof -
  have "nat (conf_out_fd c) < u64_limit" using assms(2) by (simp add: i32_max_def u64_limit_def)
  then show ?thesis
    using parse_remote_new_rw_file_show [of "nat (conf_out_fd c)" "conf_out_fd c"] assms
    by (simp add: new_rw_value_def show_int_nonneg)
qed

lemma Args_from_args_for:
  assumes clap: "clap_items clap" and ok: "config_ok config" and root: "plain (authfs_root config)"
  shows "Args_from_args clap (authfs_args config) =
    Ok \<lparr>args_mount_point = authfs_root config, remote_ro_file = [],
        remote_ro_file_unverified =
          map (\<lambda>c. \<lparr>rru_ino = nat (conf_in_fd c), rru_remote_id = conf_in_fd c, rru_file_size = conf_file_size c\<rparr>)
            (in_fds config),
        remote_new_rw_file =
          map (\<lambda>c. \<lparr>rrw_ino = nat (conf_out_fd c), rrw_remote_id = conf_out_fd c\<rparr>) (out_fds config),
        local_ro_file = [], local_ro_file_unverified = [], args_debug = False\<rparr>"
proof -
  have "app_ok authfs_app" by (simp add: app_ok_def authfs_app_def)
  moreover have "ordinary authfs_app [authfs_root config] (authfs_items config) None"
    using ok root
    by (auto simp: ordinary_def authfs_app_def authfs_items_def list_all_iff config_ok_def ro_unverified_value_def
        new_rw_value_def plain_show_int)
  ultimately obtain m where m: "clap authfs_app (authfs_args config) = Some m"
    "reads_back authfs_app m [authfs_root config] (authfs_items config) None"
    using clap unfolding authfs_args_line clap_items_def by blast
  then have vals: "values_of m ''remote-ro-file'' = []" "values_of m ''local-ro-file'' = []"
    "values_of m ''local-ro-file-unverified'' = []" "values_of m ''mount-point'' = [authfs_root config]"
    "values_of m ''remote-ro-file-unverified'' = map ro_unverified_value (in_fds config)"
    "values_of m ''remote-new-rw-file'' = map new_rw_value (out_fds config)" "\<not> is_present m ''debug''"
    by (auto simp: reads_back_def authfs_app_def authfs_items_def item_values_map)
  have "try_map (\<lambda>c. parse_remote_ro_file_unverified_option (ro_unverified_value c)) (in_fds config) =
      Ok (map (\<lambda>c. \<lparr>rru_ino = nat (conf_in_fd c), rru_remote_id = conf_in_fd c, rru_file_size = conf_file_size c\<rparr>)
        (in_fds config))"
    by (rule try_map_Ok) (use ok in \<open>simp add: config_ok_def list_all_iff parse_ro_unverified_value\<close>)
  moreover have "try_map (\<lambda>c. parse_remote_new_rw_file_option (new_rw_value c)) (out_fds config) =
      Ok (map (\<lambda>c. \<lparr>rrw_ino = nat (conf_out_fd c), rrw_remote_id = conf_out_fd c\<rparr>) (out_fds config))"
    by (rule try_map_Ok) (use ok in \<open>simp add: config_ok_def list_all_iff parse_new_rw_value\<close>)
  ultimately show ?thesis by (simp add: Args_from_args_def m(1) vals value_of_def try_map_map)
qed

text \<open>The files of the mount: inode and remote descriptor are the descriptor of the task.\<close>

lemma prepare_file_pool_for:
  assumes args: "args = \<lparr>args_mount_point = mp, remote_ro_file = [], remote_ro_file_unverified = u, remote_new_rw_file = w,
      local_ro_file = [], local_ro_file_unverified = [], args_debug = d\<rparr>"
    and dist: "distinct (map rru_ino u @ map rrw_ino w)"
  shows "\<exists>pool. prepare_file_pool dbg svc ffi args s = (Ok pool, s) \<and>
    (\<forall>c\<in>set u. pool (rru_ino c) = Some (RemoteUnverifiedReadonlyFile (rru_remote_id c) (rru_file_size c))) \<and>
    (\<forall>c\<in>set w. pool (rrw_ino c) = Some (RemoteVerifiedNewFile (rrw_remote_id c) MerkleLeaves_new)) \<and>
    dom pool = rru_ino ` set u \<union> rrw_ino ` set w"
proof -
  let ?f = "\<lambda>c. RemoteUnverifiedReadonlyFile (rru_remote_id c) (rru_file_size c)"
  let ?g = "\<lambda>c. RemoteVerifiedNewFile (rrw_remote_id c) MerkleLeaves_new"
  let ?p = "map_of (rev (map (\<lambda>c. (rru_ino c, ?f c)) u)) ++ map_of (rev (map (\<lambda>c. (rrw_ino c, ?g c)) w))"
  have none: "insert_configs ino mk pool [] s = (Ok pool, s)" for ino mk pool
    by (simp add: insert_configs_def)
  have res: "prepare_file_pool dbg svc ffi args s = (Ok ?p, s)"
    by (simp add: prepare_file_pool_def args none bind_prog_def
        insert_configs_pure [where g = ?f, OF new_config_remote_unverified_file_def [THEN fun_cong, simplified]]
        insert_configs_pure [where g = ?g, OF new_config_remote_new_verified_file_def [THEN fun_cong, simplified]])
  have du: "distinct (map fst (rev (map (\<lambda>c. (rru_ino c, ?f c)) u)))"
    and dw: "distinct (map fst (rev (map (\<lambda>c. (rrw_ino c, ?g c)) w)))"
    using dist by (simp_all add: rev_map [symmetric] comp_def)
  have "?p (rrw_ino c) = Some (?g c)" if "c \<in> set w" for c
    using map_of_is_SomeI [OF dw, of "rrw_ino c" "?g c"] that by (simp add: map_add_def)
  moreover have "?p (rru_ino c) = Some (?f c)" if "c \<in> set u" for c
  proof -
    have "rru_ino c \<notin> rrw_ino ` set w" using dist that by auto
    then have "map_of (rev (map (\<lambda>c. (rrw_ino c, ?g c)) w)) (rru_ino c) = None"
      by (auto simp: map_of_eq_None_iff)
    then show ?thesis
      using map_of_is_SomeI [OF du, of "rru_ino c" "?f c"] that by (simp add: map_add_def)
  qed
  moreover have "dom ?p = rru_ino ` set u \<union> rrw_ino ` set w"
    by (auto simp: dom_map_of_conv_image_fst image_image)
  ultimately show ?thesis using res by blast
qed

section \<open>Waiting for the file system\<close>

text \<open>
  Poll \<open>k\<close> comes after \<open>k\<close> sleeps of 50 ms. 202 polls are enough fuel: the last one is
  later than the time-out.
\<close>

lemma wait_polls:
  "j \<le> 201 \<Longrightarrow> 202 \<le> j + length polls \<Longrightarrow>
   (\<And>k. k < length polls \<Longrightarrow> fst (polls ! k) \<noteq> OutOfFuel \<and>
      AUTHFS_SETUP_POLL_INTERVAL_MS * (j + k) \<le> snd (polls ! k)) \<Longrightarrow>
   wait_until_authfs_ready polls \<noteq> OutOfFuel"
proof (induction polls arbitrary: j)
  case Nil
  then show ?case by simp
next
  case (Cons p polls)
  obtain r e where p: "p = (r, e)" by force
  have first: "r \<noteq> OutOfFuel" "50 * j \<le> e"
    using Cons.prems(3) [of 0] p by (simp_all add: AUTHFS_SETUP_POLL_INTERVAL_MS_def)
  have rest: "wait_until_authfs_ready polls \<noteq> OutOfFuel" if "e \<le> AUTHFS_SETUP_TIMEOUT_MS"
  proof (rule Cons.IH [of "Suc j"])
    show "Suc j \<le> 201" using that first(2) by (simp add: AUTHFS_SETUP_TIMEOUT_MS_def)
    show "202 \<le> Suc j + length polls" using Cons.prems(2) by simp
    show "fst (polls ! k) \<noteq> OutOfFuel \<and> AUTHFS_SETUP_POLL_INTERVAL_MS * (Suc j + k) \<le> snd (polls ! k)"
      if "k < length polls" for k
      using Cons.prems(3) [of "Suc k"] that by simp
  qed
  with first(1) p show ?case by (cases r) (auto simp: not_less)
qed

text \<open>
  C13: The worker's wait for the FUSE mount ends. Once 202 polls have been made, at least 50 ms
  apart, the loop has returned: the mount appeared, \<open>statfs\<close> failed or the time-out was
  reported.
\<close>

theorem wait_until_authfs_ready_returns:
  assumes "202 \<le> length polls"
    and "\<And>k. k < length polls \<Longrightarrow> fst (polls ! k) \<noteq> OutOfFuel \<and> AUTHFS_SETUP_POLL_INTERVAL_MS * k \<le> snd (polls ! k)"
  shows "wait_until_authfs_ready polls \<in> {Ok (), Err SetupTimeout} \<union> range (\<lambda>e. Err (WorkerIo e)) \<union> {Panic}"
proof -
  have "wait_until_authfs_ready polls \<noteq> OutOfFuel"
    using wait_polls [of 0 polls] assms by simp
  moreover have "wait_until_authfs_ready ps = Err e \<Longrightarrow> e \<in> {SetupTimeout} \<union> range WorkerIo" for ps e
    by (induction ps rule: wait_until_authfs_ready.induct)
       (auto split: if_splits simp: and_then_Err_iff elim: map_err.elims)
  ultimately show ?thesis by (cases "wait_until_authfs_ready polls") auto
qed

theorem wait_until_authfs_ready_returns_witness:
  "wait_until_authfs_ready (map (\<lambda>k. (Ok False, 50 * k)) [0..<202]) \<in>
     {Ok (), Err SetupTimeout} \<union> range (\<lambda>e. Err (WorkerIo e)) \<union> {Panic}"
  by (rule wait_until_authfs_ready_returns) (simp_all add: AUTHFS_SETUP_POLL_INTERVAL_MS_def del: upt_Suc)

section \<open>What the service executes\<close>

lemmas jail_prog_defs = bind_prog_def map_err_prog_def jail_create_def jail_run_def jail_run_remap_def jail_wait_def kill_guard_def as_value_def

text \<open>What each step adds to the trace.\<close>

lemma jail_run_remap_trace:
  "jail_run_remap env program fds argv tr = (r, tr') \<Longrightarrow>
   (if is_ok r then r = Ok (length (filter is_start tr)) \<and> tr' = tr @ [Started program fds argv] else tr' = tr)"
  by (auto simp: jail_run_remap_def split: outcome.splits)

lemma spawn_jailed_task_trace:
  assumes "spawn_jailed_task env config fds tr = (r, tr')"
  shows "if is_ok r
    then \<exists>argv0 task_fds. task_args config \<noteq> [] \<and> r = Ok (length (filter is_start tr)) \<and>
      tr' = tr @ [Started (hd (task_args config)) task_fds (task_args config)]
    else tr' = tr"
  using assms
  by (auto simp: spawn_jailed_task_def jail_create_def bind_prog_def index_vec_def hd_conv_nth
      dest!: jail_run_remap_trace split: outcome.splits if_splits)

lemma worker_task_trace:
  assumes "worker_task env polls open_path config tr = (r, tr')"
  shows "tr' = tr \<or> (\<exists>task_fds. tr' = tr @
    [Started (hd (task_args config)) task_fds (task_args config), Waited (length (filter is_start tr))])"
proof (cases "wait_until_authfs_ready polls")
  case (Ok u)
  show ?thesis
  proof (cases "open_authfs_files_for_mapping open_path config")
    case (Ok fds)
    obtain q tr1 where sp: "spawn_jailed_task env config fds tr = (q, tr1)" by fastforce
    with assms \<open>wait_until_authfs_ready polls = Ok u\<close> Ok spawn_jailed_task_trace [OF sp] show ?thesis
      by (cases q) (auto simp: worker_task_def bind_prog_def map_err_prog_def as_value_def jail_wait_def
          split: outcome.splits)
  qed (use assms Ok in \<open>simp_all add: worker_task_def bind_prog_def\<close>)
qed (use assms in \<open>simp_all add: worker_task_def bind_prog_def\<close>)

lemma kill_guard_trace:
  assumes "kill_guard j body tr = (r, tr')" and "r \<noteq> OutOfFuel"
  shows "\<exists>tr1. body tr = (r, tr1) \<and> tr' = tr1 @ [KillSent j]"
  using assms by (auto simp: kill_guard_def split: prod.splits outcome.splits)

lemma worker_main_trace:
  assumes run: "worker_main env polls open_path clap argv [] = (r, tr)" and fuel: "r \<noteq> OutOfFuel"
    and config: "worker_parse_args clap argv = Ok config"
  shows "tr = [] \<or>
    (\<exists>fds av. tr = [Started AUTHFS_BIN fds av, KillSent 0]) \<or>
    (\<exists>fds av task_fds. tr = [Started AUTHFS_BIN fds av,
       Started (hd (task_args config)) task_fds (task_args config), Waited 1, KillSent 0])"
proof -
  obtain q tr1 where sp: "spawn_authfs env config [] = (q, tr1)" by fastforce
  show ?thesis
  proof (cases q)
    case (Ok j)
    then obtain fds argv where start: "tr1 = [Started AUTHFS_BIN fds argv]" "j = 0"
      using sp
      by (auto simp: spawn_authfs_def bind_prog_def jail_create_def jail_run_def dest!: jail_run_remap_trace split: outcome.splits)
    obtain g tr2 where guard: "kill_guard j (worker_task env polls open_path config) tr1 = (g, tr2)" by fastforce
    have tr2: "tr = tr2" "g \<noteq> OutOfFuel"
      using run fuel config sp Ok guard
      by (auto simp: worker_main_def bind_prog_def map_err_prog_def split: outcome.splits)
    from kill_guard_trace [OF guard tr2(2)] obtain tr3 where
      "worker_task env polls open_path config tr1 = (g, tr3)" "tr2 = tr3 @ [KillSent j]" by blast
    with worker_task_trace [of env polls open_path config tr1 g tr3] start tr2(1) show ?thesis by auto
  qed (use run config sp in \<open>auto simp: worker_main_def spawn_authfs_def bind_prog_def map_err_prog_def jail_create_def
      jail_run_def dest!: jail_run_remap_trace split: outcome.splits\<close>)
qed

text \<open>What the service starts: its worker, with the command line it has built.\<close>

lemma comp_execute_starts:
  assumes "comp_execute env cs args md [] = (r, tr)" and "Started program fds argv \<in> set tr"
  shows "program = worker_bin cs \<and> build_worker_args cs args md = (Ok argv :: (string list, Status) outcome)"
proof (cases "build_worker_args cs args md :: (string list, Status) outcome")
  case (Ok wargs)
  obtain q tr1 where q: "jail_run env (worker_bin cs) (if cs_debuggable cs then [1, 2] else []) wargs [] = (q, tr1)" by fastforce
  then have "set tr \<subseteq> set tr1 \<union> {Waited j | j. True}"
    using assms(1) Ok
    by (cases "jail_new env 0"; cases q)
       (auto simp: comp_execute_def run_worker_in_jail_and_wait_def bind_prog_def jail_create_def jail_wait_def
          split: outcome.splits minijail_error.splits)
  with assms(2) jail_run_remap_trace [OF q [unfolded jail_run_def]] Ok show ?thesis by (auto split: if_splits)
qed (use assms in \<open>simp_all add: comp_execute_def bind_prog_def\<close>)

text \<open>
  C14: The compilation service runs no program of the client's choice, and authfs lives exactly as
  long as the task. For all arguments and annotations of a request and all answers of the system,
  the only program the service starts is its worker; and that worker, run on the command line the
  service gave it and split by a clap that gives the words after the first \<^verbatim>\<open>--\<close> to the trailing
  argument, has at its end started nothing, or authfs only, which it has then killed, or authfs and
  then the service's own task binary, with the client's arguments after the first, which it has
  waited for before it killed authfs.
\<close>

theorem worker_runs_only_task_bin:
  assumes clap: "clap_last clap"
    and service: "comp_execute senv cs args md [] = (r0, tr0)" "Started program worker_fds argv \<in> set tr0"
    and run: "worker_main env polls open_path clap argv [] = (r, tr)" and fuel: "r \<noteq> OutOfFuel"
  shows "program = worker_bin cs \<and>
    (tr = [] \<or>
     (\<exists>fds av. tr = [Started AUTHFS_BIN fds av, KillSent 0]) \<or>
     (\<exists>fds av task_fds. tr = [Started AUTHFS_BIN fds av,
        Started (task_bin cs) task_fds (task_bin cs # drop 1 args), Waited 1, KillSent 0]))"
proof -
  note started = comp_execute_starts [OF service]
  have "tr = [] \<or> (\<exists>fds av. tr = [Started AUTHFS_BIN fds av, KillSent 0]) \<or>
     (\<exists>fds av task_fds. tr = [Started AUTHFS_BIN fds av,
        Started (task_bin cs) task_fds (task_bin cs # drop 1 args), Waited 1, KillSent 0])"
  proof (cases "worker_parse_args clap argv")
    case (Ok config)
    then have task: "task_args config = task_bin cs # drop 1 args"
      by (rule worker_parse_args_task [OF clap conjunct2 [OF started]])
    from worker_main_trace [OF run fuel Ok] task show ?thesis by simp
  qed (use run in \<open>simp_all add: worker_main_def bind_prog_def\<close>)
  with started show ?thesis by blast
qed

definition sample_jails :: jail_env where
  "sample_jails = \<lparr>jail_new = (\<lambda>_. Ok ()), jail_start = (\<lambda>_ _ _. Ok ()), jail_end = (\<lambda>_. Err (ReturnCode 3))\<rparr>"

definition sample_request :: Metadata where
  "sample_request = \<lparr>input_fd_annotations = [\<lparr>in_fd = 5, in_file_size = 10\<rparr>], output_fd_annotations = []\<rparr>"

definition sample_service :: CompService where
  "sample_service = compsvc_parse_args ''/bin/dex2oat'' False"

lemma sample_service_fields:
  "worker_bin sample_service = WORKER_BIN" "task_bin sample_service = ''/bin/dex2oat''" "\<not> cs_debuggable sample_service"
  by (simp_all add: sample_service_def compsvc_parse_args_def)

lemma input_fd_annotations_sample:
  "input_fd_annotations sample_request = [\<lparr>in_fd = 5, in_file_size = 10\<rparr>]" "output_fd_annotations sample_request = []"
  by (simp_all add: sample_request_def)

lemma metadata_ok_sample: "metadata_ok sample_request"
  by (simp add: metadata_ok_def sample_request_def i32_max_def i64_max_def)

theorem worker_runs_only_task_bin_witness:
  "\<exists>r0 tr0 argv r tr. comp_execute sample_jails sample_service [''/bin/sh'', ''-x''] sample_request [] = (r0, tr0) \<and>
    Started WORKER_BIN [] argv \<in> set tr0 \<and>
    worker_main sample_jails [(Ok True, 0)] (\<lambda>_ _. Ok 9) long_options argv [] = (r, tr) \<and>
    (tr = [] \<or> (\<exists>fds av. tr = [Started AUTHFS_BIN fds av, KillSent 0]) \<or>
     (\<exists>fds av task_fds. tr = [Started AUTHFS_BIN fds av,
       Started ''/bin/dex2oat'' task_fds [''/bin/dex2oat'', ''-x''], Waited 1, KillSent 0]))"
proof -
  let ?args = "[''/bin/sh'', ''-x'']"
  obtain argv where argv: "build_worker_args sample_service ?args sample_request = (Ok argv :: (string list, Status) outcome)"
    by (simp add: build_worker_args_def slice_range_def)
  obtain r0 tr0 where service: "comp_execute sample_jails sample_service ?args sample_request [] = (r0, tr0)" by fastforce
  then have start: "Started WORKER_BIN [] argv \<in> set tr0"
    by (auto simp: comp_execute_def argv run_worker_in_jail_and_wait_def sample_jails_def jail_prog_defs
        sample_service_fields)
  obtain r tr where run: "worker_main sample_jails [(Ok True, 0)] (\<lambda>_ _. Ok 9) long_options argv [] = (r, tr)" by fastforce
  have "r \<noteq> OutOfFuel"
    using run
    by (auto simp: worker_main_def worker_parse_args_for [OF clap_items_long_options metadata_ok_sample argv] worker_task_def
        sample_jails_def spawn_authfs_def spawn_jailed_task_def jail_prog_defs open_authfs_files_for_mapping_def
        open_authfs_file_def input_fd_annotations_sample index_vec_def)
  from worker_runs_only_task_bin [OF clap_last_long_options service start run this] service start run show ?thesis
    by (auto simp: sample_service_fields)
qed

text \<open>
  C15: The file server lives exactly as long as the remote call. Whatever the descriptors, the
  system and the service do, \<^verbatim>\<open>pvm_exec\<close> that ends has started nothing, or it has started the file
  server with exactly the descriptors of the request and killed it, also when the call fails or
  the service cannot be reached.
\<close>

theorem exec_fd_server_lifetime:
  assumes "exec_main fcntl fstat env service m [] = (r, tr)" and "r \<noteq> OutOfFuel"
  shows "tr = [] \<or>
    (\<exists>config. exec_parse_args fcntl fstat m = Ok config \<and>
      tr = [Started FD_SERVER_BIN (map (\<lambda>fd. (fd, fd)) ((if ec_debuggable config then [1, 2] else []) @
              map in_fd (input_fd_annotations (ec_metadata config)) @
              map out_fd (output_fd_annotations (ec_metadata config)))) (fd_server_args (ec_metadata config)),
            KillSent 0])"
proof (cases "exec_parse_args fcntl fstat m")
  case (Ok config)
  obtain q tr1 where sp: "spawn_fd_server env (ec_metadata config) (ec_debuggable config) [] = (q, tr1)" by fastforce
  note start = sp [unfolded spawn_fd_server_def Let_def jail_run_def jail_create_def]
  show ?thesis
  proof (cases q)
    case (Ok j)
    let ?body = "bind_prog (ret (unwrap service)) (\<lambda>execute.
      ret (map_err BinderCallFailed (execute (ec_args config) (ec_metadata config))))"
    obtain g tr2 where guard: "kill_guard j ?body tr1 = (g, tr2)" by fastforce
    have tr2: "tr = tr2" "g \<noteq> OutOfFuel"
      using assms \<open>exec_parse_args fcntl fstat m = Ok config\<close> sp Ok guard
      by (auto simp: exec_main_def bind_prog_def [of "map_err_prog _ _"] bind_prog_def [of "kill_guard _ _"]
          map_err_prog_def split: outcome.splits if_splits)
    from kill_guard_trace [OF guard tr2(2)] obtain tr3 where body: "?body tr1 = (g, tr3)" "tr2 = tr3 @ [KillSent j]" by blast
    have "tr3 = tr1" using body(1) by (auto simp: bind_prog_def split: outcome.splits)
    with body(2) start Ok tr2(1) \<open>exec_parse_args fcntl fstat m = Ok config\<close> show ?thesis
      by (auto simp: bind_prog_def dest!: jail_run_remap_trace split: outcome.splits)
  qed (use assms start sp Ok in \<open>auto simp: exec_main_def bind_prog_def map_err_prog_def
      dest!: jail_run_remap_trace split: outcome.splits\<close>)
qed (use assms in \<open>simp_all add: exec_main_def bind_prog_def\<close>)

theorem exec_fd_server_lifetime_witness:
  "\<exists>r tr. exec_main (\<lambda>_. Ok 0) (\<lambda>_. Ok 10) sample_jails None
      \<lparr>em_in_fd = [show_int 5], em_out_fd = [], em_debug = False, em_args = [''x'']\<rparr> [] = (r, tr) \<and>
    (tr = [] \<or> (\<exists>argv. tr = [Started FD_SERVER_BIN [(5, 5)] argv, KillSent 0]))"
proof -
  let ?m = "\<lparr>em_in_fd = [show_int 5], em_out_fd = [], em_debug = False, em_args = [''x'']\<rparr>"
  have five: "parse_i32 (show_int 5) = Some 5" by (rule parse_i32_show_int) (simp_all add: i32_max_def)
  obtain r tr where run: "exec_main (\<lambda>_. Ok 0) (\<lambda>_. Ok 10) sample_jails None ?m [] = (r, tr)" by fastforce
  have p: "exec_parse_args (\<lambda>_. Ok 0) (\<lambda>_. Ok 10) ?m = Ok \<lparr>ec_args = [''x''], ec_metadata = sample_request, ec_debuggable = False\<rparr>"
    by (simp add: exec_parse_args_def parse_arg_fd_def exec_is_fd_valid_def five sample_request_def)
  have "r \<noteq> OutOfFuel"
    using run by (auto simp: exec_main_def p sample_jails_def spawn_fd_server_def jail_prog_defs Let_def)
  from exec_fd_server_lifetime [OF run this] run show ?thesis by (auto simp: p sample_request_def)
qed

lemma comp_execute_no_args: "comp_execute env cs [] md tr = (Panic, tr)"
  by (simp add: comp_execute_def build_worker_args_def slice_range_def bind_prog_def)

text \<open>
  The result of a request with arguments, for a jail that ends with \<open>r\<close>. A task that exits
  with a nonzero code is reported as a failed transaction, never as its exit code: the only
  value \<open>execute\<close> returns is 0.
\<close>

lemma comp_execute_result:
  assumes "r \<noteq> Panic" and "r \<noteq> OutOfFuel"
    and "build_worker_args cs args md = (Ok worker_args :: (string list, Status) outcome)"
    and "run_worker_in_jail_and_wait env cs worker_args tr = (r, tr')"
  shows "comp_execute env cs args md tr =
    (if is_ok r then Ok 0
     else Err (StatusOf (if \<exists>code. r = Err (ReturnCode code) then FAILED_TRANSACTION else UNKNOWN_ERROR)), tr')"
  using assms by (cases r) (auto simp: comp_execute_def split: minijail_error.splits)

end
