(* ===== verification/SampleService.thy ===== *)
theory SampleService
  imports AuthFs SampleHash
begin

text \<open>
  Concrete services on which the statements about remote files are applied: \<open>sample_rw\<close>
  serves descriptor 1 for writing, an empty file whose first write is short; \<open>sample_ro\<close>
  serves descriptor 1 read-only, the one-byte file \<open>[1]\<close> with its Merkle tree in
  descriptor 2.
\<close>

section \<open>Definitions\<close>

definition sample_rw :: FdService where
  "sample_rw =
     \<lparr>fd_pool = [1 \<mapsto> ReadWrite 1],
      open_files = [1 \<mapsto> \<lparr>contents = [], schedule = [SysOk, SysShort 1]\<rparr>]\<rparr>"

definition sample_ro :: FdService where
  "sample_ro =
     \<lparr>fd_pool = [1 \<mapsto> Readonly 1 (Some 2) None],
      open_files = [1 \<mapsto> \<lparr>contents = [1], schedule = []\<rparr>,
                    2 \<mapsto> \<lparr>contents = tree_bytes sample_hash [1], schedule = []\<rparr>]\<rparr>"

definition sample_ioctl :: verity_ioctl where
  "sample_ioctl fd metadata_type off n = Err ENODATA"

section \<open>The contracts hold\<close>

lemma sample_rw_writable: "served_writable 1 sample_rw"
  by (simp add: served_writable_def served_fine_def sample_rw_def config_file_def file_fine_def benign_def)

lemma sample_rw_content: "served_content 1 sample_rw = []"
  by (simp add: served_content_def sample_rw_def config_file_def)

lemma sample_tree_height: "tree_height (Suc 0) = 0"
  using tree_height_le_iff [of "Suc 0" 0] by (simp add: CHUNK_SIZE_def)

lemma sample_tree_length: "length (tree_bytes sample_hash [1]) = 4096"
  by (simp add: length_tree_bytes tree_pages_def level_pages_def sample_tree_height layer_def CHUNK_SIZE_def
      num_chunks_1 sample_root_def)

lemma sample_ro_with_tree: "served_with_tree 1 sample_ro"
  using sample_tree_length
  by (simp add: served_with_tree_def sample_ro_def file_fine_def benign_def i64_max_def)

lemma sample_ro_content: "served_content 1 sample_ro = [1]"
  by (simp add: served_content_def sample_ro_def config_file_def)

lemma sample_ro_tree: "served_tree 1 sample_ro = tree_bytes sample_hash [1]"
  by (simp add: served_tree_def sample_ro_def)

lemma sample_layer: "layer sample_hash [1] x = (if x = 0 then [1] else sample_root)"
  by (induction x) (auto simp: layer_Suc)

lemma sample_verity_pages: "verity_pages sample_hash [1] \<subseteq> {page [1] 0, zeros 4096}"
  using sample_pages by (auto simp: verity_pages_def sample_layer sample_root_pages)

lemma sample_verity_root: "verity_root sample_hash [1] = sample_root"
  using verity_root_top [OF sample_lib, of "[1]"] by (simp add: sample_tree_height sample_layer sample_root_pages sample_hash_at)

end
