(* ===== verification/AuthFsProps.thy ===== *)
theory AuthFsProps
  imports SampleService
begin

text \<open>
  Properties of the parts of authfs and fd_server: the Merkle tree builder computes the fs-verity
  digest whatever the order in which chunks are recorded, the walk of the verifier stays inside
  the tree, read-only files are isolated from all requests, a new file gives back what was written
  to it, also when several threads write, and two limits of the code: a file of at most one chunk cannot be verified with its
  fs-verity digest, and a cut inside a chunk trusts the service.
\<close>

section \<open>The builder, in any order\<close>

text \<open>Some chunks \<open>S\<close> of \<open>c\<close> have been recorded in the leaves.\<close>

definition recorded :: "(bytes \<Rightarrow> Sha256Hash) \<Rightarrow> bytes \<Rightarrow> nat set \<Rightarrow> MerkleLeaves \<Rightarrow> bool" where
  "recorded H c S t \<longleftrightarrow>
     length (leaves t) \<le> num_chunks c \<and> ml_file_size t \<le> length c \<and>
     (\<forall>i\<in>S. i < length (leaves t) \<and> leaves t ! i = H (page c i) \<and>
        min (length c) (CHUNK_SIZE * Suc i) \<le> ml_file_size t)"

lemma update_hash_recorded:
  assumes "recorded H c S t" and "i < num_chunks c" and "num_chunks c < u64_limit"
  shows "\<exists>t'. update_hash t i (H (page c i)) (min (length c) (CHUNK_SIZE * Suc i)) = Ok t' \<and>
    recorded H c (insert i S) t'"
  using assms by (auto simp: update_hash_def recorded_def Let_def vec_resize_def nth_append nth_list_update)
    (meson order_trans order_less_imp_le)

lemma record_chunks:
  assumes "num_chunks c < u64_limit"
  shows "recorded H c S t \<Longrightarrow> set is \<subseteq> {..<num_chunks c} \<Longrightarrow>
    \<exists>t'. try_fold (\<lambda>t i. update_hash t i (H (page c i)) (min (length c) (CHUNK_SIZE * Suc i))) t is =
        (Ok t' :: (MerkleLeaves, FsverityError) outcome) \<and>
      recorded H c (S \<union> set is) t'"
proof (induction "is" arbitrary: S t)
  case Nil
  then show ?case by simp
next
  case (Cons i "is")
  then have "i < num_chunks c" by simp
  from update_hash_recorded [OF Cons.prems(1) this assms]
  obtain t1 where "update_hash t i (H (page c i)) (min (length c) (CHUNK_SIZE * Suc i)) =
      (Ok t1 :: (MerkleLeaves, FsverityError) outcome)" "recorded H c (insert i S) t1" by blast
  with Cons.IH [of "insert i S" t1] Cons.prems(2) show ?case by simp
qed

lemma recorded_all:
  assumes "recorded H c {..<num_chunks c} t"
  shows "represents H t c"
proof (cases "c = []")
  case True
  with assms show ?thesis by (simp add: recorded_def represents_def)
next
  case False
  then have n: "num_chunks c - 1 < num_chunks c" using num_chunks_pos_iff by fastforce
  with assms have last: "num_chunks c - 1 < length (leaves t)"
    "min (length c) (CHUNK_SIZE * Suc (num_chunks c - 1)) \<le> ml_file_size t"
    unfolding recorded_def by blast+
  have "length c \<le> CHUNK_SIZE * num_chunks c" by (simp add: num_chunks_def flip: ceil_div_le_iff)
  moreover have "length (leaves t) \<le> num_chunks c" "ml_file_size t \<le> length c"
    using assms by (simp_all add: recorded_def)
  ultimately have "length (leaves t) = num_chunks c" "ml_file_size t = length c"
    using last n by simp_all
  then show ?thesis
    using assms by (auto simp: recorded_def represents_def nth_leaf_hashes intro!: nth_equalityI)
qed

text \<open>
  C5: The builder computes the fs-verity digest. Start from an empty tree and record the hash of
  every chunk of the file with \<open>update_hash\<close>, in any order and any number of times: the digest
  \<open>calculate_fsverity_digest\<close> computes level by level from the leaves is the digest of the
  recursive definition of fs-verity.
\<close>

theorem builder_any_order_digest:
  assumes H: "sha256_lib ffi H" and all: "set is = {..<num_chunks c}"
    and fits: "length c + 129 * CHUNK_SIZE < u64_limit"
  shows "and_then (try_fold (\<lambda>t i. update_hash t i (H (page c i)) (min (length c) (CHUNK_SIZE * Suc i)))
      MerkleLeaves_new is) (calculate_fsverity_digest False ffi) = Ok (fsverity_digest H c)"
proof -
  have "num_chunks c \<le> length c" by (simp add: num_chunks_def ceil_div_le_iff CHUNK_SIZE_def)
  then have "num_chunks c < u64_limit" using fits by linarith
  moreover have "recorded H c {} MerkleLeaves_new" by (simp add: recorded_def MerkleLeaves_new_def)
  ultimately obtain t where "try_fold (\<lambda>t i. update_hash t i (H (page c i)) (min (length c) (CHUNK_SIZE * Suc i)))
      MerkleLeaves_new is = (Ok t :: (MerkleLeaves, FsverityError) outcome)" "recorded H c {..<num_chunks c} t"
    using record_chunks [of c H "{}" MerkleLeaves_new "is"] all by auto
  then show ?thesis
    using calculate_fsverity_digest_correct [OF H recorded_all fits] by simp
qed

theorem builder_any_order_digest_witness:
  "and_then (try_fold (\<lambda>t i. update_hash t i (sample_hash (page (zeros 8000) i))
        (min (length (zeros 8000)) (CHUNK_SIZE * Suc i))) MerkleLeaves_new [1, 0, 1])
      (calculate_fsverity_digest False sample_ffi) = Ok (fsverity_digest sample_hash (zeros 8000))"
proof -
  have "num_chunks (zeros 8000) = 2" by (simp add: num_chunks_def ceil_div_def CHUNK_SIZE_def)
  then have "set [1, 0, 1] = {..<num_chunks (zeros 8000)}" by auto
  moreover have "length (zeros 8000) + 129 * CHUNK_SIZE < u64_limit" by (simp add: CHUNK_SIZE_def u64_limit_def)
  ultimately show ?thesis by (rule builder_any_order_digest [OF sample_lib])
qed

section \<open>The walk stays inside the tree\<close>

text \<open>
  C10: Bounds of the tree walk. For a chunk of a file of at most \<open>2 ^ 61\<close> bytes the walk is computed
  without overflow. It has one step per level, at most seven; every step reads a chunk of the tree
  that exists, at a hash that lies inside the chunk; and the last step is at the root, the first
  chunk of the tree.
\<close>

theorem walk_within_tree:
  assumes "i < ceil_div n CHUNK_SIZE" and "n \<le> 2 ^ 61"
  shows "\<exists>steps. walk_steps dbg i n = Ok steps \<and> length steps = Suc (tree_height n) \<and> length steps \<le> 7 \<and>
    fst (last steps) = 0 \<and>
    (\<forall>(node, hash_offset)\<in>set steps. node < sum (nodes_at n) {..tree_height n} \<and> hash_offset + HASH_SIZE \<le> CHUNK_SIZE)"
proof (intro exI conjI)
  have n: "0 < n" using assms(1) by (cases n) (simp_all add: ceil_div_def)
  show "walk_steps dbg i n = Ok (walk_plan n i)" by (rule walk_steps_plan [OF n assms(2,1)])
  show "length (walk_plan n i) = Suc (tree_height n)" by (simp add: walk_plan_def)
  then show "length (walk_plan n i) \<le> 7" using tree_height_le_6 [OF n assms(2)] by simp
  have "CHUNK_SIZE * i < n" using assms(1) by (simp add: less_ceil_div_iff)
  also have "n \<le> CHUNK_SIZE * 128 ^ Suc (tree_height n)" by (simp flip: tree_height_le_iff [OF n] del: power_Suc)
  finally have "i < 128 ^ Suc (tree_height n)" by (simp del: power_Suc)
  then show "fst (last (walk_plan n i)) = 0" by (simp add: walk_plan_def walk_node_def)
  have node: "walk_node n i x < sum (nodes_at n) {..tree_height n}" if x: "x \<le> tree_height n" for x
  proof -
    have "CHUNK_SIZE * (128 ^ Suc x * (i div 128 ^ Suc x)) \<le> CHUNK_SIZE * i"
      by (intro mult_le_mono2 times_div_less_eq_dividend)
    also have "\<dots> < n" using assms(1) by (simp add: less_ceil_div_iff)
    finally have "i div 128 ^ Suc x < nodes_at n x"
      by (simp add: nodes_at_def less_ceil_div_iff mult.assoc)
    moreover have "nodes_at n x + sum (nodes_at n) {Suc x..<Suc (tree_height n)} = sum (nodes_at n) {x..<Suc (tree_height n)}"
      using x sum.atLeast_Suc_lessThan [of x "Suc (tree_height n)" "nodes_at n"] by simp
    moreover have "sum (nodes_at n) {x..<Suc (tree_height n)} \<le> sum (nodes_at n) {..tree_height n}"
      by (rule sum_mono2) auto
    ultimately show ?thesis unfolding walk_node_def by linarith
  qed
  show "\<forall>(node, hash_offset)\<in>set (walk_plan n i).
      node < sum (nodes_at n) {..tree_height n} \<and> hash_offset + HASH_SIZE \<le> CHUNK_SIZE"
    using node hash_offset_less by (auto simp: walk_plan_def)
qed

theorem walk_within_tree_witness:
  "\<exists>steps. walk_steps True 5 30000 = Ok steps \<and> length steps \<le> 7 \<and> fst (last steps) = 0"
proof -
  have "5 < ceil_div 30000 CHUNK_SIZE" "(30000 :: nat) \<le> 2 ^ 61" by (simp_all add: less_ceil_div_iff CHUNK_SIZE_def)
  from walk_within_tree [OF this, of True] show ?thesis by blast
qed

section \<open>Files of at most one chunk\<close>

lemma walk_steps_small:
  assumes "0 < n" and "n \<le> CHUNK_SIZE"
  shows "walk_steps dbg 0 n = Ok [(0, 0)]"
proof -
  have "tree_height n \<le> 0" using assms by (subst tree_height_le_iff) simp_all
  moreover have "0 < ceil_div n CHUNK_SIZE" using assms by (simp add: less_ceil_div_iff)
  moreover have "n \<le> 2 ^ 61" using assms by (simp add: CHUNK_SIZE_def)
  ultimately show ?thesis
    using walk_steps_plan [OF assms(1)] by (simp add: walk_plan_def walk_node_def)
qed

text \<open>The check of the only chunk compares its hash with the first one of the first block of the
  tree, and returns the hash of that block.\<close>

lemma verity_check_small:
  assumes H: "sha256_lib ffi H" and n: "0 < n" "n \<le> CHUNK_SIZE"
    and res: "verity_check dbg rd ffi chunk 0 n s = (Ok h, s')"
  shows "\<exists>k b. rd 0 (zeros CHUNK_SIZE) s = (Ok (k, b), s') \<and> H (resize_bytes CHUNK_SIZE chunk) = take HASH_SIZE b \<and>
    hash_with_padding ffi b CHUNK_SIZE = Ok h"
proof -
  have "length chunk \<le> CHUNK_SIZE"
    using res by (auto simp: verity_check_def bind_prog_Ok_iff hash_with_padding_def and_then_Ok_iff u64_sub_def
        split: if_splits)
  then have "verity_step rd ffi (H (resize_bytes CHUNK_SIZE chunk)) (0, 0) s = (Ok h, s')"
    using res n by (auto simp: verity_check_def walk_steps_small hash_with_padding_hash [OF H] bind_prog_Ok_iff)
  then show ?thesis by (auto simp: verity_step_Ok_iff bind_prog_Ok_iff)
qed

text \<open>
  C28: A file of at most one chunk cannot be read with its fs-verity digest. The fs-verity root hash
  of such a file, which the builder computes and which a signature of the file covers, is the hash
  of its only chunk. The verifier takes the hash of the first chunk of a Merkle tree instead, so
  with the genuine root hash no read of the file is ever successful, whatever the service answers,
  unless the service finds a block with the same hash, or the file begins with the hash of a chunk
  the service may send.
\<close>

theorem small_file_never_verifies:
  assumes H: "sha256_lib ffi H" and c: "c \<noteq> []" "length c \<le> CHUNK_SIZE"
    and r: "vr_file_size r = length c" "vr_root_hash r = merkle_root H c"
    and nf: "\<not> forges H (served_blocks (RemoteMerkleTreeReader_read_chunk svc fd)) {page c 0}"
    and first: "take HASH_SIZE (page c 0) \<notin> H ` served_chunks (RemoteFileReader_read_chunk svc fd)"
  shows "fst (verified_read_chunk dbg (RemoteFileReader_read_chunk svc fd)
    (RemoteMerkleTreeReader_read_chunk svc fd) ffi r 0 buf s) \<noteq> Ok x"
proof
  let ?f = "RemoteFileReader_read_chunk svc fd" and ?t = "RemoteMerkleTreeReader_read_chunk svc fd"
  assume "fst (verified_read_chunk dbg ?f ?t ffi r 0 buf s) = Ok x"
  then obtain n b s1 s2 where "verified_read_chunk dbg ?f ?t ffi r 0 buf s = (Ok (n, b), s2)"
    by (cases x) (metis prod.collapse)
  with r obtain s1 where rd: "?f 0 buf s = (Ok (n, b), s1)"
    and check: "verity_check dbg ?t ffi (take n b) 0 (length c) s1 = (Ok (merkle_root H c), s2)"
    by (auto simp: verified_read_chunk_def bind_prog_Ok_iff map_err_prog_Ok_iff slice_range_def split: if_splits)
  from verity_check_small [OF H _ c(2) check] c(1) obtain k d where
    d: "?t 0 (zeros CHUNK_SIZE) s1 = (Ok (k, d), s2)" "H (resize_bytes CHUNK_SIZE (take n b)) = take HASH_SIZE d"
      "hash_with_padding ffi d CHUNK_SIZE = Ok (merkle_root H c)"
    by auto
  have "length d = CHUNK_SIZE" by (rule remote_tree.length_read [OF d(1) length_zeros])
  with d(3) c have "H d = H (page c 0)"
    by (simp add: hash_with_padding_hash [OF H] resize_bytes_same merkle_root_single)
  moreover have "d \<in> served_blocks ?t" using d(1) unfolding served_blocks_def by blast
  ultimately have "d = page c 0" using not_forgesD [OF nf] by blast
  moreover have "resize_bytes CHUNK_SIZE (take n b) \<in> served_chunks ?f"
    using rd unfolding served_chunks_def by blast
  ultimately show False using first d(2) by force
qed

lemma sample_hash_nonzero: "sample_hash b \<noteq> zeros 32"
proof -
  have "hd (sample_hash b) \<noteq> 0" by (simp add: sample_hash_def sample_root_def HASH_OF_4096_ZEROS_def)
  moreover have "hd (zeros 32) = 0" by (simp add: zeros_def)
  ultimately show ?thesis by metis
qed

theorem small_file_never_verifies_witness:
  "fst (verified_read_chunk True (RemoteFileReader_read_chunk (fd_server True sample_ioctl) 1)
    (RemoteMerkleTreeReader_read_chunk (fd_server True sample_ioctl) 1) sample_ffi
    \<lparr>vr_file_size = 1, vr_root_hash = merkle_root sample_hash [0]\<rparr> 0 (zeros CHUNK_SIZE) sample_ro) \<noteq> Ok (1, zeros CHUNK_SIZE)"
proof -
  have p: "page [0] 0 = zeros 4096" by (simp add: page_def resize_bytes_def vec_resize_def zeros_def CHUNK_SIZE_def numeral_eq_Suc)
  have "take HASH_SIZE (page [0] 0) = zeros 32" unfolding p by (simp add: zeros_def HASH_SIZE_def)
  then have "take HASH_SIZE (page [0] 0) \<notin> sample_hash ` B" for B using sample_hash_nonzero by (metis imageE)
  moreover have "\<not> forges sample_hash B {page [0] 0}" for B by (rule sample_no_forgery) (simp add: p)
  ultimately show ?thesis
    by (intro small_file_never_verifies [OF sample_lib, where c = "[0]"]) (simp_all add: CHUNK_SIZE_def)
qed

section \<open>A cut inside a chunk\<close>

lemma tail_fixed_pwrite:
  assumes z: "zero_hash_ok H" and m: "m = n mod CHUNK_SIZE" "0 < m" and n: "n < length c" and b: "length b = CHUNK_SIZE"
  shows "tail_fixed H n (pwrite c (n - m) (take m b)) =
    (leaf_hashes H c)[n div CHUNK_SIZE := H (take m b @ zeros (CHUNK_SIZE - m))]"
proof -
  let ?i = "n div CHUNK_SIZE" and ?c = "pwrite c (n - m) (take m b)"
  have off: "n - m = CHUNK_SIZE * ?i" "m < CHUNK_SIZE" using m(1) by (simp_all add: minus_mod_eq_mult_div)
  have "m \<le> n" using m(1) by simp
  then have len: "length ?c = length c" using n b off(2) by (simp add: length_pwrite)
  have src: "take m b \<noteq> []" "n - m + length (take m b) \<le> CHUNK_SIZE * Suc ?i"
    using m(2) b off by auto
  have "\<not> num_chunks c < Suc ?i"
    using n off(1) \<open>m \<le> n\<close> m(2) by (simp add: not_less Suc_le_eq num_chunks_def less_ceil_div_iff)
  with leaf_hashes_pwrite [OF z src(1) _ src(2), of c] off(1)
  have "leaf_hashes H ?c = (leaf_hashes H c)[?i := H (page ?c ?i)]" by simp
  moreover have "page ?c ?i = take m b @ drop m (page c ?i)"
    using page_pwrite_same [OF _ src(2), of 0 c] b off by simp
  ultimately show ?thesis
    using n m off(2) b len by (simp add: tail_fixed_def page_resize_tail [OF refl refl])
qed

text \<open>
  C27: A cut inside a chunk trusts the service. To cut a new file inside a chunk, \<open>resize\<close> reads the
  chunk back from the service and hashes the part that remains without comparing the chunk with
  its leaf. Whatever block \<open>b\<close> the service returns, the resize succeeds, and from then on the
  Merkle tree represents a file whose last bytes are those of \<open>b\<close> in place of those written.
\<close>

theorem resize_inside_chunk_trusts_service:
  assumes H: "sha256_lib ffi H" and z: "zero_hash_ok H" and lim: "n + CHUNK_SIZE < u64_limit"
    and rep: "represents H (merkle_tree st) c" and m: "m = n mod CHUNK_SIZE" "0 < m" and n: "n < length c"
    and rd: "RemoteFileEditor_read_chunk svc fd (n div CHUNK_SIZE) (zeros CHUNK_SIZE) (backing st) = (Ok (k, b), s1)" "m \<le> k"
    and rz: "RemoteFileEditor_resize svc fd n s1 = (Ok (), s2)"
  shows "\<exists>st'. editor_resize dbg (RemoteFileEditor_read_chunk svc fd) (RemoteFileEditor_resize svc fd) ffi n st = (Ok (), st') \<and>
    represents H (merkle_tree st') (take (n - m) c @ take m b)"
proof -
  let ?i = "n div CHUNK_SIZE" and ?c = "pwrite c (n - m) (take m b)"
  have b: "length b = CHUNK_SIZE"
    using remote.length_read [OF rd(1) [unfolded RemoteFileEditor_read_chunk_def] length_zeros] .
  have mc: "m \<le> CHUNK_SIZE" "m \<le> n" using m(1) by (simp_all add: order_less_imp_le)
  have i: "?i < num_chunks c" "Suc ?i < u64_limit"
    using n lim times_div_less_eq_dividend [of CHUNK_SIZE n] div_le_dividend [of n CHUNK_SIZE]
    by (simp_all add: num_chunks_def less_ceil_div_iff CHUNK_SIZE_def)
  define t where "t = \<lparr>leaves = (leaf_hashes H c)[?i := H (take m b @ zeros (CHUNK_SIZE - m))], ml_file_size = length c\<rparr>"
  have tail: "resize_tail dbg (RemoteFileEditor_read_chunk svc fd) ffi n (merkle_tree st) st =
      (Ok (), \<lparr>merkle_tree = t, backing = s1\<rparr>)"
    using rep rd b mc n i m H
    by (auto simp: resize_tail_def editor_read_chunk_def on_file_def update_tree_def update_hash_def
        represents_def MerkleLeaves_file_size_def debug_assert_def Let_def t_def)
  have "leaves t = tail_fixed H n ?c" unfolding t_def using tail_fixed_pwrite [OF z m n b] by simp
  from MerkleLeaves_resize_represents [OF z this lim]
  have "MerkleLeaves_resize t n = (Ok \<lparr>leaves = leaf_hashes H (resize_bytes n ?c), ml_file_size = n\<rparr> :: (MerkleLeaves, io_error) outcome)" .
  moreover have "resize_bytes n ?c = take (n - m) c @ take m b" "length (take (n - m) c @ take m b) = n"
    using b mc n m(2) by (auto simp: resize_bytes_def vec_resize_def pwrite_def length_pwrite)
  ultimately show ?thesis
    using tail rz by (auto simp: editor_resize_def on_file_def update_tree_def represents_def)
qed

text \<open>A service that changed the bytes \<open>1, 1\<close> it was given into \<open>9, 9\<close>.\<close>

definition sample_changed :: "FdService VerifiedFileEditor" where
  "sample_changed =
     \<lparr>merkle_tree = \<lparr>leaves = leaf_hashes sample_hash [1, 1], ml_file_size = 2\<rparr>,
      backing = \<lparr>fd_pool = [1 \<mapsto> ReadWrite 1], open_files = [1 \<mapsto> \<lparr>contents = [9, 9], schedule = []\<rparr>]\<rparr>\<rparr>"

lemma sample_changed_served:
  "served_writable 1 (backing sample_changed)" "served_content 1 (backing sample_changed) = [9, 9]"
  by (simp_all add: sample_changed_def served_writable_def served_fine_def served_content_def config_file_def
      file_fine_def benign_def i64_max_def)

theorem resize_inside_chunk_trusts_service_witness:
  "\<exists>st'. editor_resize True (RemoteFileEditor_read_chunk (fd_server True sample_ioctl) 1)
      (RemoteFileEditor_resize (fd_server True sample_ioctl) 1) sample_ffi 1 sample_changed = (Ok (), st') \<and>
    represents sample_hash (merkle_tree st') [9]"
proof -
  let ?svc = "fd_server True sample_ioctl"
  have c: "CHUNK_SIZE * (1 div CHUNK_SIZE) < length (served_content 1 (backing sample_changed))"
    "[9, 9] = take CHUNK_SIZE (drop (CHUNK_SIZE * (1 div CHUNK_SIZE)) (served_content 1 (backing sample_changed)))"
    by (simp_all add: sample_changed_served(2) CHUNK_SIZE_def)
  obtain s1 where rd: "RemoteFileEditor_read_chunk ?svc 1 (1 div CHUNK_SIZE) (zeros CHUNK_SIZE) (backing sample_changed) =
      (Ok (length [9, 9 :: u8], [9, 9] @ drop (length [9, 9 :: u8]) (zeros CHUNK_SIZE)), s1)" "served_writable 1 s1"
    using remote_editor.read_ok [OF sample_changed_served(1) c(1) length_zeros c(2), of True sample_ioctl]
    unfolding RemoteFileEditor_read_chunk_def by blast
  obtain s2 where rz: "RemoteFileEditor_resize ?svc 1 1 s1 = (Ok (), s2)"
    using remote_resize_ok [OF rd(2), of 1] by (auto simp: i64_max_def)
  have rep: "represents sample_hash (merkle_tree sample_changed) [1, 1]"
    by (simp add: represents_def sample_changed_def)
  have lim: "1 + CHUNK_SIZE < u64_limit" "1 = 1 mod CHUNK_SIZE" by (simp_all add: CHUNK_SIZE_def u64_limit_def)
  have n: "1 < length [1, 1 :: u8]" and k: "1 \<le> length [9, 9 :: u8]" by simp_all
  show ?thesis
    using resize_inside_chunk_trusts_service [OF sample_lib sample_zero_hash lim(1) rep lim(2) zero_less_one n rd(1) k rz, of True]
    by simp
qed

section \<open>Isolation of read-only files\<close>

text \<open>
  C9: Read-only descriptors of fd_server. Whatever sequence of requests clients send, the pool of
  descriptors stays as it is, and the file behind a descriptor that was not given to the server for
  writing keeps its contents.
\<close>

theorem fd_server_readonly_isolated:
  assumes "\<And>i. fd_pool s i \<noteq> Some (ReadWrite fd)"
  shows "fd_pool (serve_all dbg ioctl reqs s) = fd_pool s \<and>
    map_option contents (open_files (serve_all dbg ioctl reqs s) fd) = map_option contents (open_files s fd)"
  using serve_all_only_changes [of s dbg ioctl reqs] assms
  by (simp add: only_changes_def writable_fds_def fd_contents_def)

theorem fd_server_readonly_isolated_witness:
  "map_option contents (open_files (serve_all True sample_ioctl [WriteFile 1 [7] 0, ResizeFile 1 0, ReadFile 1 0 4] sample_ro) 1) =
     Some [1]"
  using fd_server_readonly_isolated [of sample_ro 1 True sample_ioctl "[WriteFile 1 [7] 0, ResizeFile 1 0, ReadFile 1 0 4]"]
  by (simp add: sample_ro_def)

text \<open>
  C8: Read-only files of the file system. Whatever sequence of requests the kernel sends, whatever
  the service answers, an inode that was read-only at the start keeps its configuration, and in
  the state reached it cannot be written or changed and can be opened for reading only.
\<close>

theorem authfs_readonly_protected:
  assumes "file_pool st inode = Some config" and "is_readonly config" and "st' = fs_handle_all dbg svc ffi fuel reqs st"
  shows "file_pool st' inode = Some config \<and>
    fs_write svc ffi fuel inode read_exact n off st' = (Err (OsError EBADF), st') \<and>
    fs_setattr dbg svc ffi inode attr_size valid st' = (Err (OsError EBADF), st') \<and>
    (is_ok (fst (fs_open inode flags st')) \<longleftrightarrow> flags AND O_ACCMODE = O_RDONLY)"
proof -
  have "same_config (Some config) (file_pool st' inode)"
    using fs_handle_all_same_pool [of st dbg svc ffi fuel reqs] assms(1)
    unfolding assms(3) same_pool_def by metis
  with assms(2) have "file_pool st' inode = Some config" by (cases config) simp_all
  then show ?thesis by (simp add: fs_readonly_protected [OF _ assms(2)])
qed

theorem authfs_readonly_protected_witness:
  "\<exists>st'. fs_write (fd_server True sample_ioctl) sample_ffi 1 7 (\<lambda>_. Ok [0]) 1 0 st' = (Err (OsError EBADF), st') \<and>
    file_pool st' 7 = Some (RemoteUnverifiedReadonlyFile 1 1)"
proof -
  let ?st = "AuthFs_new [7 \<mapsto> RemoteUnverifiedReadonlyFile 1 1] 0 sample_ro Map.empty"
  have "file_pool ?st 7 = Some (RemoteUnverifiedReadonlyFile 1 1)" "is_readonly (RemoteUnverifiedReadonlyFile 1 1)"
    by (simp_all add: AuthFs_new_def)
  from authfs_readonly_protected [OF this refl, where dbg = True and svc = "fd_server True sample_ioctl" and ffi = sample_ffi
      and fuel = 1 and reqs = "[FsWrite 7 [3] 0, FsRead 7 1 0]" and read_exact = "\<lambda>_. Ok [0]" and n = 1 and off = 0]
  show ?thesis by blast
qed

section \<open>A new file gives back what was written\<close>

text \<open>
  C7: Round trip through the file system. A new file is backed by a writable descriptor of fd_server
  whose system calls do not fail. A FUSE write at any offset writes the whole buffer, after which a
  FUSE read of any range returns that range of the old contents overwritten with the buffer (a gap
  reads as zeros), and the tree represents the same contents.
\<close>

theorem new_file_write_read:
  assumes H: "sha256_lib ffi H" and z: "zero_hash_ok H" and fuel: "CHUNK_SIZE \<le> fuel"
    and pool: "file_pool st inode = Some (RemoteVerifiedNewFile fid tree)" and rep: "represents H tree c"
    and s: "served_writable fid (remote st)" "served_content fid (remote st) = c"
    and lim: "off + length buf \<le> i64_max" "off' < u64_limit"
  shows "\<exists>st1 st2 tree'. fs_write (fd_server dbg ioctl) ffi fuel inode (\<lambda>_. Ok buf) (length buf) off st = (Ok (length buf), st1) \<and>
    file_pool st1 inode = Some (RemoteVerifiedNewFile fid tree') \<and> represents H tree' (pwrite c off buf) \<and>
    fs_read dbg (fd_server dbg ioctl) ffi vec_write inode k off' (st1, []) =
      (Ok (min k (length (pwrite c off buf) - off')), (st2, take k (drop off' (pwrite c off buf))))"
proof -
  let ?c = "pwrite c off buf"
  have "editor_in_step H (served_content fid) (served_writable fid) \<lparr>merkle_tree = tree, backing = remote st\<rparr> c"
    using rep s by (simp add: editor_in_step_def)
  from remote_editor.editor_write_at_ok [OF H z lim(1) fuel this, of dbg ioctl] obtain e where
    e: "editor_write_at (remote_read_chunk (fd_server dbg ioctl) fid) (RemoteFileEditor_write_at (fd_server dbg ioctl) fid)
        ffi fuel buf off \<lparr>merkle_tree = tree, backing = remote st\<rparr> = (Ok (length buf), e)"
      "represents H (merkle_tree e) ?c" "served_writable fid (backing e)" "served_content fid (backing e) = ?c"
    by (auto simp: editor_in_step_def)
  let ?st = "st\<lparr>remote := backing e, file_pool := (file_pool st)(inode \<mapsto> RemoteVerifiedNewFile fid (merkle_tree e))\<rparr>"
  have "length ?c \<le> i64_max"
    using e(3,4) by (auto simp: served_writable_def served_fine_def served_content_def config_file_def file_fine_def)
  then have "length ?c < u64_limit" using i64_max_less_u64_limit by linarith
  then obtain s2 where "read_chunks vec_write (remote_read_chunk (fd_server dbg ioctl) fid) (length ?c) off' k
      (backing e, []) = (Ok (min k (length ?c - off')), (s2, take k (drop off' ?c)))"
    using read_chunks_complete [OF remote_reader.complete_content _ lim(2), of ?c fid "backing e" dbg ioctl k "[]"]
      e(4) served_writable_fine [OF e(3)] by auto
  moreover have "ml_file_size (merkle_tree e) = length ?c" using e(2) by (simp add: represents_def)
  ultimately have "fs_read dbg (fd_server dbg ioctl) ffi vec_write inode k off' (?st, []) =
      (Ok (min k (length ?c - off')), (?st\<lparr>remote := s2\<rparr>, take k (drop off' ?c)))"
    by (simp add: fs_read_def on_fst_def on_remote_def bind_prog_def RemoteFileEditor_read_chunk_def [abs_def]
        MerkleLeaves_file_size_def)
  moreover have "fs_write (fd_server dbg ioctl) ffi fuel inode (\<lambda>_. Ok buf) (length buf) off st = (Ok (length buf), ?st)"
    using pool e(1) by (simp add: fs_write_def with_editor_def RemoteFileEditor_read_chunk_def [abs_def])
  ultimately show ?thesis using e(2) by (intro exI conjI) auto
qed

theorem new_file_write_read_witness:
  "\<exists>st1 st2. fs_write (fd_server True sample_ioctl) sample_ffi CHUNK_SIZE 7 (\<lambda>_. Ok [5, 6]) (length [5, 6 :: u8]) 1
      (AuthFs_new [7 \<mapsto> RemoteVerifiedNewFile 1 MerkleLeaves_new] 0 sample_rw Map.empty) = (Ok 2, st1) \<and>
    fs_read True (fd_server True sample_ioctl) sample_ffi vec_write 7 10 0 (st1, []) = (Ok 3, (st2, [0, 5, 6]))"
proof -
  let ?st = "AuthFs_new [7 \<mapsto> RemoteVerifiedNewFile 1 MerkleLeaves_new] 0 sample_rw Map.empty"
  have st: "file_pool ?st 7 = Some (RemoteVerifiedNewFile 1 MerkleLeaves_new)" "served_writable 1 (remote ?st)"
    "served_content 1 (remote ?st) = []"
    by (simp_all add: AuthFs_new_def sample_rw_writable sample_rw_content)
  have lim: "1 + length [5, 6 :: u8] \<le> i64_max" "0 < u64_limit" by (simp_all add: i64_max_def u64_limit_def)
  have "pwrite [] 1 [5, 6] = [0, 5, 6 :: u8]" by (simp add: pwrite_def zeros_def)
  with new_file_write_read [OF sample_lib sample_zero_hash order_refl st(1) represents_new st(2,3) lim, of True sample_ioctl 10]
  show ?thesis by (auto simp: numeral_2_eq_2 numeral_3_eq_3)
qed

text \<open>
  C6: Concurrent writes. Several threads write to the same new file; since the lock of the tree is
  taken once per piece, their pieces interleave in any way. On the service of the repository, with
  system calls that do not fail, every interleaving succeeds. At the end each byte of the served
  file that some write covers is the byte one of these writes has there, every other byte is the
  old one, and the Merkle tree represents exactly the contents of the file.
\<close>

theorem concurrent_writes_represented:
  assumes H: "sha256_lib ffi H" and z: "zero_hash_ok H" and fuel: "CHUNK_SIZE \<le> fuel"
    and st: "editor_in_step H (served_content fid) (served_writable fid) st c" and run: "interleaving ws run"
    and lim: "\<And>wc. wc \<in> set ws \<Longrightarrow> write_end wc \<le> i64_max"
  shows "\<exists>st'. editor_pieces (RemoteFileEditor_read_chunk (fd_server dbg ioctl) fid)
      (RemoteFileEditor_write_at (fd_server dbg ioctl) fid) ffi fuel ws run st = (Ok (), st') \<and>
    represents H (merkle_tree st') (served_content fid (backing st')) \<and>
    (\<forall>p. (\<exists>wc\<in>set ws. covers wc p \<and> byte_at (served_content fid (backing st')) p = snd wc ! (p - fst wc)) \<or>
      (\<forall>wc\<in>set ws. \<not> covers wc p) \<and> byte_at (served_content fid (backing st')) p = byte_at c p)"
  using remote_editor.concurrent_writes_in_step [OF H z fuel st run lim, of dbg ioctl] byte_at_interleaving [OF run, of _ c]
  by (fastforce simp: RemoteFileEditor_read_chunk_def editor_in_step_def)

theorem concurrent_writes_represented_witness:
  "\<exists>st'. editor_pieces (RemoteFileEditor_read_chunk (fd_server True sample_ioctl) 1)
      (RemoteFileEditor_write_at (fd_server True sample_ioctl) 1) sample_ffi CHUNK_SIZE
      [(0, [7, 8]), (1, [9])] [(1, 1, 1), (0, 0, 2)] (VerifiedFileEditor_new sample_rw) = (Ok (), st') \<and>
    represents sample_hash (merkle_tree st') (served_content 1 (backing st'))"
proof -
  have st: "editor_in_step sample_hash (served_content 1) (served_writable 1) (VerifiedFileEditor_new sample_rw) []"
    by (simp add: editor_in_step_def VerifiedFileEditor_new_def represents_new sample_rw_writable sample_rw_content)
  have run: "interleaving [(0, [7, 8]), (1, [9])] [(1, 1, 1), (0, 0, 2)]"
    by (simp add: interleaving_def chunk_plan_single CHUNK_SIZE_def upt_rec)
  have lim: "write_end wc \<le> i64_max" if "wc \<in> set [(0, [7, 8]), (1, [9])]" for wc :: write_call
    using that by (auto simp: write_end_def i64_max_def)
  from concurrent_writes_represented [OF sample_lib sample_zero_hash order_refl st run lim, of True sample_ioctl]
  show ?thesis by blast
qed

end
