(* ===== verification/Crosvm.thy ===== *)
theory Crosvm
  imports Text
begin

text \<open>
  \<^verbatim>\<open>virtmanager/src/config.rs\<close> and \<^verbatim>\<open>virtmanager/src/crosvm.rs\<close>: the configuration
  of a virtual machine, the command line of the \<^verbatim>\<open>crosvm\<close> process that runs it, and the
  instance that goes with the process.

  The \<open>serde\<close> reader of a configuration file, the duplication of a file descriptor and the
  creation of a process are parameters (record \<open>Env\<close>). A child process is alive, killed (the
  signal was sent) or gone. Sending the signal can fail, which is logged and leaves the child as it
  is; \<open>vi_kill_error\<close> records that this message was logged for the instance. A callback is named by
  a number.

  The lemmas: the command line determines the configuration it was built from.
\<close>

section \<open>Configuration\<close>

record DiskImage =
  di_image :: string
  di_writable :: bool

record VmConfig =
  kernel :: "string option"
  initrd :: "string option"
  params :: "string option"
  bootloader :: "string option"
  disks :: "DiskImage list"

datatype vm_error = NeitherBootloaderNorKernel | BootloaderAndKernel | LoadError | SpawnError

definition validate :: "VmConfig \<Rightarrow> (unit, vm_error) outcome" where
  "validate config =
     (if bootloader config = None \<and> kernel config = None then Err NeitherBootloaderNorKernel
      else if bootloader config \<noteq> None \<and> (kernel config \<noteq> None \<or> initrd config \<noteq> None) then Err BootloaderAndKernel
      else Ok ())"

text \<open>What the manager asks of its surroundings; \<open>'f\<close> is the type of open files.\<close>

record 'f Command =
  cmd_program :: string
  cmd_args :: "string list"
  cmd_stdout :: "'f option"

record 'f Env =
  try_clone :: "'f \<Rightarrow> 'f option"
  from_reader :: "'f \<Rightarrow> VmConfig option"
  spawn :: "'f Command \<Rightarrow> bool"

definition VmConfig_load :: "('f, 'z) Env_scheme \<Rightarrow> 'f \<Rightarrow> (VmConfig, vm_error) outcome" where
  "VmConfig_load env f = ok_or LoadError (from_reader env f)"

section \<open>Instances\<close>

type_synonym Cid = nat

datatype SharedChild = Alive | Killed | Exited

record VmInstance =
  vi_child :: SharedChild
  vi_cid :: Cid
  requester_uid :: nat
  requester_sid :: string
  requester_debug_pid :: int
  vi_running :: bool
  vi_callbacks :: "nat list"
  vi_kill_error :: bool

definition VmInstance_new :: "SharedChild \<Rightarrow> Cid \<Rightarrow> nat \<Rightarrow> string \<Rightarrow> int \<Rightarrow> VmInstance" where
  "VmInstance_new child c uid sid pid =
     \<lparr>vi_child = child, vi_cid = c, requester_uid = uid, requester_sid = sid, requester_debug_pid = pid,
      vi_running = True, vi_callbacks = [], vi_kill_error = False\<rparr>"

definition CROSVM_PATH :: string where "CROSVM_PATH = ''/apex/com.android.virt/bin/crosvm''"

definition opt_arg :: "string \<Rightarrow> string option \<Rightarrow> string list" where
  "opt_arg flag v = (case v of Some x \<Rightarrow> [flag, x] | None \<Rightarrow> [])"

definition disk_args :: "DiskImage \<Rightarrow> string list" where
  "disk_args disk = [if di_writable disk then ''--rwdisk'' else ''--disk'', di_image disk]"

definition crosvm_command :: "VmConfig \<Rightarrow> Cid \<Rightarrow> 'f option \<Rightarrow> 'f Command" where
  "crosvm_command config c log_fd =
     \<lparr>cmd_program = CROSVM_PATH,
      cmd_args = [''run'', ''--disable-sandbox'', ''--cid'', show_nat c]
        @ (case log_fd of Some _ \<Rightarrow> [] | None \<Rightarrow> [''--serial=type=sink''])
        @ opt_arg ''--bios'' (bootloader config)
        @ opt_arg ''--initrd'' (initrd config)
        @ opt_arg ''--params'' (params config)
        @ concat (map disk_args (disks config))
        @ (case kernel config of Some k \<Rightarrow> [k] | None \<Rightarrow> []),
      cmd_stdout = log_fd\<rparr>"

definition run_vm :: "('f, 'z) Env_scheme \<Rightarrow> VmConfig \<Rightarrow> Cid \<Rightarrow> 'f option \<Rightarrow> (SharedChild, vm_error) outcome" where
  "run_vm env config c log_fd =
     and_then (validate config) (\<lambda>_.
     if spawn env (crosvm_command config c log_fd) then Ok Alive else Err SpawnError)"

text \<open>
  \<open>VmInstance::start\<close> up to the thread it spawns, which is the component of the manager's
  state that holds the phase of \<open>monitor\<close>.
\<close>

definition VmInstance_start ::
  "('f, 'z) Env_scheme \<Rightarrow> VmConfig \<Rightarrow> Cid \<Rightarrow> 'f option \<Rightarrow> nat \<Rightarrow> string \<Rightarrow> int \<Rightarrow> (VmInstance, vm_error) outcome" where
  "VmInstance_start env config c log_fd uid sid pid =
     and_then (run_vm env config c log_fd) (\<lambda>child. Ok (VmInstance_new child c uid sid pid))"

text \<open>The monitor thread: waiting for the child, then about to call the callbacks, then done.\<close>

datatype MonitorPhase = Waiting | Notifying | Finished

definition monitor_store :: "VmInstance \<Rightarrow> VmInstance" where
  "monitor_store i = i\<lparr>vi_running := False\<rparr>"

definition callback_on_died :: "VmInstance \<Rightarrow> (nat \<times> int) list" where
  "callback_on_died i = map (\<lambda>callback. (callback, as_i32 (vi_cid i))) (vi_callbacks i)"

definition callbacks_add :: "nat \<Rightarrow> VmInstance \<Rightarrow> VmInstance" where
  "callbacks_add callback i = i\<lparr>vi_callbacks := vi_callbacks i @ [callback]\<rparr>"

text \<open>\<open>kill\<close>, with the answer of the system call.\<close>

definition vm_kill :: "bool \<Rightarrow> VmInstance \<Rightarrow> VmInstance" where
  "vm_kill kill_ok i =
     (if kill_ok then i\<lparr>vi_child := (case vi_child i of Alive \<Rightarrow> Killed | c \<Rightarrow> c)\<rparr>
      else i\<lparr>vi_kill_error := True\<rparr>)"

section \<open>The command line\<close>

text \<open>Reading the arguments back, in the order in which they are written.\<close>

fun read_flag :: "string \<Rightarrow> string list \<Rightarrow> string option \<times> string list" where
  "read_flag flag (a # x # rest) = (if a = flag then (Some x, rest) else (None, a # x # rest))"
| "read_flag flag rest = (None, rest)"

fun read_disks :: "string list \<Rightarrow> DiskImage list \<times> string list" where
  "read_disks (a # x # rest) =
     (if a = ''--rwdisk'' \<or> a = ''--disk''
      then case read_disks rest of (ds, r) \<Rightarrow> (\<lparr>di_image = x, di_writable = (a = ''--rwdisk'')\<rparr> # ds, r)
      else ([], a # x # rest))"
| "read_disks rest = ([], rest)"

definition read_args :: "bool \<Rightarrow> string list \<Rightarrow> nat option \<times> VmConfig" where
  "read_args logged as =
     (let (b, r1) = read_flag ''--bios'' (drop (if logged then 4 else 5) as);
          (i, r2) = read_flag ''--initrd'' r1;
          (p, r3) = read_flag ''--params'' r2;
          (ds, r4) = read_disks r3
      in (parse_u64 (as ! 3),
          \<lparr>kernel = (case r4 of [k] \<Rightarrow> Some k | _ \<Rightarrow> None), initrd = i, params = p, bootloader = b, disks = ds\<rparr>))"

text \<open>The rest after a flag's place does not start with that flag and another argument.\<close>

definition not_flag :: "string \<Rightarrow> string list \<Rightarrow> bool" where
  "not_flag flag as \<longleftrightarrow> (case as of a # x # r \<Rightarrow> a \<noteq> flag | _ \<Rightarrow> True)"

lemma read_flag_opt_arg: "not_flag flag rest \<Longrightarrow> read_flag flag (opt_arg flag v @ rest) = (v, rest)"
  by (cases "(flag, rest)" rule: read_flag.cases) (auto simp: opt_arg_def not_flag_def split: option.splits)

lemma not_flag_opt_arg: "flag \<noteq> flag' \<Longrightarrow> not_flag flag rest \<Longrightarrow> not_flag flag (opt_arg flag' v @ rest)"
  by (auto simp: not_flag_def opt_arg_def split: option.splits)

lemma not_flag_disks:
  "flag \<notin> {''--rwdisk'', ''--disk''} \<Longrightarrow> not_flag flag rest \<Longrightarrow> not_flag flag (concat (map disk_args ds) @ rest)"
  by (cases ds) (auto simp: not_flag_def disk_args_def)

lemma not_flag_kernel: "not_flag flag (case k of Some x \<Rightarrow> [x] | None \<Rightarrow> [])"
  by (simp add: not_flag_def split: option.splits)

lemma read_disks_args:
  "not_flag ''--rwdisk'' rest \<Longrightarrow> not_flag ''--disk'' rest \<Longrightarrow>
   read_disks (concat (map disk_args ds) @ rest) = (ds, rest)"
proof (induction ds)
  case Nil
  then show ?case by (cases rest rule: read_disks.cases) (auto simp: not_flag_def)
next
  case (Cons d ds)
  then show ?case by (auto simp: disk_args_def)
qed

text \<open>
  C23: The command line of a virtual machine. The CID and the whole configuration can be read
  back from the arguments passed to \<open>crosvm\<close>: two configurations never give the same arguments, no
  image is passed under another option's flag, and writable disks are kept apart.
\<close>

theorem crosvm_command_roundtrip:
  assumes "c < 2 ^ 32"
  shows "read_args (log_fd \<noteq> None) (cmd_args (crosvm_command config c log_fd)) = (Some c, config)"
proof -
  let ?k = "case kernel config of Some k \<Rightarrow> [k] | None \<Rightarrow> []"
  have c: "c < u64_limit" using assms by (simp add: u64_limit_def)
  have "drop (if log_fd \<noteq> None then 4 else 5) (cmd_args (crosvm_command config c log_fd)) =
      opt_arg ''--bios'' (bootloader config) @ opt_arg ''--initrd'' (initrd config) @
      opt_arg ''--params'' (params config) @ concat (map disk_args (disks config)) @ ?k"
    by (simp add: crosvm_command_def eval_nat_numeral split: option.splits)
  moreover have "cmd_args (crosvm_command config c log_fd) ! 3 = show_nat c"
    by (simp add: crosvm_command_def eval_nat_numeral)
  ultimately show ?thesis
    by (simp add: read_args_def read_flag_opt_arg not_flag_opt_arg not_flag_disks not_flag_kernel read_disks_args
        parse_u64_show_nat [OF c] split: option.splits)
qed

definition sample_config :: VmConfig where
  "sample_config =
     \<lparr>kernel = Some ''k'', initrd = None, params = Some ''p'', bootloader = None,
      disks = [\<lparr>di_image = ''d'', di_writable = True\<rparr>]\<rparr>"

theorem crosvm_command_roundtrip_witness:
  "read_args True (cmd_args (crosvm_command sample_config 10 (Some (0 :: nat)))) = (Some 10, sample_config)"
  using crosvm_command_roundtrip [of 10 "Some (0 :: nat)" sample_config] by simp

end
