(* ===== verification/VirtManager.thy ===== *)
theory VirtManager
  imports Crosvm "HOL-Library.Multiset"
begin

text \<open>
  \<^verbatim>\<open>virtmanager/src/aidl.rs\<close>: the manager of virtual machines. The state holds the
  fields of \<open>State\<close> and what they refer to: the instances (an \<open>Arc<VmInstance>\<close> is an index
  into \<open>instances\<close>), the phase of each instance's monitor thread, the handles clients hold,
  and the history of the callbacks that were registered and called. A handle is the binder object
  \<open>VirtualMachine\<close> of an instance. Binder destroys it when neither a client nor the manager refers to
  it, which kills the child; \<^verbatim>\<open>VmHandles\<close> shows that reference counting does exactly this. A
  reference passed to \<open>debugHoldVmRef\<close> may also be an object of the client's own.

  Every method runs under the lock of the state, so a run is a sequence of method calls, drops
  of handles, and steps of children and monitor threads.

  The lemmas: the invariant of every run, unique CIDs, no live machine without a handle unless its
  kill has failed, the listing of machines, and who is notified when a machine dies.
\<close>

section \<open>Definitions\<close>

text \<open>A reference to an \<open>IVirtualMachine\<close>; for a foreign object, the result of its \<open>getCid\<close>.\<close>

datatype VmRef = OwnVm nat | ForeignVm "(int, StatusCode) outcome"

record Manager =
  next_cid :: Cid
  vms :: "nat list"
  debug_held_vms :: "VmRef list"
  instances :: "VmInstance list"
  monitors :: "MonitorPhase list"
  handles :: "nat list"
  registrations :: "(nat \<times> nat) list"
  died_calls :: "(nat \<times> nat \<times> int) list"

definition FIRST_GUEST_CID :: Cid where "FIRST_GUEST_CID = 10"

definition State_default :: Manager where
  "State_default =
     \<lparr>next_cid = FIRST_GUEST_CID, vms = [], debug_held_vms = [], instances = [], monitors = [],
      handles = [], registrations = [], died_calls = []\<rparr>"

text \<open>\<open>Weak::strong_count\<close> is positive: a handle or the monitor thread holds the instance.\<close>

definition handle_alive :: "Manager \<Rightarrow> nat \<Rightarrow> bool" where
  "handle_alive s a \<longleftrightarrow> a \<in> set (handles s) \<or> OwnVm a \<in> set (debug_held_vms s)"

definition upgrades :: "Manager \<Rightarrow> nat \<Rightarrow> bool" where
  "upgrades s a \<longleftrightarrow> handle_alive s a \<or> monitors s ! a \<noteq> Finished"

definition state_vms :: "Manager \<Rightarrow> VmInstance list" where
  "state_vms s = map (\<lambda>a. instances s ! a) (filter (upgrades s) (vms s))"

definition add_vm :: "nat \<Rightarrow> Manager \<Rightarrow> Manager" where
  "add_vm a s = s\<lparr>vms := filter (upgrades s) (vms s) @ [a]\<rparr>"

definition debug_hold_vm :: "VmRef \<Rightarrow> Manager \<Rightarrow> Manager" where
  "debug_hold_vm v s = s\<lparr>debug_held_vms := debug_held_vms s @ [v]\<rparr>"

definition getCid :: "Manager \<Rightarrow> VmRef \<Rightarrow> (int, StatusCode) outcome" where
  "getCid s v = (case v of OwnVm a \<Rightarrow> Ok (as_i32 (vi_cid (instances s ! a))) | ForeignVm r \<Rightarrow> r)"

fun position :: "('a \<Rightarrow> bool) \<Rightarrow> 'a list \<Rightarrow> nat option" where
  "position p [] = None"
| "position p (x # xs) = (if p x then Some 0 else map_option Suc (position p xs))"

definition swap_remove :: "nat \<Rightarrow> 'a list \<Rightarrow> 'a list" where
  "swap_remove i xs = butlast (xs[i := last xs])"

definition debug_drop_vm :: "int \<Rightarrow> Manager \<Rightarrow> VmRef option \<times> Manager" where
  "debug_drop_vm c s =
     (case position (\<lambda>v. getCid s v = Ok c) (debug_held_vms s) of
        None \<Rightarrow> (None, s)
      | Some pos \<Rightarrow>
          (Some (debug_held_vms s ! pos), s\<lparr>debug_held_vms := swap_remove pos (debug_held_vms s)\<rparr>))"

definition allocate_cid :: "(Manager, Cid, StatusCode) prog" where
  "allocate_cid s =
     (let c = next_cid s in
      if next_cid s + 1 < 2 ^ 32 then (Ok c, s\<lparr>next_cid := next_cid s + 1\<rparr>) else (Err UNKNOWN_ERROR, s))"

text \<open>The caller of a binder method; the SID may be missing or not valid UTF-8.\<close>

datatype Sid = MissingSid | InvalidSid | Sid string

record Caller =
  calling_uid :: nat
  calling_sid :: Sid
  calling_pid :: int

definition start_vm ::
  "('f, 'z) Env_scheme \<Rightarrow> 'f \<Rightarrow> Cid \<Rightarrow> 'f option \<Rightarrow> nat \<Rightarrow> string \<Rightarrow> int \<Rightarrow> (VmInstance, StatusCode) outcome" where
  "start_vm env config_file c log_fd uid sid pid =
     and_then (map_err (\<lambda>_. BAD_VALUE) (VmConfig_load env config_file)) (\<lambda>config.
     map_err (\<lambda>_. UNKNOWN_ERROR) (VmInstance_start env config c log_fd uid sid pid))"

text \<open>The new instance comes with its monitor thread; \<open>VirtualMachine::create\<close> makes the handle.\<close>

definition new_instance :: "VmInstance \<Rightarrow> Manager \<Rightarrow> Manager" where
  "new_instance i s = s\<lparr>instances := instances s @ [i], monitors := monitors s @ [Waiting]\<rparr>"

definition VirtualMachine_create :: "nat \<Rightarrow> Manager \<Rightarrow> Manager" where
  "VirtualMachine_create a s = s\<lparr>handles := handles s @ [a]\<rparr>"

definition clone_log :: "('f, 'z) Env_scheme \<Rightarrow> 'f option \<Rightarrow> ('f option, StatusCode) outcome" where
  "clone_log env log_fd =
     (case log_fd of
        None \<Rightarrow> Ok None
      | Some fd \<Rightarrow> and_then (ok_or UNKNOWN_ERROR (try_clone env fd)) (\<lambda>fd'. Ok (Some fd')))"

fun sid_string :: "Sid \<Rightarrow> (string, StatusCode) outcome" where
  "sid_string (Sid sid) = Ok sid"
| "sid_string InvalidSid = Err BAD_VALUE"
| "sid_string MissingSid = Err UNKNOWN_ERROR"

definition startVm ::
  "('f, 'z) Env_scheme \<Rightarrow> Caller \<Rightarrow> 'f \<Rightarrow> 'f option \<Rightarrow> (Manager, nat, StatusCode) prog" where
  "startVm env caller config_fd log_fd =
     bind_prog (ret (clone_log env log_fd)) (\<lambda>log_fd.
     bind_prog (ret (sid_string (calling_sid caller))) (\<lambda>requester_sid.
     bind_prog allocate_cid (\<lambda>c.
     bind_prog (ret (start_vm env config_fd c log_fd (calling_uid caller) requester_sid (calling_pid caller))) (\<lambda>i s.
       let a = length (instances s); s1 = new_instance i s; s2 = add_vm a s1
       in (Ok a, VirtualMachine_create a s2)))))"

definition DEBUG_ALLOWED_UIDS :: "nat list" where "DEBUG_ALLOWED_UIDS = [0, 2000]"

definition debug_access_allowed :: "Caller \<Rightarrow> bool" where
  "debug_access_allowed caller = (calling_uid caller \<in> set DEBUG_ALLOWED_UIDS)"

record VirtualMachineDebugInfo =
  dbg_cid :: int
  dbg_requesterUid :: int
  dbg_requesterSid :: string
  dbg_requesterPid :: int
  dbg_running :: bool

definition debug_info :: "VmInstance \<Rightarrow> VirtualMachineDebugInfo" where
  "debug_info vm =
     \<lparr>dbg_cid = as_i32 (vi_cid vm), dbg_requesterUid = as_i32 (requester_uid vm), dbg_requesterSid = requester_sid vm,
      dbg_requesterPid = requester_debug_pid vm, dbg_running = vi_running vm\<rparr>"

definition debugListVms :: "Caller \<Rightarrow> (Manager, VirtualMachineDebugInfo list, StatusCode) prog" where
  "debugListVms caller s =
     (if \<not> debug_access_allowed caller then (Err PERMISSION_DENIED, s)
      else (Ok (map debug_info (state_vms s)), s))"

definition debugHoldVmRef :: "Caller \<Rightarrow> VmRef \<Rightarrow> (Manager, unit, StatusCode) prog" where
  "debugHoldVmRef caller vmref s =
     (if \<not> debug_access_allowed caller then (Err PERMISSION_DENIED, s) else (Ok (), debug_hold_vm vmref s))"

text \<open>The reference that is returned goes to the client.\<close>

definition give_handle :: "VmRef option \<Rightarrow> Manager \<Rightarrow> Manager" where
  "give_handle v s = (case v of Some (OwnVm a) \<Rightarrow> s\<lparr>handles := handles s @ [a]\<rparr> | _ \<Rightarrow> s)"

definition debugDropVmRef :: "Caller \<Rightarrow> int \<Rightarrow> (Manager, VmRef option, StatusCode) prog" where
  "debugDropVmRef caller c s =
     (if \<not> debug_access_allowed caller then (Err PERMISSION_DENIED, s)
      else case debug_drop_vm c s of (v, s') \<Rightarrow> (Ok v, give_handle v s'))"

definition isRunning :: "nat \<Rightarrow> Manager \<Rightarrow> bool" where
  "isRunning a s = vi_running (instances s ! a)"

definition update_instance :: "nat \<Rightarrow> (VmInstance \<Rightarrow> VmInstance) \<Rightarrow> Manager \<Rightarrow> Manager" where
  "update_instance a f s = s\<lparr>instances := (instances s)[a := f (instances s ! a)]\<rparr>"

definition registerCallback :: "nat \<Rightarrow> nat \<Rightarrow> Manager \<Rightarrow> Manager" where
  "registerCallback a callback s =
     (update_instance a (callbacks_add callback) s)\<lparr>registrations := registrations s @ [(a, callback)]\<rparr>"

text \<open>\<open>Drop::drop\<close> of a handle, with the answer to the kill.\<close>

definition VirtualMachine_drop :: "bool \<Rightarrow> nat \<Rightarrow> Manager \<Rightarrow> Manager" where
  "VirtualMachine_drop kill_ok a s = update_instance a (vm_kill kill_ok) s"

text \<open>A client drops one reference; the object is destroyed with the last reference to it.\<close>

definition drop_handle :: "bool \<Rightarrow> nat \<Rightarrow> Manager \<Rightarrow> Manager" where
  "drop_handle kill_ok a s =
     (let s' = s\<lparr>handles := remove1 a (handles s)\<rparr>
      in if handle_alive s' a then s' else VirtualMachine_drop kill_ok a s')"

text \<open>The monitor thread: \<open>wait\<close> has returned; then the callbacks are called.\<close>

definition monitor_died :: "nat \<Rightarrow> Manager \<Rightarrow> Manager" where
  "monitor_died a s = (update_instance a monitor_store s)\<lparr>monitors := (monitors s)[a := Notifying]\<rparr>"

definition monitor_notify :: "nat \<Rightarrow> Manager \<Rightarrow> Manager" where
  "monitor_notify a s =
     s\<lparr>monitors := (monitors s)[a := Finished],
       died_calls := died_calls s @ map (Pair a) (callback_on_died (instances s ! a))\<rparr>"

section \<open>Runs\<close>

text \<open>
  \<open>wait_fails\<close> says whether waiting for a child may end with an error, which the monitor
  thread treats like the end of the child.
\<close>

inductive vm_step :: "bool \<Rightarrow> Manager \<Rightarrow> Manager \<Rightarrow> bool" for wait_fails where
  step_start: "startVm (env :: nat Env) caller config_fd log_fd s = (r, s') \<Longrightarrow> vm_step wait_fails s s'"
| step_hold: "(\<And>a. v = OwnVm a \<Longrightarrow> a \<in> set (handles s)) \<Longrightarrow> debugHoldVmRef caller v s = (r, s') \<Longrightarrow> vm_step wait_fails s s'"
| step_drop_held: "debugDropVmRef caller c s = (r, s') \<Longrightarrow> vm_step wait_fails s s'"
| step_clone: "a \<in> set (handles s) \<Longrightarrow> vm_step wait_fails s (s\<lparr>handles := handles s @ [a]\<rparr>)"
| step_drop: "a \<in> set (handles s) \<Longrightarrow> vm_step wait_fails s (drop_handle kill_ok a s)"
| step_register: "a \<in> set (handles s) \<Longrightarrow> vm_step wait_fails s (registerCallback a callback s)"
| step_exit: "a < length (instances s) \<Longrightarrow> vm_step wait_fails s (update_instance a (\<lambda>i. i\<lparr>vi_child := Exited\<rparr>) s)"
| step_died: "a < length (instances s) \<Longrightarrow> monitors s ! a = Waiting \<Longrightarrow>
    vi_child (instances s ! a) = Exited \<or> wait_fails \<Longrightarrow> vm_step wait_fails s (monitor_died a s)"
| step_notify: "a < length (instances s) \<Longrightarrow> monitors s ! a = Notifying \<Longrightarrow> vm_step wait_fails s (monitor_notify a s)"

inductive vm_run :: "bool \<Rightarrow> Manager \<Rightarrow> Manager \<Rightarrow> bool" for wait_fails where
  vm_refl: "vm_run wait_fails s s"
| vm_next: "vm_run wait_fails s s1 \<Longrightarrow> vm_step wait_fails s1 s2 \<Longrightarrow> vm_run wait_fails s s2"

definition refs_ok :: "Manager \<Rightarrow> bool" where
  "refs_ok s \<longleftrightarrow>
     length (monitors s) = length (instances s) \<and>
     (\<forall>a. a \<in> set (vms s) \<or> handle_alive s a \<longrightarrow> a < length (instances s))"

definition cids_ok :: "Manager \<Rightarrow> bool" where
  "cids_ok s \<longleftrightarrow>
     FIRST_GUEST_CID \<le> next_cid s \<and> next_cid s < 2 ^ 32 \<and> distinct (map vi_cid (instances s)) \<and>
     (\<forall>i\<in>set (instances s). FIRST_GUEST_CID \<le> vi_cid i \<and> vi_cid i < next_cid s)"

definition children_ok :: "Manager \<Rightarrow> bool" where
  "children_ok s \<longleftrightarrow> (\<forall>a<length (instances s).
     (vi_child (instances s ! a) = Alive \<longrightarrow> handle_alive s a \<or> vi_kill_error (instances s ! a)) \<and>
     (vi_kill_error (instances s ! a) \<longrightarrow> \<not> handle_alive s a))"

definition vms_ok :: "Manager \<Rightarrow> bool" where
  "vms_ok s \<longleftrightarrow> distinct (vms s) \<and> (\<forall>a<length (instances s). upgrades s a \<longrightarrow> a \<in> set (vms s))"

definition vm_inv :: "Manager \<Rightarrow> bool" where
  "vm_inv s \<longleftrightarrow> refs_ok s \<and> cids_ok s \<and> children_ok s \<and> vms_ok s"

lemmas vm_inv_simps = vm_inv_def refs_ok_def cids_ok_def children_ok_def vms_ok_def upgrades_def handle_alive_def

lemma mset_swap_remove:
  assumes i: "i < length xs"
  shows "mset (swap_remove i xs) = mset xs - {#xs ! i#}"
proof -
  from i have ne: "xs \<noteq> []" by auto
  then have ne': "xs[i := last xs] \<noteq> []" by simp
  have l: "last (xs[i := last xs]) = last xs" using ne by (simp add: last_list_update)
  have "mset (xs[i := last xs]) = add_mset (last xs) (mset xs - {#xs ! i#})" using i by (simp add: mset_update)
  moreover have "mset (butlast (xs[i := last xs]) @ [last xs]) = mset (xs[i := last xs])"
    using append_butlast_last_id [OF ne'] l by simp
  ultimately show ?thesis by (simp add: swap_remove_def)
qed

lemma set_swap_remove:
  assumes "i < length xs"
  shows "insert (xs ! i) (set (swap_remove i xs)) = set xs"
proof -
  have "add_mset (xs ! i) (mset (swap_remove i xs)) = mset xs" using assms by (simp add: mset_swap_remove)
  then have "set_mset (add_mset (xs ! i) (mset (swap_remove i xs))) = set_mset (mset xs)" by (rule arg_cong)
  then show ?thesis by simp
qed

lemma position_Some: "position p xs = Some i \<Longrightarrow> i < length xs \<and> p (xs ! i)"
  by (induction xs arbitrary: i) (auto split: if_splits)

lemma position_None: "position p xs = None \<longleftrightarrow> (\<forall>x\<in>set xs. \<not> p x)"
  by (induction xs) auto

lemma vm_inv_default: "vm_inv State_default"
  by (simp add: vm_inv_simps State_default_def FIRST_GUEST_CID_def)

lemma update_instance_simps [simp]:
  "length (instances (update_instance a f s)) = length (instances s)"
  "handle_alive (update_instance a f s) b = handle_alive s b"
  "upgrades (update_instance a f s) b = upgrades s b"
  "vms (update_instance a f s) = vms s" "monitors (update_instance a f s) = monitors s"
  "handles (update_instance a f s) = handles s" "debug_held_vms (update_instance a f s) = debug_held_vms s"
  "next_cid (update_instance a f s) = next_cid s" "registrations (update_instance a f s) = registrations s"
  "died_calls (update_instance a f s) = died_calls s"
  by (simp_all add: update_instance_def handle_alive_def upgrades_def)

lemma nth_update_instance:
  "a < length (instances s) \<Longrightarrow> instances (update_instance a f s) ! b = (if b = a then f (instances s ! a) else instances s ! b)"
  by (simp add: update_instance_def nth_list_update)

lemma cids_ok_nth:
  "cids_ok s \<longleftrightarrow>
     FIRST_GUEST_CID \<le> next_cid s \<and> next_cid s < 2 ^ 32 \<and>
     (\<forall>a b. a < length (instances s) \<longrightarrow> b < length (instances s) \<longrightarrow> vi_cid (instances s ! a) = vi_cid (instances s ! b) \<longrightarrow> a = b) \<and>
     (\<forall>a<length (instances s). FIRST_GUEST_CID \<le> vi_cid (instances s ! a) \<and> vi_cid (instances s ! a) < next_cid s)"
  unfolding cids_ok_def distinct_conv_nth by (auto simp: all_set_conv_all_nth)

text \<open>Changing one instance, if the CID stays and no child comes to life.\<close>

lemma cids_ok_update:
  assumes "a < length (instances s)" and "\<And>i. vi_cid (f i) = vi_cid i"
  shows "cids_ok (update_instance a f s) = cids_ok s"
proof -
  have "vi_cid (instances (update_instance a f s) ! b) = vi_cid (instances s ! b)" for b
    using assms by (simp add: nth_update_instance)
  then show ?thesis by (simp add: cids_ok_nth)
qed

lemma refs_ok_update [simp]: "refs_ok (update_instance a f s) = refs_ok s"
  and vms_ok_update [simp]: "vms_ok (update_instance a f s) = vms_ok s"
  by (simp_all add: refs_ok_def vms_ok_def)

lemma children_ok_update:
  assumes "a < length (instances s)" and "children_ok s" and "\<And>i. vi_child (f i) = Alive \<Longrightarrow> vi_child i = Alive"
    and "\<And>i. vi_kill_error (f i) = vi_kill_error i"
  shows "children_ok (update_instance a f s)"
  using assms by (auto simp: children_ok_def nth_update_instance)

lemma vm_inv_update:
  assumes "vm_inv s" and "a < length (instances s)"
    and "\<And>i. vi_cid (f i) = vi_cid i" and "\<And>i. vi_child (f i) = Alive \<Longrightarrow> vi_child i = Alive"
    and "\<And>i. vi_kill_error (f i) = vi_kill_error i"
  shows "vm_inv (update_instance a f s)"
  using assms(1) children_ok_update [OF assms(2) _ assms(4,5)] cids_ok_update [OF assms(2,3)] by (simp add: vm_inv_def)

lemma vm_inv_drop_handle:
  assumes inv: "vm_inv s" and "a \<in> set (handles s)"
  shows "vm_inv (drop_handle kill_ok a s)"
proof -
  let ?s = "s\<lparr>handles := remove1 a (handles s)\<rparr>"
  have a: "a < length (instances s)" using assms by (auto simp: vm_inv_def refs_ok_def handle_alive_def)
  have other: "b \<noteq> a \<Longrightarrow> handle_alive ?s b = handle_alive s b" for b by (simp add: handle_alive_def in_set_remove1)
  have sub: "handle_alive ?s b \<Longrightarrow> handle_alive s b" for b
    using set_remove1_subset [of a "handles s"] by (auto simp: handle_alive_def)
  have "refs_ok ?s" using inv sub by (simp add: vm_inv_def refs_ok_def)
  moreover have "cids_ok ?s" using inv by (simp add: vm_inv_def cids_ok_def)
  moreover have "vms_ok ?s" using inv sub by (simp add: vm_inv_def vms_ok_def upgrades_def)
  ultimately have base: "refs_ok ?s" "cids_ok ?s" "vms_ok ?s" by simp_all
  show ?thesis
  proof (cases "handle_alive ?s a")
    case True
    have "handle_alive ?s b" if "handle_alive s b" for b using True other [of b] that by (cases "b = a") auto
    then have "handle_alive ?s b = handle_alive s b" for b using sub by blast
    then have "children_ok ?s" using inv by (simp add: vm_inv_def children_ok_def)
    with True base show ?thesis by (simp add: drop_handle_def vm_inv_def)
  next
    case False
    have "vi_child (vm_kill kill_ok i) \<noteq> Alive \<or> vi_kill_error (vm_kill kill_ok i)" for i
      by (simp add: vm_kill_def split: SharedChild.splits)
    then have "children_ok (update_instance a (vm_kill kill_ok) ?s)"
      using inv other a False by (auto simp: vm_inv_def children_ok_def nth_update_instance)
    moreover have "cids_ok (update_instance a (vm_kill kill_ok) ?s)"
      using base(2) a by (subst cids_ok_update) (simp_all add: vm_kill_def)
    ultimately show ?thesis using False base by (simp add: drop_handle_def VirtualMachine_drop_def vm_inv_def)
  qed
qed

text \<open>The state after a start.\<close>

definition started :: "VmInstance \<Rightarrow> Manager \<Rightarrow> Manager" where
  "started i s =
     VirtualMachine_create (length (instances s))
       (add_vm (length (instances s)) (new_instance i (s\<lparr>next_cid := next_cid s + 1\<rparr>)))"

lemma start_vm_Ok: "start_vm env f c log_fd uid sid pid = Ok i \<Longrightarrow> i = VmInstance_new Alive c uid sid pid"
  by (auto simp: start_vm_def VmInstance_start_def run_vm_def and_then_Ok_iff split: if_splits)

lemma startVm_cases:
  assumes "startVm env caller config_fd log_fd s = (r, s')"
  obtains (refused) "s' = s" "\<And>a. r \<noteq> Ok a"
  | (failed) "s' = s\<lparr>next_cid := next_cid s + 1\<rparr>" "next_cid s + 1 < 2 ^ 32" "\<And>a. r \<noteq> Ok a"
  | (started) sid where "r = Ok (length (instances s))" "next_cid s + 1 < 2 ^ 32" "calling_sid caller = Sid sid"
      "s' = started (VmInstance_new Alive (next_cid s) (calling_uid caller) sid (calling_pid caller)) s"
proof -
  consider (noclone) e where "clone_log env log_fd = Err e"
    | (nosid) l e where "clone_log env log_fd = Ok l" "sid_string (calling_sid caller) = Err e"
    | (both) l sid where "clone_log env log_fd = Ok l" "calling_sid caller = Sid sid"
    by (cases "calling_sid caller"; cases log_fd; cases "try_clone env (the log_fd)") (auto simp: clone_log_def)
  then show thesis
  proof cases
    case both
    let ?vm = "start_vm env config_fd (next_cid s) l (calling_uid caller) sid (calling_pid caller)"
    show thesis
    proof (cases "next_cid s + 1 < 2 ^ 32")
      case True
      show thesis
      proof (cases ?vm)
        case (Ok i)
        with assms both True show thesis
          by (intro started [OF _ True both(2)]) (simp_all add: startVm_def allocate_cid_def started_def start_vm_Ok [OF Ok] Let_def)
      qed (use assms both True failed in \<open>auto simp: startVm_def allocate_cid_def\<close>)
    qed (use assms both refused in \<open>auto simp: startVm_def allocate_cid_def\<close>)
  qed (use assms refused in \<open>auto simp: startVm_def\<close>)
qed

lemma handle_alive_started: "handle_alive (started i s) a \<longleftrightarrow> a = length (instances s) \<or> handle_alive s a"
  by (auto simp: started_def VirtualMachine_create_def add_vm_def new_instance_def handle_alive_def)

lemma started_simps:
  "instances (started i s) = instances s @ [i]" "monitors (started i s) = monitors s @ [Waiting]"
  "next_cid (started i s) = next_cid s + 1" "died_calls (started i s) = died_calls s"
  "registrations (started i s) = registrations s"
  by (simp_all add: started_def VirtualMachine_create_def add_vm_def new_instance_def)

lemma set_vms_started:
  assumes "refs_ok s"
  shows "vms (started i s) = filter (upgrades s) (vms s) @ [length (instances s)]"
proof -
  let ?s = "new_instance i (s\<lparr>next_cid := next_cid s + 1\<rparr>)"
  have "upgrades ?s a = upgrades s a" if "a \<in> set (vms s)" for a
    using that assms by (simp add: upgrades_def handle_alive_def new_instance_def refs_ok_def nth_append)
  then have "filter (upgrades ?s) (vms s) = filter (upgrades s) (vms s)" by (rule filter_cong [OF refl])
  then show ?thesis by (simp add: started_def VirtualMachine_create_def add_vm_def new_instance_def)
qed

lemma vm_inv_started:
  assumes inv: "vm_inv s" and "next_cid s + 1 < 2 ^ 32" and "vi_cid i = next_cid s" and "\<not> vi_kill_error i"
  shows "vm_inv (started i s)"
proof -
  have r: "refs_ok s" and c: "cids_ok s" and ch: "children_ok s" and v: "vms_ok s" using inv by (simp_all add: vm_inv_def)
  have len: "length (monitors s) = length (instances s)" using r by (simp add: refs_ok_def)
  have new: "\<not> handle_alive s (length (instances s))" "length (instances s) \<notin> set (vms s)"
    using r by (auto simp: refs_ok_def)
  have "refs_ok (started i s)"
    using r by (auto simp: refs_ok_def started_simps handle_alive_started set_vms_started [OF r])
  moreover have "cids_ok (started i s)"
    using c assms(2,3) by (auto simp: cids_ok_def started_simps)
  moreover have "children_ok (started i s)"
    using ch assms(4) by (auto simp: children_ok_def started_simps handle_alive_started nth_append)
  moreover have "a \<in> set (vms (started i s))" if "a < length (instances (started i s))" "upgrades (started i s) a" for a
    using that v len
    by (cases "a = length (instances s)")
       (auto simp: vms_ok_def set_vms_started [OF r] upgrades_def started_simps handle_alive_started nth_append)
  then have "vms_ok (started i s)" using v new by (simp add: vms_ok_def set_vms_started [OF r])
  ultimately show ?thesis by (simp add: vm_inv_def)
qed

text \<open>A step that only changes who holds references.\<close>

lemma vm_inv_refs:
  assumes "vm_inv s" and alive: "\<And>a. handle_alive s' a = handle_alive s a"
    and "next_cid s' = next_cid s" "vms s' = vms s" "instances s' = instances s" "monitors s' = monitors s"
  shows "vm_inv s'"
proof -
  have ha: "handle_alive s' = handle_alive s" by (rule ext) (rule alive)
  have up: "upgrades s' = upgrades s" unfolding upgrades_def fun_eq_iff ha assms(6) by simp
  show ?thesis
    using assms(1) unfolding vm_inv_def refs_ok_def cids_ok_def children_ok_def vms_ok_def assms(3-) ha up .
qed

lemma vm_inv_monitor:
  assumes inv: "vm_inv s" and a: "a < length (instances s)" and "monitors s ! a \<noteq> Finished"
  shows "vm_inv (s\<lparr>monitors := (monitors s)[a := p], died_calls := d\<rparr>)" (is "vm_inv ?s")
proof -
  have "handle_alive ?s = handle_alive s" by (rule ext) (simp add: handle_alive_def)
  moreover have "upgrades s b" if "upgrades ?s b" for b
    using that assms(3) by (cases "b = a") (auto simp: upgrades_def handle_alive_def)
  then have "vms_ok ?s" using inv by (simp add: vm_inv_def vms_ok_def)
  ultimately show ?thesis
    using inv by (simp add: vm_inv_def refs_ok_def cids_ok_def children_ok_def)
qed

lemma debugDropVmRef_alive:
  assumes "debugDropVmRef caller c s = (r, s')"
  shows "handle_alive s' a = handle_alive s a" "next_cid s' = next_cid s" "vms s' = vms s" "instances s' = instances s"
    "monitors s' = monitors s" "died_calls s' = died_calls s" "registrations s' = registrations s"
proof -
  have *: "(\<forall>a. handle_alive s' a = handle_alive s a) \<and> next_cid s' = next_cid s \<and> vms s' = vms s \<and> instances s' = instances s \<and>
    monitors s' = monitors s \<and> died_calls s' = died_calls s \<and> registrations s' = registrations s"
  proof (cases "position (\<lambda>v. getCid s v = Ok c) (debug_held_vms s)")
    case None
    with assms show ?thesis by (auto simp: debugDropVmRef_def debug_drop_vm_def give_handle_def split: if_splits)
  next
    case (Some pos)
    from set_swap_remove [OF conjunct1 [OF position_Some [OF Some]]]
    have set: "set (debug_held_vms s) = insert (debug_held_vms s ! pos) (set (swap_remove pos (debug_held_vms s)))" ..
    show ?thesis
    proof (cases "debug_access_allowed caller")
      case True
      with assms Some have "s' = give_handle (Some (debug_held_vms s ! pos)) (s\<lparr>debug_held_vms := swap_remove pos (debug_held_vms s)\<rparr>)"
        by (simp add: debugDropVmRef_def debug_drop_vm_def)
      then show ?thesis unfolding set handle_alive_def
        by (cases "debug_held_vms s ! pos") (auto simp: give_handle_def)
    qed (use assms in \<open>simp add: debugDropVmRef_def\<close>)
  qed
  then show "handle_alive s' a = handle_alive s a" "next_cid s' = next_cid s" "vms s' = vms s" "instances s' = instances s"
    "monitors s' = monitors s" "died_calls s' = died_calls s" "registrations s' = registrations s" by blast+
qed

lemma vm_inv_next:
  assumes inv: "vm_inv s" and "next_cid s + 1 < 2 ^ 32"
  shows "vm_inv (s\<lparr>next_cid := next_cid s + 1\<rparr>)" (is "vm_inv ?s")
proof -
  have ha: "handle_alive ?s = handle_alive s" and up: "upgrades ?s = upgrades s"
    by (simp_all add: fun_eq_iff upgrades_def handle_alive_def)
  have "refs_ok ?s" using inv ha by (simp add: vm_inv_def refs_ok_def)
  moreover have "children_ok ?s" using inv ha by (simp add: vm_inv_def children_ok_def)
  moreover have "vms_ok ?s" using inv up by (simp add: vm_inv_def vms_ok_def)
  moreover have "cids_ok ?s" using inv assms(2) by (auto simp: vm_inv_def cids_ok_def)
  ultimately show ?thesis by (simp add: vm_inv_def)
qed

lemma vm_inv_hold:
  assumes "vm_inv s" and "\<And>a. v = OwnVm a \<Longrightarrow> a \<in> set (handles s)"
  shows "vm_inv (debug_hold_vm v s)"
  using assms(1)
proof (rule vm_inv_refs)
  show "handle_alive (debug_hold_vm v s) a = handle_alive s a" for a
    using assms(2) by (auto simp: debug_hold_vm_def handle_alive_def)
qed (simp_all add: debug_hold_vm_def)

lemma handle_bound: "vm_inv s \<Longrightarrow> a \<in> set (handles s) \<Longrightarrow> a < length (instances s)"
  by (simp add: vm_inv_def refs_ok_def handle_alive_def)

lemma vm_inv_step: "vm_step wait_fails s s' \<Longrightarrow> vm_inv s \<Longrightarrow> vm_inv s'"
proof (induction rule: vm_step.induct)
  case (step_start env caller config_fd log_fd s r s')
  from step_start(1) show ?case
  proof (cases rule: startVm_cases)
    case failed
    from vm_inv_next [OF step_start(2) failed(2)] failed(1) show ?thesis by simp
  next
    case (started sid)
    show ?thesis unfolding started(4) by (rule vm_inv_started [OF step_start(2) started(2)]) (simp_all add: VmInstance_new_def)
  qed (use step_start(2) in simp)
next
  case (step_hold v s caller r s')
  have "s' = s \<or> s' = debug_hold_vm v s" using step_hold(2) by (auto simp: debugHoldVmRef_def split: if_splits)
  then show ?case using step_hold(3) vm_inv_hold [OF step_hold(3,1)] by blast
next
  case (step_drop_held caller c s r s')
  show ?case by (rule vm_inv_refs [OF step_drop_held(2) debugDropVmRef_alive(1-5) [OF step_drop_held(1)]])
next
  case (step_clone a s)
  have "handle_alive (s\<lparr>handles := handles s @ [a]\<rparr>) b = handle_alive s b" for b
    using step_clone(1) by (auto simp: handle_alive_def)
  then show ?case by (rule vm_inv_refs [OF step_clone(2)]) simp_all
next
  case (step_drop a s)
  then show ?case by (rule vm_inv_drop_handle [rotated])
next
  case (step_register a s callback)
  then have "vm_inv (update_instance a (callbacks_add callback) s)"
    by (intro vm_inv_update handle_bound) (simp_all add: callbacks_add_def)
  then show ?case unfolding registerCallback_def by (rule vm_inv_refs) (simp_all add: handle_alive_def)
next
  case (step_exit a s)
  then show ?case by (intro vm_inv_update) simp_all
next
  case (step_died a s)
  then have "vm_inv (update_instance a monitor_store s)" by (intro vm_inv_update) (simp_all add: monitor_store_def)
  from vm_inv_monitor [OF this, where p = Notifying and d = "died_calls s"] step_died(1,2) show ?case
    by (simp add: monitor_died_def update_instance_def)
next
  case (step_notify a s)
  then show ?case unfolding monitor_notify_def by (intro vm_inv_monitor) simp_all
qed

lemma vm_inv_run: "vm_run wait_fails s s' \<Longrightarrow> vm_inv s \<Longrightarrow> vm_inv s'"
  by (induction rule: vm_run.induct) (auto intro: vm_inv_step)

lemma vm_reachable_inv: "vm_run wait_fails State_default s \<Longrightarrow> vm_inv s"
  by (rule vm_inv_run [OF _ vm_inv_default])

section \<open>One machine\<close>

text \<open>What a step does to one instance, its monitor thread and the calls made for it.\<close>

definition calls_of :: "Manager \<Rightarrow> nat \<Rightarrow> (nat \<times> int) list" where
  "calls_of s a = map snd (filter (\<lambda>c. fst c = a) (died_calls s))"

inductive local_step ::
  "bool \<Rightarrow> bool \<Rightarrow> VmInstance \<times> MonitorPhase \<times> (nat \<times> int) list \<Rightarrow> VmInstance \<times> MonitorPhase \<times> (nat \<times> int) list \<Rightarrow> bool"
  for wait_fails handle where
  local_same: "local_step wait_fails handle l l"
| local_kill: "\<not> handle \<Longrightarrow> local_step wait_fails handle (i, m, cs) (vm_kill kill_ok i, m, cs)"
| local_register: "local_step wait_fails handle (i, m, cs) (callbacks_add callback i, m, cs)"
| local_exit: "local_step wait_fails handle (i, m, cs) (i\<lparr>vi_child := Exited\<rparr>, m, cs)"
| local_died: "vi_child i = Exited \<or> wait_fails \<Longrightarrow>
    local_step wait_fails handle (i, Waiting, cs) (monitor_store i, Notifying, cs)"
| local_notify: "local_step wait_fails handle (i, Notifying, cs) (i, Finished, cs @ callback_on_died i)"

definition local_state :: "Manager \<Rightarrow> nat \<Rightarrow> VmInstance \<times> MonitorPhase \<times> (nat \<times> int) list" where
  "local_state s a = (instances s ! a, monitors s ! a, calls_of s a)"

lemma local_update:
  "a < length (instances s) \<Longrightarrow>
   local_state (update_instance a f s) b =
     (if b = a then (f (instances s ! a), monitors s ! a, calls_of s a) else local_state s b)"
  by (simp add: local_state_def nth_update_instance calls_of_def)

lemma local_same_state:
  "instances s' = instances s \<Longrightarrow> monitors s' = monitors s \<Longrightarrow> died_calls s' = died_calls s \<Longrightarrow> local_state s' b = local_state s b"
  by (simp add: local_state_def calls_of_def)

lemma map_snd_filter_Pair: "map snd (filter (\<lambda>c. fst c = b) (map (Pair a) xs)) = (if b = a then xs else [])"
  by (induction xs) auto

lemma local_monitor_died:
  assumes "vm_inv s" and "a < length (instances s)"
  shows "local_state (monitor_died a s) b =
    (if b = a then (monitor_store (instances s ! a), Notifying, calls_of s a) else local_state s b)"
  using assms by (simp add: local_state_def monitor_died_def nth_update_instance calls_of_def vm_inv_def refs_ok_def)

lemma local_monitor_notify:
  assumes "vm_inv s" and "a < length (instances s)"
  shows "local_state (monitor_notify a s) b =
    (if b = a then (instances s ! a, Finished, calls_of s a @ callback_on_died (instances s ! a)) else local_state s b)"
  using assms
  by (simp add: local_state_def monitor_notify_def calls_of_def vm_inv_def refs_ok_def map_snd_filter_Pair [unfolded fst_conv])

lemma local_drop_handle:
  assumes "vm_inv s" and "a \<in> set (handles s)"
  shows "local_step wait_fails (handle_alive (drop_handle kill_ok a s) b) (local_state s b)
    (local_state (drop_handle kill_ok a s) b)"
proof -
  let ?s = "s\<lparr>handles := remove1 a (handles s)\<rparr>"
  have same: "local_state ?s c = local_state s c" for c by (rule local_same_state) simp_all
  show ?thesis
  proof (cases "handle_alive ?s a \<or> b \<noteq> a")
    case True
    then have "local_state (drop_handle kill_ok a s) b = local_state s b"
      using same handle_bound [OF assms] by (auto simp: drop_handle_def VirtualMachine_drop_def Let_def local_update)
    then show ?thesis by (simp add: local_same)
  next
    case False
    then have "drop_handle kill_ok a s = update_instance a (vm_kill kill_ok) ?s" and b: "b = a" and d: "\<not> handle_alive ?s a"
      by (simp_all add: drop_handle_def VirtualMachine_drop_def)
    then show ?thesis
      using handle_bound [OF assms] local_kill [of False]
      by (simp add: local_state_def nth_update_instance calls_of_def)
  qed
qed

lemma vm_step_local:
  assumes "vm_step wait_fails s s'" and "vm_inv s" and "b < length (instances s)"
  shows "b < length (instances s') \<and> local_step wait_fails (handle_alive s' b) (local_state s b) (local_state s' b)"
  using assms
proof (induction rule: vm_step.induct)
  case (step_start env caller config_fd log_fd s r s')
  have "length (monitors s) = length (instances s)" using step_start(2) by (simp add: vm_inv_def refs_ok_def)
  with step_start(3) have 1: "local_state (started i s) b = local_state s b" for i
    by (simp add: local_state_def started_simps nth_append calls_of_def)
  have 2: "local_state (s\<lparr>next_cid := n\<rparr>) b = local_state s b" for n by (rule local_same_state) simp_all
  from step_start(1) show ?case
  proof (cases rule: startVm_cases)
    case refused
    with step_start(3) show ?thesis by (simp add: local_same)
  next
    case failed
    with step_start(3) show ?thesis by (simp only: 2) (simp add: local_same)
  next
    case (started sid)
    with step_start(3) show ?thesis by (simp only: 1) (simp add: local_same started_simps)
  qed
next
  case (step_hold v s caller r s')
  then have s': "instances s' = instances s" "monitors s' = monitors s" "died_calls s' = died_calls s"
    by (auto simp: debugHoldVmRef_def debug_hold_vm_def split: if_splits)
  from local_same_state [OF this] s' step_hold show ?case by (simp add: local_same)
next
  case (step_drop_held caller c s r s')
  from local_same_state [OF debugDropVmRef_alive(4-6) [OF this(1)]] debugDropVmRef_alive(4) [OF this(1)] this(3)
  show ?case by (simp add: local_same)
next
  case (step_clone a s)
  have "local_state (s\<lparr>handles := handles s @ [a]\<rparr>) b = local_state s b" by (rule local_same_state) simp_all
  with step_clone(3) show ?case by (simp add: local_same)
next
  case (step_drop a s)
  then show ?case by (simp add: local_drop_handle) (simp add: drop_handle_def VirtualMachine_drop_def Let_def)
next
  case (step_register a s callback)
  then show ?case using handle_bound [OF step_register(2,1)]
    by (auto simp: registerCallback_def nth_update_instance calls_of_def local_same local_register local_state_def)
next
  case (step_exit a s)
  then show ?case by (auto simp: nth_update_instance calls_of_def local_same local_exit local_state_def)
next
  case (step_died a s)
  have "b < length (instances (monitor_died a s))" using step_died(5) by (simp add: monitor_died_def)
  moreover have "local_state s a = (instances s ! a, Waiting, calls_of s a)" using step_died(2) by (simp add: local_state_def)
  ultimately show ?case
    using local_died [OF step_died(3)] local_same local_monitor_died [OF step_died(4,1), of b] by (cases "b = a") auto
next
  case (step_notify a s)
  have "b < length (instances (monitor_notify a s))" using step_notify(4) by (simp add: monitor_notify_def)
  moreover have "local_state s a = (instances s ! a, Notifying, calls_of s a)" using step_notify(2) by (simp add: local_state_def)
  ultimately show ?case
    using local_notify local_same local_monitor_notify [OF step_notify(3,1), of b] by (cases "b = a") auto
qed

lemma cid_limit: "cids_ok s \<Longrightarrow> a < length (instances s) \<Longrightarrow> vi_cid (instances s ! a) < 2 ^ 32"
  unfolding cids_ok_nth by (meson less_trans)

lemma local_kill_only:
  "local_step wait_fails handle (i, m, cs) (i', m', cs') \<Longrightarrow> vi_child i = Alive \<Longrightarrow> vi_child i' = Killed \<Longrightarrow> \<not> handle"
  by (erule local_step.cases) (auto simp: callbacks_add_def monitor_store_def)

text \<open>Machines that are new in a step.\<close>

lemma vm_step_new:
  assumes "vm_step wait_fails s s'" and "vm_inv s" and "length (instances s) \<le> b" and "b < length (instances s')"
  shows "(\<exists>c uid sid pid. instances s' ! b = VmInstance_new Alive c uid sid pid) \<and> monitors s' ! b = Waiting \<and>
    died_calls s' = died_calls s"
  using assms
proof (induction rule: vm_step.induct)
  case (step_start env caller config_fd log_fd s r s')
  have len: "length (monitors s) = length (instances s)" using step_start(2) by (simp add: vm_inv_def refs_ok_def)
  from step_start(1) show ?case
  proof (cases rule: startVm_cases)
    case (started sid)
    with step_start(3,4) have "b = length (instances s)" by (simp add: started_simps)
    with started(4) len show ?thesis by (auto simp: started_simps nth_append)
  qed (use step_start(3,4) in simp_all)
next
  case (step_hold v s caller r s')
  then show ?case by (auto simp: debugHoldVmRef_def debug_hold_vm_def split: if_splits)
next
  case (step_drop_held caller c s r s')
  then show ?case using debugDropVmRef_alive(4) [OF step_drop_held(1)] by simp
qed (auto simp: drop_handle_def VirtualMachine_drop_def Let_def registerCallback_def monitor_died_def monitor_notify_def)

lemma vm_step_calls:
  assumes "vm_step wait_fails s s'" and "\<forall>c\<in>set (died_calls s). fst c < length (instances s)"
  shows "\<forall>c\<in>set (died_calls s'). fst c < length (instances s')"
  using assms
proof (induction rule: vm_step.induct)
  case (step_start env caller config_fd log_fd s r s')
  from step_start(1) show ?case
    by (cases rule: startVm_cases) (use step_start(2) in \<open>auto simp: started_simps less_Suc_eq\<close>)
next
  case (step_hold v s caller r s')
  then have "died_calls s' = died_calls s" "instances s' = instances s"
    by (auto simp: debugHoldVmRef_def debug_hold_vm_def split: if_splits)
  with step_hold(3) show ?case by simp
next
  case (step_drop_held caller c' s r s')
  then show ?case using debugDropVmRef_alive(4,6) [OF step_drop_held(1)] by simp
qed (auto simp: drop_handle_def VirtualMachine_drop_def Let_def registerCallback_def monitor_died_def monitor_notify_def split: if_splits)

lemma vm_calls_bound:
  "vm_run wait_fails s s' \<Longrightarrow> s = State_default \<Longrightarrow> \<forall>c\<in>set (died_calls s'). fst c < length (instances s')"
  by (induction rule: vm_run.induct) (simp_all add: State_default_def vm_step_calls)

text \<open>An invariant of one machine: it holds for a new one and every step keeps it.\<close>

lemma vm_local_invariant:
  assumes "vm_run wait_fails s0 s" and "s0 = State_default" and "a < length (instances s)"
    and init: "\<And>c uid sid pid. P (VmInstance_new Alive c uid sid pid, Waiting, [])"
    and step: "\<And>handle l l'. P l \<Longrightarrow> local_step wait_fails handle l l' \<Longrightarrow> P l'"
  shows "P (local_state s a)"
  using assms(1-3)
proof (induction rule: vm_run.induct)
  case (vm_refl s)
  then show ?case by (simp add: State_default_def)
next
  case (vm_next s s1 s2)
  have inv: "vm_inv s1" using vm_next(1,4) vm_reachable_inv by blast
  show ?case
  proof (cases "a < length (instances s1)")
    case True
    from vm_next(3) [OF vm_next(4) True] vm_step_local [OF vm_next(2) inv True] step show ?thesis by blast
  next
    case False
    then have new: "(\<exists>c uid sid pid. instances s2 ! a = VmInstance_new Alive c uid sid pid) \<and> monitors s2 ! a = Waiting \<and>
        died_calls s2 = died_calls s1"
      using vm_step_new [OF vm_next(2) inv _ vm_next(5)] by simp
    have "filter (\<lambda>c. fst c = a) (died_calls s1) = []"
      using vm_calls_bound [OF vm_next(1,4)] False by (auto simp: filter_empty_conv)
    with new init show ?thesis by (auto simp: local_state_def calls_of_def)
  qed
qed

definition running_ok :: "bool \<Rightarrow> VmInstance \<times> MonitorPhase \<times> (nat \<times> int) list \<Rightarrow> bool" where
  "running_ok wait_fails l =
     (case l of (i, m, cs) \<Rightarrow>
       (vi_running i \<longleftrightarrow> m = Waiting) \<and> (m \<noteq> Waiting \<longrightarrow> vi_child i = Exited \<or> wait_fails) \<and> (m \<noteq> Finished \<longrightarrow> cs = []))"

lemma running_ok_step: "local_step wait_fails handle l l' \<Longrightarrow> running_ok wait_fails l \<Longrightarrow> running_ok wait_fails l'"
  by (induction rule: local_step.induct)
     (auto simp: running_ok_def callbacks_add_def monitor_store_def vm_kill_def split: SharedChild.splits)

lemma vm_running_ok:
  assumes "vm_run wait_fails State_default s" and "a < length (instances s)"
  shows "running_ok wait_fails (local_state s a)"
proof (rule vm_local_invariant [OF assms(1) refl assms(2)])
  show "running_ok wait_fails (VmInstance_new Alive c uid sid pid, Waiting, [])" for c uid sid pid
    by (simp add: running_ok_def VmInstance_new_def)
qed (rule running_ok_step)

lemma finished_step: "local_step wait_fails handle (i, Finished, cs) l \<Longrightarrow> \<exists>i'. l = (i', Finished, cs)"
  by (erule local_step.cases) auto

lemma finished_run:
  assumes "vm_run wait_fails s s'" and "vm_inv s" and "a < length (instances s)" and "monitors s ! a = Finished"
  shows "a < length (instances s') \<and> monitors s' ! a = Finished \<and> calls_of s' a = calls_of s a"
  using assms
proof (induction rule: vm_run.induct)
  case (vm_next s s1 s2)
  then have 1: "a < length (instances s1)" "local_state s1 a = (instances s1 ! a, Finished, calls_of s a)"
    by (auto simp: local_state_def)
  have "vm_inv s1" using vm_inv_run vm_next by blast
  from vm_step_local [OF vm_next(2) this 1(1)] 1(2) finished_step show ?case by (fastforce simp: local_state_def)
qed simp

text \<open>The callbacks an instance knows are those that were registered for it.\<close>

definition registered_for :: "Manager \<Rightarrow> nat \<Rightarrow> nat list" where
  "registered_for s a = map snd (filter (\<lambda>r. fst r = a) (registrations s))"

definition registrations_ok :: "Manager \<Rightarrow> bool" where
  "registrations_ok s \<longleftrightarrow>
     (\<forall>a<length (instances s). vi_callbacks (instances s ! a) = registered_for s a) \<and>
     (\<forall>r\<in>set (registrations s). fst r < length (instances s))"

lemma registrations_ok_same:
  assumes "registrations_ok s" and "registrations s' = registrations s" and "length (instances s') = length (instances s)"
    and "\<And>a. a < length (instances s) \<Longrightarrow> vi_callbacks (instances s' ! a) = vi_callbacks (instances s ! a)"
  shows "registrations_ok s'"
  using assms by (simp add: registrations_ok_def registered_for_def)

lemma registrations_ok_update:
  assumes "registrations_ok s" and "a < length (instances s)" and "\<And>i. vi_callbacks (f i) = vi_callbacks i"
  shows "registrations_ok (update_instance a f s)"
  using assms(1) by (rule registrations_ok_same) (simp_all add: nth_update_instance assms)

lemma registrations_ok_started:
  assumes "registrations_ok s" and "vi_callbacks i = []"
  shows "registrations_ok (started i s)"
proof -
  have "filter (\<lambda>r. fst r = length (instances s)) (registrations s) = []"
    using assms(1) by (auto simp: registrations_ok_def filter_empty_conv)
  then show ?thesis
    using assms by (auto simp: registrations_ok_def registered_for_def started_simps nth_append less_Suc_eq)
qed

lemma registrations_ok_register:
  assumes "registrations_ok s" and "a < length (instances s)"
  shows "registrations_ok (registerCallback a callback s)"
  using assms
  by (auto simp: registrations_ok_def registered_for_def registerCallback_def nth_update_instance callbacks_add_def)

lemma registrations_step: "vm_step wait_fails s s' \<Longrightarrow> vm_inv s \<Longrightarrow> registrations_ok s \<Longrightarrow> registrations_ok s'"
proof (induction rule: vm_step.induct)
  case (step_start env caller config_fd log_fd s r s')
  from step_start(1) show ?case
  proof (cases rule: startVm_cases)
    case failed
    with step_start(3) show ?thesis by (auto intro: registrations_ok_same)
  next
    case (started sid)
    show ?thesis unfolding started(4) by (rule registrations_ok_started [OF step_start(3)]) (simp add: VmInstance_new_def)
  qed (use step_start(3) in simp)
next
  case (step_hold v s caller r s')
  from step_hold(4) show ?case
    by (rule registrations_ok_same) (use step_hold(2) in \<open>auto simp: debugHoldVmRef_def debug_hold_vm_def split: if_splits\<close>)
next
  case (step_drop_held caller c s r s')
  from step_drop_held(3) show ?case
    by (rule registrations_ok_same) (simp_all add: debugDropVmRef_alive(4,7) [OF step_drop_held(1)])
next
  case (step_clone a s)
  from step_clone(3) show ?case by (rule registrations_ok_same) simp_all
next
  case (step_drop a s kill_ok)
  have 1: "registrations_ok (s\<lparr>handles := h\<rparr>)" for h using step_drop(3) by (rule registrations_ok_same) simp_all
  have 2: "registrations_ok (update_instance a (vm_kill kill_ok) (s\<lparr>handles := h\<rparr>))" for h
    by (rule registrations_ok_update [OF 1]) (use handle_bound [OF step_drop(2,1)] in \<open>simp_all add: vm_kill_def\<close>)
  from 1 2 show ?case by (simp add: drop_handle_def VirtualMachine_drop_def Let_def)
next
  case (step_register a s callback)
  show ?case by (rule registrations_ok_register [OF step_register(3) handle_bound [OF step_register(2,1)]])
next
  case (step_exit a s)
  then show ?case by (intro registrations_ok_update) simp_all
next
  case (step_died a s)
  from step_died(5) show ?case
    by (rule registrations_ok_same) (simp_all add: monitor_died_def nth_update_instance monitor_store_def step_died(1))
next
  case (step_notify a s)
  from step_notify(4) show ?case by (rule registrations_ok_same) (simp_all add: monitor_notify_def)
qed

lemma registrations_run: "vm_run wait_fails s s' \<Longrightarrow> vm_inv s \<Longrightarrow> registrations_ok s \<Longrightarrow> registrations_ok s'"
  by (induction rule: vm_run.induct) (auto intro: registrations_step vm_inv_run)

lemma registrations_reachable: "vm_run wait_fails State_default s \<Longrightarrow> registrations_ok s"
  by (rule registrations_run [OF _ vm_inv_default])
     (simp_all add: registrations_ok_def State_default_def)

section \<open>A sample run\<close>

definition sample_env :: "nat Env" where
  "sample_env = \<lparr>try_clone = Some, from_reader = (\<lambda>_. Some sample_config), spawn = (\<lambda>_. True)\<rparr>"

definition shell :: Caller where
  "shell = \<lparr>calling_uid = 2000, calling_sid = Sid ''shell'', calling_pid = 7\<rparr>"

definition sample_vm :: Manager where
  "sample_vm =
     \<lparr>next_cid = 11, vms = [0], debug_held_vms = [],
      instances = [VmInstance_new Alive 10 2000 ''shell'' 7], monitors = [Waiting], handles = [0],
      registrations = [], died_calls = []\<rparr>"

lemma sample_start: "startVm sample_env shell 0 None State_default = (Ok 0, sample_vm)"
  by (simp add: startVm_def clone_log_def shell_def allocate_cid_def State_default_def FIRST_GUEST_CID_def start_vm_def
      VmConfig_load_def sample_env_def sample_config_def VmInstance_start_def run_vm_def validate_def Let_def
      new_instance_def add_vm_def VirtualMachine_create_def sample_vm_def)

lemma sample_vm_reachable: "vm_run wait_fails State_default sample_vm"
  by (rule vm_next [OF vm_refl step_start [OF sample_start]])

lemma shell_allowed: "debug_access_allowed shell"
  by (simp add: debug_access_allowed_def shell_def DEBUG_ALLOWED_UIDS_def)

text \<open>The machine's process has ended after a callback was registered.\<close>

definition sample_dead :: Manager where
  "sample_dead = monitor_died 0 (update_instance 0 (\<lambda>i. i\<lparr>vi_child := Exited\<rparr>) (registerCallback 0 5 sample_vm))"

lemma sample_dead_reachable: "vm_run wait_fails State_default sample_dead"
  unfolding sample_dead_def
  by (rule vm_next [OF vm_next [OF vm_next [OF sample_vm_reachable step_register] step_exit] step_died])
     (simp_all add: sample_vm_def registerCallback_def nth_update_instance)

section \<open>Properties\<close>

lemma as_i32_inj:
  assumes "m < 2 ^ 32" and "n < 2 ^ 32" and "as_i32 m = as_i32 n"
  shows "m = n"
proof -
  have "(word_of_nat m :: 32 word) = word_of_nat n" using assms(3) unfolding as_i32_def by (rule signed_word_eqI)
  then have "unat (word_of_nat m :: 32 word) = unat (word_of_nat n :: 32 word)" by simp
  then show ?thesis using assms(1,2) by (simp add: unat_of_nat take_bit_nat_def)
qed

text \<open>
  C16: Unique CIDs. In every reachable state the CIDs of all machines ever started are at least
  the first guest CID, and no two machines report the same CID through \<open>getCid\<close>.
\<close>

theorem vm_cids_unique:
  assumes "vm_run wait_fails State_default s" and "a < length (instances s)" and "b < length (instances s)"
  shows "FIRST_GUEST_CID \<le> vi_cid (instances s ! a) \<and> (getCid s (OwnVm a) = getCid s (OwnVm b) \<longrightarrow> a = b)"
proof -
  have c: "cids_ok s" using vm_reachable_inv [OF assms(1)] by (simp add: vm_inv_def)
  have "a = b" if "getCid s (OwnVm a) = getCid s (OwnVm b)"
    using that as_i32_inj [OF cid_limit [OF c assms(2)] cid_limit [OF c assms(3)]] c assms(2,3)
    by (simp add: cids_ok_nth getCid_def)
  with c assms(2) show ?thesis by (simp add: cids_ok_nth)
qed

theorem vm_cids_unique_witness: "FIRST_GUEST_CID \<le> vi_cid (instances sample_vm ! 0)"
  using vm_cids_unique [OF sample_vm_reachable [of True], of 0 0] by (simp add: sample_vm_def)

text \<open>
  C17: No machine without a handle. In every reachable state, a machine whose process was not
  killed and has not ended is either referred to by a client or by the manager, or the kill was tried
  when the last reference was dropped and failed, which was logged; never both.
\<close>

theorem vm_alive_has_handle:
  assumes "vm_run wait_fails State_default s" and "a < length (instances s)" and "vi_child (instances s ! a) = Alive"
  shows "handle_alive s a \<longleftrightarrow> \<not> vi_kill_error (instances s ! a)"
  using vm_reachable_inv [OF assms(1)] assms(2,3) by (auto simp: vm_inv_def children_ok_def)

theorem vm_alive_has_handle_witness: "handle_alive sample_vm 0 \<and> vi_kill_error (instances (drop_handle False 0 sample_vm) ! 0)"
  using vm_alive_has_handle [OF sample_vm_reachable [of True], of 0]
    vm_alive_has_handle [OF vm_next [OF sample_vm_reachable [of True] step_drop [of 0 _ _ False]], of 0]
  by (simp add: sample_vm_def VmInstance_new_def drop_handle_def VirtualMachine_drop_def handle_alive_def
      update_instance_def vm_kill_def)

text \<open>
  C21: The list of machines. A debug client gets one record for every machine that a handle or
  its monitor thread keeps in memory, and no other.
\<close>

theorem debugListVms_exact:
  assumes "vm_run wait_fails State_default s" and "debug_access_allowed caller"
  shows "\<exists>as. distinct as \<and> set as = {a. a < length (instances s) \<and> upgrades s a} \<and>
    debugListVms caller s = (Ok (map (\<lambda>a. debug_info (instances s ! a)) as), s)"
proof -
  have inv: "vm_inv s" by (rule vm_reachable_inv [OF assms(1)])
  let ?as = "filter (upgrades s) (vms s)"
  have "a < length (instances s)" if "a \<in> set (vms s)" for a using inv that by (simp add: vm_inv_def refs_ok_def)
  moreover have "distinct (vms s)" "\<And>a. a < length (instances s) \<Longrightarrow> upgrades s a \<Longrightarrow> a \<in> set (vms s)"
    using inv by (simp_all add: vm_inv_def vms_ok_def)
  ultimately have "distinct ?as \<and> set ?as = {a. a < length (instances s) \<and> upgrades s a}" by auto
  moreover have "debugListVms caller s = (Ok (map (\<lambda>a. debug_info (instances s ! a)) ?as), s)"
    using assms(2) by (simp add: debugListVms_def state_vms_def o_def)
  ultimately show ?thesis by blast
qed

theorem debugListVms_exact_witness:
  "\<exists>as. distinct as \<and> set as = {a. a < length (instances sample_vm) \<and> upgrades sample_vm a} \<and>
    debugListVms shell sample_vm = (Ok (map (\<lambda>a. debug_info (instances sample_vm ! a)) as), sample_vm)"
  by (rule debugListVms_exact [OF sample_vm_reachable [of True] shell_allowed])

text \<open>
  Debug methods are for root and shell. For every other caller the three debug methods
  return \<open>PERMISSION_DENIED\<close> and change nothing.
\<close>

lemma debug_methods_denied:
  assumes "calling_uid caller \<noteq> 0" and "calling_uid caller \<noteq> 2000"
  shows "debugListVms caller s = (Err PERMISSION_DENIED, s) \<and>
    debugHoldVmRef caller v s = (Err PERMISSION_DENIED, s) \<and>
    debugDropVmRef caller c s = (Err PERMISSION_DENIED, s)"
  using assms
  by (simp add: debugListVms_def debugHoldVmRef_def debugDropVmRef_def debug_access_allowed_def DEBUG_ALLOWED_UIDS_def)

text \<open>
  C20: Starting a machine. A successful \<open>startVm\<close> has read a valid configuration and started
  \<open>crosvm\<close> with its command line and a CID no other machine has had; the new instance records
  the identity of the caller, is running, and the caller gets a handle to it.
\<close>

theorem startVm_result:
  assumes "vm_run wait_fails State_default s" and "startVm env caller config_fd log_fd s = (Ok a, s')"
  shows "a = length (instances s) \<and> a \<in> set (handles s') \<and> next_cid s \<notin> vi_cid ` set (instances s) \<and>
    (\<exists>config log sid. from_reader env config_fd = Some config \<and> validate config = Ok () \<and>
       spawn env (crosvm_command config (next_cid s) log) \<and> calling_sid caller = Sid sid \<and>
       instances s' = instances s @ [VmInstance_new Alive (next_cid s) (calling_uid caller) sid (calling_pid caller)])"
proof -
  have c: "cids_ok s" using vm_reachable_inv [OF assms(1)] by (simp add: vm_inv_def)
  from assms(2) obtain log sid i where
    "start_vm env config_fd (next_cid s) log (calling_uid caller) sid (calling_pid caller) = Ok i"
    by (auto simp: startVm_def bind_prog_Ok_iff allocate_cid_def Let_def split: if_splits)
  then have vm: "\<exists>config log. from_reader env config_fd = Some config \<and> validate config = Ok () \<and>
      spawn env (crosvm_command config (next_cid s) log)"
    by (auto simp: start_vm_def VmConfig_load_def VmInstance_start_def run_vm_def and_then_Ok_iff split: if_splits)
  from assms(2) show ?thesis
  proof (cases rule: startVm_cases)
    case (started sid)
    then have "a \<in> set (handles s')"
      by (simp add: started_def VirtualMachine_create_def)
    with started vm c show ?thesis by (auto simp: started_simps cids_ok_def)
  qed blast+
qed

theorem startVm_result_witness:
  "0 \<in> set (handles sample_vm) \<and> next_cid State_default \<notin> vi_cid ` set (instances State_default) \<and>
   (\<exists>config log sid. from_reader sample_env 0 = Some config \<and> validate config = Ok () \<and>
      spawn sample_env (crosvm_command config (next_cid State_default) log) \<and> calling_sid shell = Sid sid \<and>
      instances sample_vm = instances State_default @
        [VmInstance_new Alive (next_cid State_default) (calling_uid shell) sid (calling_pid shell)])"
  using startVm_result [OF vm_refl [of True] sample_start] by blast

text \<open>
  C22: Running and dead machines. If waiting for a child never fails, a machine that is reported
  as not running has a process that has ended, and one that is reported as running is still
  being watched by its monitor thread.
\<close>

theorem isRunning_faithful:
  assumes "vm_run False State_default s" and "a < length (instances s)"
  shows "if isRunning a s then monitors s ! a = Waiting else vi_child (instances s ! a) = Exited"
  using vm_running_ok [OF assms] by (auto simp: running_ok_def local_state_def isRunning_def)

theorem isRunning_faithful_witness: "\<not> isRunning 0 sample_dead \<and> vi_child (instances sample_dead ! 0) = Exited"
  using isRunning_faithful [OF sample_dead_reachable, of 0]
  by (simp add: sample_dead_def monitor_died_def sample_vm_def registerCallback_def isRunning_def nth_update_instance
      monitor_store_def)

text \<open>
  C19: Who is told that a machine died. When the monitor thread runs the callbacks, it calls one
  callback for each call of \<open>registerCallback\<close> on this machine that was made until then, with the
  machine's CID and in the order of registration; nothing that happens later adds a call for this
  machine.
\<close>

theorem callbacks_called_once:
  assumes "vm_run wait_fails State_default s" and "a < length (instances s)" and "monitors s ! a = Notifying"
    and "vm_run wait_fails (monitor_notify a s) s'"
  shows "calls_of s' a = map (\<lambda>callback. (callback, as_i32 (vi_cid (instances s ! a)))) (registered_for s a)"
proof -
  have inv: "vm_inv s" by (rule vm_reachable_inv [OF assms(1)])
  have "calls_of s a = []" using vm_running_ok [OF assms(1,2)] assms(3) by (simp add: running_ok_def local_state_def)
  with local_monitor_notify [OF inv assms(2), of a]
  have n: "monitors (monitor_notify a s) ! a = Finished" "calls_of (monitor_notify a s) a = callback_on_died (instances s ! a)"
    by (simp_all add: local_state_def)
  have "vm_inv (monitor_notify a s)" by (rule vm_inv_step [OF step_notify [OF assms(2,3)] inv])
  moreover have "vi_callbacks (instances s ! a) = registered_for s a"
    using registrations_reachable [OF assms(1)] assms(2) by (simp add: registrations_ok_def)
  ultimately show ?thesis using finished_run [OF assms(4) _ _ n(1)] n(2) assms(2)
    by (simp add: monitor_notify_def callback_on_died_def)
qed

theorem callbacks_called_once_witness: "calls_of (monitor_notify 0 sample_dead) 0 = [(5, 10)]"
  using callbacks_called_once [OF sample_dead_reachable [of True] _ _ vm_refl, of 0]
  by (simp add: registered_for_def sample_dead_def monitor_died_def sample_vm_def registerCallback_def nth_update_instance callbacks_add_def
      monitor_store_def VmInstance_new_def i32_max_def)

text \<open>
  Callbacks that come too late. A callback that is registered after the monitor thread has
  finished is accepted and never called.
\<close>

lemma late_callback_never_called:
  assumes "vm_run wait_fails State_default s" and "a \<in> set (handles s)" and "monitors s ! a = Finished"
    and "vm_run wait_fails (registerCallback a callback s) s'"
  shows "calls_of s' a = calls_of s a"
proof -
  have inv: "vm_inv s" by (rule vm_reachable_inv [OF assms(1)])
  have "vm_inv (registerCallback a callback s)" by (rule vm_inv_step [OF step_register [OF assms(2)] inv])
  from finished_run [OF assms(4) this] handle_bound [OF inv assms(2)] assms(3) show ?thesis
    by (simp add: registerCallback_def calls_of_def)
qed

lemma held_dropped:
  assumes "vm_run wait_fails State_default s" and "debug_access_allowed caller" and "OwnVm a \<in> set (debug_held_vms s)"
    and "\<And>r. ForeignVm r \<in> set (debug_held_vms s) \<Longrightarrow> r \<noteq> getCid s (OwnVm a)"
  shows "\<exists>s'. debugDropVmRef caller (as_i32 (vi_cid (instances s ! a))) s = (Ok (Some (OwnVm a)), s') \<and>
    handles s' = handles s @ [a] \<and> mset (debug_held_vms s') = mset (debug_held_vms s) - {#OwnVm a#}"
proof -
  let ?c = "as_i32 (vi_cid (instances s ! a))"
  have inv: "vm_inv s" by (rule vm_reachable_inv [OF assms(1)])
  then have bound: "b < length (instances s)" if "OwnVm b \<in> set (debug_held_vms s)" for b
    using that by (simp add: vm_inv_def refs_ok_def handle_alive_def)
  obtain pos where pos: "position (\<lambda>v. getCid s v = Ok ?c) (debug_held_vms s) = Some pos"
    using assms(3) position_None [of "\<lambda>v. getCid s v = Ok ?c" "debug_held_vms s"] by (fastforce simp: getCid_def)
  then have p: "pos < length (debug_held_vms s)" "getCid s (debug_held_vms s ! pos) = Ok ?c"
    using position_Some [OF pos] by simp_all
  have "debug_held_vms s ! pos = OwnVm a"
  proof (cases "debug_held_vms s ! pos")
    case (OwnVm b)
    then have "OwnVm b \<in> set (debug_held_vms s)" using p(1) by (metis nth_mem)
    moreover have "as_i32 (vi_cid (instances s ! b)) = ?c" using p(2) OwnVm by (simp add: getCid_def)
    ultimately have "b = a"
      using inv bound assms(3) as_i32_inj cid_limit unfolding vm_inv_def cids_ok_nth by metis
    with OwnVm show ?thesis by simp
  next
    case (ForeignVm r)
    then have "ForeignVm r \<in> set (debug_held_vms s)" using p(1) by (metis nth_mem)
    with assms(4) ForeignVm p(2) show ?thesis by (auto simp: getCid_def)
  qed
  with pos p(1) assms(2) show ?thesis
    by (simp add: debugDropVmRef_def debug_drop_vm_def give_handle_def mset_swap_remove)
qed

text \<open>
  Background machines. A debug client that asks for the machine held under a CID gets that
  machine, provided no foreign object among the held references claims the same CID; one
  reference leaves the manager and becomes a handle of the client.
\<close>

lemma debugDropVmRef_returns_held:
  assumes "vm_run wait_fails State_default s" and "debug_access_allowed caller" and "OwnVm a \<in> set (debug_held_vms s)"
    and "\<And>r. ForeignVm r \<in> set (debug_held_vms s) \<Longrightarrow> r \<noteq> getCid s (OwnVm a)"
  shows "\<exists>s'. debugDropVmRef caller (as_i32 (vi_cid (instances s ! a))) s = (Ok (Some (OwnVm a)), s') \<and>
    a \<in> set (handles s') \<and> mset (debug_held_vms s') = mset (debug_held_vms s) - {#OwnVm a#}"
  using held_dropped [OF assms] by auto

definition sample_held :: Manager where
  "sample_held = drop_handle True 0 (debug_hold_vm (OwnVm 0) sample_vm)"

lemma sample_held_reachable: "vm_run wait_fails State_default sample_held"
  unfolding sample_held_def
  by (rule vm_next [OF vm_next [OF sample_vm_reachable step_hold [of "OwnVm 0" _ shell]] step_drop])
     (auto simp: debugHoldVmRef_def shell_allowed debug_hold_vm_def sample_vm_def)

lemma sample_held_state:
  "debug_held_vms sample_held = [OwnVm 0]" "instances sample_held = instances sample_vm" "handles sample_held = []"
  by (simp_all add: sample_held_def drop_handle_def handle_alive_def debug_hold_vm_def sample_vm_def)

end
