(* ===== verification/Startup.thy ===== *)
theory Startup
  imports AuthFsMain ZipFuse VirtManager
begin

text \<open>
  The start of the programs. The two FUSE programs: \<open>loop_forever\<close> and \<open>main\<close> of authfs, \<open>run_fuse\<close>
  and \<open>main\<close> of zipfuse; the functions of the fuse crate and the open of the device are parameters,
  the state is the list of the mounts done so far. The two binder services: \<open>main\<close> of the file server
  and of the machine manager; the registration of a service is a parameter, and so are the requests
  that the thread pool takes before it ends.
\<close>

section \<open>The fuse crate\<close>

datatype MountOption = FD int | RootMode u32 | AllowOther | UserId u32 | GroupId u32 | MaxRead u32

type_synonym mount = "string \<times> string \<times> u32 \<times> MountOption list"

record ('fs, 'e) fuse_calls =
  open_device :: "string \<Rightarrow> (int, io_error) outcome"
  mount_result :: "mount \<Rightarrow> (unit, 'e) outcome"
  message_loop :: "int \<Rightarrow> u32 \<Rightarrow> u32 \<Rightarrow> 'fs \<Rightarrow> (unit, 'e) outcome"

definition fuse_mount :: "('fs, 'e) fuse_calls \<Rightarrow> mount \<Rightarrow> (mount list, unit, 'e) prog" where
  "fuse_mount fuse m ms =
     (case mount_result fuse m of Ok _ \<Rightarrow> (Ok (), ms @ [m]) | r \<Rightarrow> (r, ms))"

definition MS_RDONLY :: u32 where "MS_RDONLY = 1"
definition MS_NOSUID :: u32 where "MS_NOSUID = 2"
definition MS_NODEV :: u32 where "MS_NODEV = 4"
definition S_IXGRP :: u32 where "S_IXGRP = 0x8"
definition S_IXOTH :: u32 where "S_IXOTH = 0x1"

definition mount_options :: "int \<Rightarrow> u32 \<Rightarrow> MountOption list" where
  "mount_options dev_fuse max_read =
     [FD dev_fuse, RootMode (S_IFDIR OR S_IXUSR OR S_IXGRP OR S_IXOTH), AllowOther, UserId 0, GroupId 0,
      MaxRead max_read]"

section \<open>authfs\<close>

definition loop_forever ::
  "('s AuthFs, 'e) fuse_calls \<Rightarrow> (nat \<rightharpoonup> FileConfig) \<Rightarrow> string \<Rightarrow> 's \<Rightarrow> (string \<rightharpoonup> File) \<Rightarrow>
   (mount list, unit, 'e) prog" where
  "loop_forever fuse pool mountpoint s lf =
     (let max_read = 65536; max_write' = 65536 in
      bind_prog (ret (expect (open_device fuse ''/dev/fuse''))) (\<lambda>dev_fuse.
      bind_prog (\<lambda>ms. case fuse_mount fuse (mountpoint, ''authfs'', MS_NOSUID OR MS_NODEV,
          mount_options dev_fuse max_read) ms of (r, ms') \<Rightarrow> (expect r, ms')) (\<lambda>_.
      ret (message_loop fuse dev_fuse max_write' max_read (AuthFs_new pool max_write' s lf)))))"

datatype 'e authfs_error = ArgsError anyhow_error | PoolError anyhow_error | LoopError 'e | UnexpectedExit

definition authfs_main ::
  "bool \<Rightarrow> 's virt_fd_service \<Rightarrow> 'c sha256_ffi \<Rightarrow> ('s AuthFs, 'e) fuse_calls \<Rightarrow> clap \<Rightarrow> string list \<Rightarrow>
   's \<times> (string \<rightharpoonup> File) \<Rightarrow> (mount list, unit, 'e authfs_error) prog" where
  "authfs_main dbg svc ffi fuse clap argv slf =
     bind_prog (ret (map_err ArgsError (Args_from_args clap argv))) (\<lambda>cmd.
     case prepare_file_pool dbg svc ffi cmd slf of (r, s, lf) \<Rightarrow>
      bind_prog (ret (map_err PoolError r)) (\<lambda>pool.
      bind_prog (map_err_prog LoopError (loop_forever fuse pool (args_mount_point cmd) s lf)) (\<lambda>_.
      ret (Err UnexpectedExit))))"

section \<open>zipfuse\<close>

datatype 'e zipfuse_error = DeviceError io_error | FuseError 'e | ArchiveError zip_error

definition MAX_READ :: u32 where "MAX_READ = push_bit 20 1"
definition MAX_WRITE :: u32 where "MAX_WRITE = push_bit 13 1"

text \<open>The archive is opened by \<open>ZipFuse::new\<close>, an argument of the call that starts the loop.\<close>

definition run_fuse ::
  "(ZipFuse, 'e) fuse_calls \<Rightarrow> (string \<Rightarrow> (ZipArchive, zip_error) outcome) \<Rightarrow> string \<Rightarrow> string \<Rightarrow>
   (mount list, unit, 'e zipfuse_error) prog" where
  "run_fuse fuse open_zip zip_file mount_point =
     bind_prog (ret (map_err DeviceError (open_device fuse ''/dev/fuse''))) (\<lambda>dev_fuse.
     bind_prog (map_err_prog FuseError (fuse_mount fuse (mount_point, ''zipfuse'',
         MS_NOSUID OR MS_NODEV OR MS_RDONLY, mount_options dev_fuse MAX_READ))) (\<lambda>_.
     bind_prog (ret (map_err ArchiveError (and_then (open_zip zip_file) ZipFuse_new))) (\<lambda>fs.
     ret (map_err FuseError (message_loop fuse dev_fuse MAX_READ MAX_WRITE fs)))))"

definition zipfuse_main ::
  "(ZipFuse, 'e) fuse_calls \<Rightarrow> (string \<Rightarrow> (ZipArchive, zip_error) outcome) \<Rightarrow> string \<Rightarrow> string \<Rightarrow>
   (mount list, unit, 'e zipfuse_error) prog" where
  "zipfuse_main fuse open_zip zip_file mount_point =
     bind_prog (run_fuse fuse open_zip zip_file mount_point) (\<lambda>_. ret (Ok ()))"

section \<open>The binder services\<close>

definition fd_SERVICE_NAME :: string where
  "fd_SERVICE_NAME = ''authfs_fd_server''"

datatype fd_server_error = BadArgs arg_error | NotRegistered Status | ServerExited

text \<open>The files are open in the state that \<open>main\<close> starts in, as the caller of the server left them.\<close>

definition fd_server_main ::
  "bool \<Rightarrow> verity_ioctl \<Rightarrow> (string \<Rightarrow> (int \<rightharpoonup> FdConfig) \<Rightarrow> (unit, Status) outcome) \<Rightarrow> fd_request list \<Rightarrow>
   clap \<Rightarrow> string list \<Rightarrow> (unit, fd_server_error) fd_prog" where
  "fd_server_main dbg ioctl add_service reqs clap argv =
     bind_prog (map_err_prog BadArgs (fd_server_parse_args clap argv)) (\<lambda>_.
     bind_prog (\<lambda>s. (map_err NotRegistered (add_service fd_SERVICE_NAME (fd_pool s)), s)) (\<lambda>_.
     bind_prog (\<lambda>s. (Ok (), serve_all dbg ioctl reqs s)) (\<lambda>_.
     ret (Err ServerExited))))"

definition BINDER_SERVICE_IDENTIFIER :: string where
  "BINDER_SERVICE_IDENTIFIER = ''android.system.virtmanager''"

text \<open>The manager starts in its default state; \<open>served\<close> is what the thread pool does to it.\<close>

definition virtmanager_main ::
  "(string \<Rightarrow> (unit, StatusCode) outcome) \<Rightarrow> (Manager \<Rightarrow> Manager) \<Rightarrow> (unit, unit) outcome \<times> Manager" where
  "virtmanager_main add_service served =
     bind_prog (ret (expect (add_service BINDER_SERVICE_IDENTIFIER))) (\<lambda>_.
     (\<lambda>s. (Ok (), served s))) State_default"

section \<open>What the programs do\<close>

text \<open>authfs never returns success: when the loop ends without an error, \<open>main\<close> fails.\<close>

lemma authfs_main_fails: "\<not> is_ok (fst (authfs_main dbg svc ffi fuse clap argv slf ms))"
  by (auto simp: authfs_main_def bind_prog_def split: prod.splits outcome.splits)

text \<open>The file system that authfs serves has exactly the inodes of the command line.\<close>

lemma authfs_main_serves:
  assumes "Args_from_args clap argv = Ok cmd" and "prepare_file_pool dbg svc ffi cmd slf = (Ok pool, s, lf)"
    and "open_device fuse ''/dev/fuse'' = Ok dev" and "\<And>m. mount_result fuse m = Ok ()"
    and "\<And>d w r fs. message_loop fuse d w r fs = Err (d, fs)"
  shows "\<exists>fs ms'. authfs_main dbg svc ffi fuse clap argv slf ms = (Err (LoopError (dev, fs)), ms') \<and>
    dom (file_pool fs) = rro_ino ` set (remote_ro_file cmd) \<union> rru_ino ` set (remote_ro_file_unverified cmd) \<union>
      rrw_ino ` set (remote_new_rw_file cmd) \<union> lro_ino ` set (local_ro_file cmd) \<union>
      lru_ino ` set (local_ro_file_unverified cmd)"
  using assms prepare_file_pool_dom [OF assms(2)]
  by (simp add: authfs_main_def loop_forever_def bind_prog_def fuse_mount_def map_err_prog_def AuthFs_new_def Let_def)

text \<open>zipfuse mounts before it looks at the archive: after a failure to read the archive the mount
  point is left mounted.\<close>

lemma run_fuse_leaves_mount:
  assumes "open_device fuse ''/dev/fuse'' = Ok dev" and "\<And>m. mount_result fuse m = Ok ()"
    and "and_then (open_zip zip_file) ZipFuse_new = Err e"
  shows "\<exists>m. run_fuse fuse open_zip zip_file mount_point ms = (Err (ArchiveError e), ms @ [(mount_point, m)])"
  using assms by (simp add: run_fuse_def bind_prog_def fuse_mount_def map_err_prog_def)

text \<open>The file server never returns success, and whatever it is asked for it leaves the files that were
  passed for reading as they are. A failing registration leaves every request unserved.\<close>

lemma fd_server_main_fails: "\<not> is_ok (fst (fd_server_main dbg ioctl add_service reqs clap argv s))"
  by (auto simp: fd_server_main_def bind_prog_def map_err_prog_def split: prod.splits outcome.splits)

lemma fd_server_main_keeps_inputs:
  assumes "distinct (ins @ outs)" and "list_all i32_fd (ins @ outs)"
    and "fds_fine ins cont s" and "fds_fine outs (\<lambda>_. []) s" and "\<And>n pool. add_service n pool = Ok ()"
    and "fd \<in> set ins" and "clap_items clap"
  shows "\<exists>s'. fd_server_main dbg ioctl add_service reqs clap
      (program # concat (map (\<lambda>fd. [''--ro-fds'', show_int fd]) ins) @
        concat (map (\<lambda>fd. [''--rw-fds'', show_int fd]) outs)) s =
      (Err ServerExited, s') \<and> fd_contents fd s' = Some (cont fd)"
proof -
  obtain s1 where s1: "insert_fd_args (map show_int ins) (map show_int outs) s = (Ok (), s1)"
      "fd_pool s1 = insert_fds ReadWrite outs (insert_fds (\<lambda>fd. Readonly fd None None) ins Map.empty)"
      "fds_fine ins cont s1"
    using insert_fd_args_pool [OF assms(1-4)] by blast
  have "fd_contents fd s1 = Some (cont fd)" using s1(3) assms(6) by (auto simp: fds_fine_def fd_contents_def)
  moreover have "fd \<notin> writable_fds s1"
    using s1(2) assms(1,6) by (auto simp: writable_fds_def insert_fds_def split: if_splits)
  ultimately have "fd_contents fd (serve_all dbg ioctl reqs s1) = Some (cont fd)"
    using serve_all_only_changes [of s1 dbg ioctl reqs] by (simp add: only_changes_def)
  then show ?thesis
    using s1(1) assms(5) fd_server_parse_args_line [OF assms(7,2), of program]
    by (simp add: fd_server_main_def bind_prog_def map_err_prog_def)
qed

lemma fd_server_main_unregistered:
  assumes "fd_server_parse_args clap argv s = (Ok (), s')" and "add_service fd_SERVICE_NAME (fd_pool s') = Err e"
  shows "fd_server_main dbg ioctl add_service reqs clap argv s = (Err (NotRegistered e), s')"
  using assms by (simp add: fd_server_main_def bind_prog_def map_err_prog_def)

text \<open>The manager serves from its default state on, so the states between its calls are the
  reachable ones.\<close>

lemma virtmanager_main_reachable:
  assumes "add_service BINDER_SERVICE_IDENTIFIER = Ok ()" and "\<And>s. vm_run wait_fails s (served s)"
  shows "\<exists>s. virtmanager_main add_service served = (Ok (), s) \<and> vm_run wait_fails State_default s \<and> vm_inv s"
  using assms vm_reachable_inv by (fastforce simp: virtmanager_main_def bind_prog_def)

end
