(* ===== verification/VmHandles.thy ===== *)
theory VmHandles
  imports VirtManager
begin

text \<open>
  The life time of the handles of \<^verbatim>\<open>virtmanager/src/aidl.rs\<close> under reference counting. Binder keeps
  a count of the strong references to each \<open>VirtualMachine\<close> object and runs its destructor when the
  count reaches zero. Here every step of the manager comes with what it does to the counts:
  \<open>VirtualMachine::create\<close> makes the first reference, \<open>clone\<close> adds one (\<open>debugHoldVmRef\<close> stores a clone),
  returning a held reference moves it, and dropping one subtracts. The destructor itself
  (\<open>VirtualMachine_drop\<close>) kills unconditionally, as in the source.

  The lemmas: the counts agree with who holds references, every step of this machine is a step of
  the manager of \<^verbatim>\<open>VirtManager\<close>, and a child is killed exactly when the last reference goes.
\<close>

section \<open>Counting references\<close>

definition retain :: "nat \<Rightarrow> nat list \<Rightarrow> nat list" where
  "retain a c = c[a := c ! a + 1]"

definition release :: "bool \<Rightarrow> nat \<Rightarrow> Manager \<times> nat list \<Rightarrow> Manager \<times> nat list" where
  "release kill_ok a sc =
     (case sc of (s, c) \<Rightarrow>
       let s1 = s\<lparr>handles := remove1 a (handles s)\<rparr>; c1 = c[a := c ! a - 1]
       in (if c1 ! a = 0 then VirtualMachine_drop kill_ok a s1 else s1, c1))"

fun hold_count :: "VmRef \<Rightarrow> (unit, StatusCode) outcome \<Rightarrow> nat list \<Rightarrow> nat list" where
  "hold_count (OwnVm a) (Ok _) c = retain a c"
| "hold_count _ _ c = c"

inductive rc_step :: "bool \<Rightarrow> Manager \<times> nat list \<Rightarrow> Manager \<times> nat list \<Rightarrow> bool" for wait_fails where
  rc_start: "startVm (env :: nat Env) caller config_fd log_fd s = (r, s') \<Longrightarrow>
    rc_step wait_fails (s, c) (s', case r of Ok _ \<Rightarrow> c @ [1] | _ \<Rightarrow> c)"
| rc_hold: "(\<And>a. v = OwnVm a \<Longrightarrow> a \<in> set (handles s)) \<Longrightarrow> debugHoldVmRef caller v s = (r, s') \<Longrightarrow>
    rc_step wait_fails (s, c) (s', hold_count v r c)"
| rc_drop_held: "debugDropVmRef caller n s = (r, s') \<Longrightarrow> rc_step wait_fails (s, c) (s', c)"
| rc_clone: "a \<in> set (handles s) \<Longrightarrow> rc_step wait_fails (s, c) (s\<lparr>handles := handles s @ [a]\<rparr>, retain a c)"
| rc_drop: "a \<in> set (handles s) \<Longrightarrow> rc_step wait_fails (s, c) (release kill_ok a (s, c))"
| rc_register: "a \<in> set (handles s) \<Longrightarrow> rc_step wait_fails (s, c) (registerCallback a callback s, c)"
| rc_exit: "a < length (instances s) \<Longrightarrow>
    rc_step wait_fails (s, c) (update_instance a (\<lambda>i. i\<lparr>vi_child := Exited\<rparr>) s, c)"
| rc_died: "a < length (instances s) \<Longrightarrow> monitors s ! a = Waiting \<Longrightarrow>
    vi_child (instances s ! a) = Exited \<or> wait_fails \<Longrightarrow> rc_step wait_fails (s, c) (monitor_died a s, c)"
| rc_notify: "a < length (instances s) \<Longrightarrow> monitors s ! a = Notifying \<Longrightarrow> rc_step wait_fails (s, c) (monitor_notify a s, c)"

inductive rc_run :: "bool \<Rightarrow> Manager \<times> nat list \<Rightarrow> Manager \<times> nat list \<Rightarrow> bool" for wait_fails where
  rc_refl: "rc_run wait_fails x x"
| rc_next: "rc_run wait_fails x y \<Longrightarrow> rc_step wait_fails y z \<Longrightarrow> rc_run wait_fails x z"

text \<open>The references there are: those of the clients and those the manager holds.\<close>

definition references :: "Manager \<Rightarrow> nat \<Rightarrow> nat" where
  "references s a = count (mset (handles s)) a + count (mset (debug_held_vms s)) (OwnVm a)"

definition counts_ok :: "Manager \<times> nat list \<Rightarrow> bool" where
  "counts_ok sc = (case sc of (s, c) \<Rightarrow>
     length c = length (instances s) \<and> (\<forall>a<length (instances s). c ! a = references s a))"

lemma references_zero: "references s a = 0 \<longleftrightarrow> \<not> handle_alive s a"
  by (auto simp: references_def handle_alive_def count_eq_zero_iff)

lemma references_update [simp]: "references (update_instance a f s) = references s"
  by (rule ext) (simp add: references_def)

lemma counts_ok_same:
  assumes "counts_ok (s, c)" and "handles s' = handles s" and "debug_held_vms s' = debug_held_vms s"
    and "length (instances s') = length (instances s)"
  shows "counts_ok (s', c)"
  using assms by (simp add: counts_ok_def references_def)

lemma counts_ok_started:
  assumes "counts_ok (s, c)" and "vm_inv s"
  shows "counts_ok (started i s, c @ [1])"
proof -
  have "handles (started i s) = handles s @ [length (instances s)]" "debug_held_vms (started i s) = debug_held_vms s"
    by (simp_all add: started_def VirtualMachine_create_def add_vm_def new_instance_def)
  then have ref: "references (started i s) a = references s a + (if a = length (instances s) then 1 else 0)" for a
    by (simp add: references_def)
  have "references s (length (instances s)) = 0"
    using assms(2) by (auto simp: references_zero vm_inv_def refs_ok_def)
  with assms(1) ref show ?thesis by (auto simp: counts_ok_def started_simps nth_append less_Suc_eq)
qed

lemma counts_ok_hold:
  assumes "counts_ok (s, c)" and "debugHoldVmRef caller v s = (r, s')" and "\<And>a. v = OwnVm a \<Longrightarrow> a < length (instances s)"
  shows "counts_ok (s', hold_count v r c)"
proof (cases "debug_access_allowed caller")
  case True
  with assms(2) have s': "r = Ok ()" "s' = debug_hold_vm v s" by (simp_all add: debugHoldVmRef_def)
  show ?thesis
    using assms(1,3) unfolding s'
    by (cases v) (auto simp: counts_ok_def references_def debug_hold_vm_def retain_def nth_list_update)
next
  case False
  with assms(2) have "r = Err PERMISSION_DENIED" "s' = s" by (simp_all add: debugHoldVmRef_def)
  with assms(1) show ?thesis by (cases v) simp_all
qed

lemma references_give_handle:
  "references (give_handle (Some v) s) a = references s a + (if v = OwnVm a then 1 else 0)"
  by (cases v) (auto simp: give_handle_def references_def)

lemma references_drop_held:
  assumes "debugDropVmRef caller n s = (r, s')"
  shows "references s' a = references s a"
proof (cases "debug_access_allowed caller")
  case True
  show ?thesis
  proof (cases "position (\<lambda>v. getCid s v = Ok n) (debug_held_vms s)")
    case None
    with assms True show ?thesis by (auto simp: debugDropVmRef_def debug_drop_vm_def give_handle_def)
  next
    case (Some pos)
    let ?v = "debug_held_vms s ! pos"
    let ?s = "s\<lparr>debug_held_vms := swap_remove pos (debug_held_vms s)\<rparr>"
    have pos: "pos < length (debug_held_vms s)" using position_Some [OF Some] by simp
    have s': "s' = give_handle (Some ?v) ?s"
      using assms True Some by (auto simp: debugDropVmRef_def debug_drop_vm_def)
    have "?v \<in># mset (debug_held_vms s)" using pos by simp
    then show ?thesis unfolding s' references_give_handle
      by (auto simp: references_def mset_swap_remove [OF pos] count_eq_zero_iff [symmetric])
  qed
qed (use assms in \<open>simp add: debugDropVmRef_def\<close>)

lemma references_remove:
  assumes "a \<in> set (handles s)"
  shows "references (s\<lparr>handles := remove1 a (handles s)\<rparr>) b = references s b - (if b = a then 1 else 0)"
  using assms by (auto simp: references_def)

text \<open>With counts that agree, dropping a reference is the drop of the manager's model.\<close>

lemma release_drop:
  assumes "counts_ok (s, c)" and "vm_inv s" and "a \<in> set (handles s)"
  shows "release kill_ok a (s, c) = (drop_handle kill_ok a s, c[a := c ! a - 1])"
    and "counts_ok (drop_handle kill_ok a s, c[a := c ! a - 1])"
proof -
  let ?s = "s\<lparr>handles := remove1 a (handles s)\<rparr>"
  have a: "a < length (instances s)" "a < length c" and c: "\<And>b. b < length (instances s) \<Longrightarrow> c ! b = references s b"
    using handle_bound [OF assms(2,3)] assms(1) by (simp_all add: counts_ok_def)
  have ref: "references ?s b = references s b - (if b = a then 1 else 0)" for b
    by (rule references_remove [OF assms(3)])
  then have "c[a := c ! a - 1] ! a = references ?s a" using a c by simp
  then show "release kill_ok a (s, c) = (drop_handle kill_ok a s, c[a := c ! a - 1])"
    by (simp add: release_def drop_handle_def Let_def references_zero)
  have "counts_ok (?s, c[a := c ! a - 1])"
    using assms(1) a c ref by (auto simp: counts_ok_def nth_list_update)
  then show "counts_ok (drop_handle kill_ok a s, c[a := c ! a - 1])"
    by (rule counts_ok_same) (simp_all add: drop_handle_def VirtualMachine_drop_def Let_def)
qed

lemma rc_step_refines:
  assumes "rc_step wait_fails (s, c) (s', c')" and "vm_inv s" and "counts_ok (s, c)"
  shows "vm_step wait_fails s s' \<and> counts_ok (s', c')"
  using assms
proof (induction "(s, c)" "(s', c')" arbitrary: s c s' c' rule: rc_step.induct)
  case (rc_start env caller config_fd log_fd s r s' c)
  have "counts_ok (s', case r of Ok _ \<Rightarrow> c @ [1] | _ \<Rightarrow> c)"
    using rc_start(1)
  proof (cases rule: startVm_cases)
    case (started sid)
    then show ?thesis using counts_ok_started [OF rc_start(3,2)] by simp
  qed (use counts_ok_same [OF rc_start(3)] in \<open>auto split: outcome.split\<close>)
  then show ?case using step_start [OF rc_start(1)] by simp
next
  case (rc_hold v s caller r s' c)
  then show ?case using step_hold [of v s caller r s'] counts_ok_hold [OF rc_hold(4,2)] handle_bound [OF rc_hold(3)] by blast
next
  case (rc_drop_held caller n s r s' c)
  then show ?case using step_drop_held [OF rc_drop_held(1)] references_drop_held [OF rc_drop_held(1)]
      debugDropVmRef_alive(4) [OF rc_drop_held(1)] by (simp add: counts_ok_def)
next
  case (rc_clone a s c)
  then show ?case using step_clone [OF rc_clone(1)] handle_bound [OF rc_clone(2,1)]
    by (auto simp: counts_ok_def references_def retain_def nth_list_update)
next
  case (rc_drop a s c kill_ok)
  from release_drop [OF rc_drop(4,3,1), of kill_ok] rc_drop(2) step_drop [OF rc_drop(1), of wait_fails kill_ok]
  show ?case by simp
next
  case (rc_register a s c callback)
  then show ?case using step_register [OF rc_register(1)] counts_ok_same [OF rc_register(3)] by (simp add: registerCallback_def)
next
  case (rc_exit a s c)
  then show ?case using step_exit [OF rc_exit(1)] counts_ok_same [OF rc_exit(3)] by simp
next
  case (rc_died a s c)
  then show ?case using step_died [OF rc_died(1-3)] counts_ok_same [OF rc_died(5)] by (simp add: monitor_died_def)
next
  case (rc_notify a s c)
  then show ?case using step_notify [OF rc_notify(1,2)] counts_ok_same [OF rc_notify(4)] by (simp add: monitor_notify_def)
qed

lemma rc_run_refines: "rc_run wait_fails x y \<Longrightarrow> x = (State_default, []) \<Longrightarrow> vm_run wait_fails State_default (fst y) \<and> counts_ok y"
proof (induction rule: rc_run.induct)
  case (rc_refl x)
  then show ?case by (simp add: vm_refl counts_ok_def State_default_def)
next
  case (rc_next x y z)
  obtain s c s' c' where yz: "y = (s, c)" "z = (s', c')" by fastforce
  with rc_next have run: "vm_run wait_fails State_default s" and "counts_ok (s, c)" by simp_all
  with rc_step_refines [of wait_fails s c s' c'] rc_next(2) yz vm_reachable_inv [OF run] vm_next [OF run]
  show ?case by simp
qed

section \<open>Properties\<close>

text \<open>
  C18: When the process of a machine is killed. With reference counting, the count of each handle is
  the number of references that clients and the manager have, and every step is a step of the manager.
  A step that kills a machine leaves no reference to it; and a step that takes the last reference
  away has sent the signal, unless the process had ended or the kill failed, which is logged.
\<close>

theorem handles_counted:
  assumes "rc_run wait_fails (State_default, []) (s, c)" and "rc_step wait_fails (s, c) (s', c')" and "a < length (instances s)"
  shows "vm_step wait_fails s s' \<and> c' ! a = references s' a \<and>
    (vi_child (instances s ! a) = Alive \<and> vi_child (instances s' ! a) = Killed \<longrightarrow> \<not> handle_alive s' a) \<and>
    (handle_alive s a \<and> \<not> handle_alive s' a \<longrightarrow>
      vi_child (instances s' ! a) \<noteq> Alive \<or> vi_kill_error (instances s' ! a))"
proof -
  have run: "vm_run wait_fails State_default s" and counts: "counts_ok (s, c)"
    using rc_run_refines [OF assms(1) refl] by simp_all
  have inv: "vm_inv s" by (rule vm_reachable_inv [OF run])
  from rc_step_refines [OF assms(2) inv counts] have step: "vm_step wait_fails s s'" and counts': "counts_ok (s', c')" by simp_all
  from vm_step_local [OF step inv assms(3)] have a: "a < length (instances s')"
    and local: "local_step wait_fails (handle_alive s' a) (local_state s a) (local_state s' a)" by simp_all
  have "c' ! a = references s' a" using counts' a by (simp add: counts_ok_def)
  moreover have "\<not> handle_alive s' a" if "vi_child (instances s ! a) = Alive" "vi_child (instances s' ! a) = Killed"
    using local that unfolding local_state_def by (blast dest: local_kill_only)
  moreover have "vi_child (instances s' ! a) \<noteq> Alive \<or> vi_kill_error (instances s' ! a)" if "\<not> handle_alive s' a"
    using vm_inv_step [OF step inv] a that by (auto simp: vm_inv_def children_ok_def)
  ultimately show ?thesis using step by blast
qed

lemma sample_counted: "rc_run wait_fails (State_default, []) (sample_vm, [1])"
  using rc_next [OF rc_refl rc_start [OF sample_start, where c = "[]"]] by simp

lemma sample_release: "release True 0 (sample_vm, [1]) = (VirtualMachine_drop True 0 (sample_vm\<lparr>handles := []\<rparr>), [0])"
  by (simp add: release_def sample_vm_def)

lemma sample_released: "rc_step wait_fails (sample_vm, [1]) (VirtualMachine_drop True 0 (sample_vm\<lparr>handles := []\<rparr>), [0])"
  unfolding sample_release [symmetric] by (rule rc_drop) (simp add: sample_vm_def)

theorem handles_counted_witness:
  "(case release True 0 (sample_vm, [1]) of (s', c') \<Rightarrow>
     \<not> handle_alive s' 0 \<and> c' ! 0 = references s' 0 \<and> vi_child (instances s' ! 0) = Killed)"
  using handles_counted [OF sample_counted [of True] sample_released, of 0]
  unfolding sample_release
  by (simp add: sample_vm_def VmInstance_new_def VirtualMachine_drop_def update_instance_def vm_kill_def)

end
