(* ===== verification/Sync.thy ===== *)
theory Sync
  imports Prelude
begin

text \<open>
  \<^verbatim>\<open>vm/src/sync.rs\<close>: \<open>AtomicFlag\<close>, a boolean under a mutex with a condition variable. The condition
  variable is modelled by the threads that have called \<open>wait\<close> and the phase each is in. \<open>wait\<close> tests
  the flag under the mutex and, while it is down, goes to sleep on the condition variable, which
  releases the mutex in the same step; a sleeper that is woken, by \<open>notify_all\<close> or spuriously,
  tests the flag again. \<open>raise\<close> sets the flag and wakes all sleepers under the mutex.

  The lemmas: no wake-up is lost. Once the flag is up no thread sleeps, and every waiting thread
  returns at its next step; while it is down no thread returns.
\<close>

section \<open>Definitions\<close>

datatype wait_phase = Calls | Sleeps | Woken | Done

record AtomicFlag =
  flag_state :: bool
  condvar :: "wait_phase list"

definition AtomicFlag_default :: AtomicFlag where
  "AtomicFlag_default = \<lparr>flag_state = False, condvar = []\<rparr>"

text \<open>A thread calls \<open>wait\<close>; \<open>AtomicFlag_wait i\<close> is one critical section of thread \<open>i\<close> inside
  \<open>wait_while\<close>, which tests the flag on entry and after each wake-up. A sleeping thread cannot run.\<close>

definition enter_wait :: "AtomicFlag \<Rightarrow> AtomicFlag" where
  "enter_wait f = f\<lparr>condvar := condvar f @ [Calls]\<rparr>"

fun wait_while :: "bool \<Rightarrow> wait_phase \<Rightarrow> wait_phase" where
  "wait_while up Calls = (if up then Done else Sleeps)"
| "wait_while up Woken = (if up then Done else Sleeps)"
| "wait_while up p = p"

definition AtomicFlag_wait :: "nat \<Rightarrow> AtomicFlag \<Rightarrow> AtomicFlag" where
  "AtomicFlag_wait i f = f\<lparr>condvar := (condvar f)[i := wait_while (flag_state f) (condvar f ! i)]\<rparr>"

fun wake :: "wait_phase \<Rightarrow> wait_phase" where
  "wake Sleeps = Woken"
| "wake p = p"

definition notify_all :: "AtomicFlag \<Rightarrow> AtomicFlag" where
  "notify_all f = f\<lparr>condvar := map wake (condvar f)\<rparr>"

definition AtomicFlag_raise :: "AtomicFlag \<Rightarrow> AtomicFlag" where
  "AtomicFlag_raise f = notify_all (f\<lparr>flag_state := True\<rparr>)"

definition spurious_wake :: "nat \<Rightarrow> AtomicFlag \<Rightarrow> AtomicFlag" where
  "spurious_wake i f = f\<lparr>condvar := (condvar f)[i := wake (condvar f ! i)]\<rparr>"

inductive flag_step :: "AtomicFlag \<Rightarrow> AtomicFlag \<Rightarrow> bool" where
  flag_enter: "flag_step f (enter_wait f)"
| flag_wait: "i < length (condvar f) \<Longrightarrow> flag_step f (AtomicFlag_wait i f)"
| flag_raise: "flag_step f (AtomicFlag_raise f)"
| flag_spurious: "i < length (condvar f) \<Longrightarrow> flag_step f (spurious_wake i f)"

inductive flag_run :: "AtomicFlag \<Rightarrow> AtomicFlag \<Rightarrow> bool" where
  flag_refl: "flag_run f f"
| flag_next: "flag_run f f1 \<Longrightarrow> flag_step f1 f2 \<Longrightarrow> flag_run f f2"

inductive_cases flag_stepE: "flag_step f f'"

section \<open>No lost wake-up\<close>

text \<open>The phases a thread can be in: no sleeper once the flag is up, no return while it is down.\<close>

definition phase_ok :: "bool \<Rightarrow> wait_phase \<Rightarrow> bool" where
  "phase_ok up p \<longleftrightarrow> (if up then p \<noteq> Sleeps else p \<noteq> Done)"

definition flag_inv :: "AtomicFlag \<Rightarrow> bool" where
  "flag_inv f \<longleftrightarrow> (\<forall>p \<in> set (condvar f). phase_ok (flag_state f) p)"

lemma phase_ok_kept:
  assumes "phase_ok up p"
  shows "phase_ok up (wait_while up p)" "phase_ok up (wake p)" "phase_ok True (wake p)"
  using assms by (cases p; simp add: phase_ok_def)+

lemma flag_inv_nth: "flag_inv f \<Longrightarrow> i < length (condvar f) \<Longrightarrow> phase_ok (flag_state f) (condvar f ! i)"
  by (simp add: flag_inv_def)

lemma flag_inv_update:
  assumes "flag_inv f" and "phase_ok (flag_state f) p"
  shows "flag_inv (f\<lparr>condvar := (condvar f)[i := p]\<rparr>)"
  using assms set_update_subset_insert [of "condvar f" i p] by (auto simp: flag_inv_def)

lemma flag_inv_wait: "flag_inv f \<Longrightarrow> i < length (condvar f) \<Longrightarrow> flag_inv (AtomicFlag_wait i f)"
  unfolding AtomicFlag_wait_def by (intro flag_inv_update phase_ok_kept(1) flag_inv_nth)

lemma flag_inv_spurious: "flag_inv f \<Longrightarrow> i < length (condvar f) \<Longrightarrow> flag_inv (spurious_wake i f)"
  unfolding spurious_wake_def by (intro flag_inv_update phase_ok_kept(2) flag_inv_nth)

lemma flag_inv_raise: "flag_inv f \<Longrightarrow> flag_inv (AtomicFlag_raise f)"
  by (auto simp: flag_inv_def AtomicFlag_raise_def notify_all_def intro: phase_ok_kept(3))

lemma flag_inv_enter: "flag_inv f \<Longrightarrow> flag_inv (enter_wait f)"
  by (simp add: flag_inv_def enter_wait_def phase_ok_def)

lemma flag_inv_default: "flag_inv AtomicFlag_default"
  by (simp add: flag_inv_def AtomicFlag_default_def)

lemma flag_inv_step: "flag_step f f' \<Longrightarrow> flag_inv f \<Longrightarrow> flag_inv f'"
  by (erule flag_stepE) (simp_all add: flag_inv_wait flag_inv_spurious flag_inv_raise flag_inv_enter)

lemma flag_inv_run: "flag_run f f' \<Longrightarrow> flag_inv f \<Longrightarrow> flag_inv f'"
  by (induction rule: flag_run.induct) (auto intro: flag_inv_step)

text \<open>A thread whose next critical section ends with \<open>Done\<close> is one for which the flag is up.\<close>

lemma flag_inv_returns:
  assumes "flag_inv f" and "i < length (condvar f)"
  shows "condvar (AtomicFlag_wait i f) ! i = Done \<longleftrightarrow> flag_state f"
  using flag_inv_nth [OF assms] assms(2)
  by (cases "condvar f ! i") (simp_all add: AtomicFlag_wait_def phase_ok_def split: if_splits)

lemma flag_wait_returns:
  assumes "flag_run AtomicFlag_default f" and "i < length (condvar f)"
  shows "condvar (AtomicFlag_wait i f) ! i = Done \<longleftrightarrow> flag_state f"
  by (rule flag_inv_returns [OF flag_inv_run [OF assms(1) flag_inv_default] assms(2)])

lemma length_condvar [simp]:
  "length (condvar (AtomicFlag_wait i f)) = length (condvar f)"
  "length (condvar (AtomicFlag_raise f)) = length (condvar f)"
  "length (condvar (spurious_wake i f)) = length (condvar f)"
  by (simp_all add: AtomicFlag_wait_def AtomicFlag_raise_def notify_all_def spurious_wake_def)

lemma flag_state_simps [simp]:
  "flag_state (AtomicFlag_wait i f) = flag_state f" "flag_state (AtomicFlag_raise f)"
  "flag_state (spurious_wake i f) = flag_state f" "flag_state (enter_wait f) = flag_state f"
  by (simp_all add: AtomicFlag_wait_def AtomicFlag_raise_def notify_all_def spurious_wake_def enter_wait_def)

end
