(* ===== verification/VmTool.thy ===== *)
theory VmTool
  imports VmHandles Sync
begin

text \<open>
  \<^verbatim>\<open>vm/src\<close>: the command-line tool. \<open>run\<close> starts a machine through the manager and
  either leaves the handle with the manager or waits until the machine dies; \<open>stop\<close> takes the
  handle back and drops it; \<open>list\<close> prints the machines.

  The steps of the manager and of its other clients that happen between the tool's calls
  are a parameter \<open>others\<close>; while the tool waits, they are interleaved with the critical sections of
  its waiting thread and with the calls made to its callback (\<open>tool_step\<close>). The callback is an
  object of the tool's own, named by a number and registered for the tool's machine only. Opening and
  duplicating files, failing binder calls and the answer to the kill (\<open>kill_ok\<close>) are parameters.

  The lemmas: a machine run in the background survives the tool and is killed by \<open>stop\<close> if the
  manager had the last reference; the waiting tool returns once the machine has died, unless it died
  before the callback was registered.
\<close>

section \<open>Definitions\<close>

datatype tool_error = NoManager | BadPath | OpenError | StdoutError | ManagerError StatusCode | LinkError | NoSuchVm

text \<open>What the surroundings answer: whether the manager is registered, the path as text, the opened
  file, \<open>dup\<close>, the error with which a call to a method of the machine fails to be delivered (if it
  does), and \<open>link_to_death\<close>.\<close>

record 'f ToolEnv =
  manager_found :: "string \<Rightarrow> bool"
  path_str :: "string option"
  open_config :: "string \<Rightarrow> 'f option"
  dup_stdout :: int
  stdout_file :: "'f"
  call_error :: "string \<Rightarrow> StatusCode option"
  link_ok :: bool

definition duplicate_stdout :: "'f ToolEnv \<Rightarrow> ('f, tool_error) outcome" where
  "duplicate_stdout te = (if dup_stdout te < 0 then Err StdoutError else Ok (stdout_file te))"

text \<open>\<open>onDied\<close> of the tool's callback raises the flag.\<close>

definition onDied :: "nat \<Rightarrow> nat \<times> int \<Rightarrow> AtomicFlag \<Rightarrow> AtomicFlag" where
  "onDied callback call dead = (if fst call = callback then AtomicFlag_raise dead else dead)"

text \<open>The tool returns, or it waits for a machine on a flag.\<close>

datatype tool_state = Returned "(unit, tool_error) outcome" | WaitsFor nat AtomicFlag

text \<open>The death recipient that \<open>wait_for_death\<close> links is what the manager's death does to the flag.\<close>

definition wait_for_death :: "'f ToolEnv \<Rightarrow> (AtomicFlag \<Rightarrow> AtomicFlag, tool_error) outcome" where
  "wait_for_death te = (if link_ok te then Ok AtomicFlag_raise else Err LinkError)"

definition wait_for_vm :: "bool \<Rightarrow> 'f ToolEnv \<Rightarrow> nat \<Rightarrow> nat \<Rightarrow> Manager \<Rightarrow> tool_state \<times> Manager" where
  "wait_for_vm kill_ok te callback a s =
     (let dead = AtomicFlag_default
      in case call_error te ''registerCallback'' of
           Some e \<Rightarrow> (Returned (Err (ManagerError e)), drop_handle kill_ok a s)
         | None \<Rightarrow>
             (let s1 = registerCallback a callback s
              in case wait_for_death te of
                   Ok death_recipient \<Rightarrow> (WaitsFor a (enter_wait dead), s1)
                 | r \<Rightarrow> (Returned (and_then r (\<lambda>_. Ok ())), drop_handle kill_ok a s1)))"

text \<open>The end of \<open>wait_for_vm\<close>, once the wait for the flag has returned.\<close>

definition wait_for_vm_end :: "bool \<Rightarrow> AtomicFlag \<Rightarrow> nat \<Rightarrow> Manager \<Rightarrow> tool_state \<times> Manager" where
  "wait_for_vm_end kill_ok dead a s =
     (if condvar dead ! 0 = Done then (Returned (Ok ()), drop_handle kill_ok a s) else (WaitsFor a dead, s))"

definition command_run ::
  "bool \<Rightarrow> ('f, 'z) Env_scheme \<Rightarrow> Caller \<Rightarrow> 'f ToolEnv \<Rightarrow> (Manager \<Rightarrow> Manager) \<Rightarrow> nat \<Rightarrow> bool \<Rightarrow> Manager \<Rightarrow>
   tool_state \<times> Manager" where
  "command_run kill_ok env caller te others callback daemonize s =
     (case path_str te of
        None \<Rightarrow> (Returned (Err BadPath), s)
      | Some config_filename \<Rightarrow>
          (case open_config te config_filename of
             None \<Rightarrow> (Returned (Err OpenError), s)
           | Some config_file \<Rightarrow>
               (case duplicate_stdout te of
                  Ok out \<Rightarrow>
                    (case startVm env caller config_file (if daemonize then None else Some out) s of
                       (Ok a, s1) \<Rightarrow>
                         let s2 = others s1 in
                         (case call_error te ''getCid'' of
                            Some e \<Rightarrow> (Returned (Err (ManagerError e)), drop_handle kill_ok a s2)
                          | None \<Rightarrow>
                              if daemonize
                              then case debugHoldVmRef caller (OwnVm a) s2 of
                                     (r, s3) \<Rightarrow> (Returned (map_err ManagerError r), drop_handle kill_ok a s3)
                              else wait_for_vm kill_ok te callback a s2)
                     | (r, s1) \<Rightarrow> (Returned (and_then (map_err ManagerError r) (\<lambda>_. Ok ())), s1))
                | Err e \<Rightarrow> (Returned (Err e), s)
                | Panic \<Rightarrow> (Returned Panic, s)
                | OutOfFuel \<Rightarrow> (Returned OutOfFuel, s))))"

definition command_stop :: "bool \<Rightarrow> Caller \<Rightarrow> nat \<Rightarrow> (Manager, unit, tool_error) prog" where
  "command_stop kill_ok caller c s =
     (case debugDropVmRef caller (as_i32 c) s of
        (Ok (Some (OwnVm a)), s') \<Rightarrow> (Ok (), drop_handle kill_ok a s')
      | (Ok (Some (ForeignVm r)), s') \<Rightarrow> (Ok (), s')
      | (Ok None, s') \<Rightarrow> (Err NoSuchVm, s')
      | (Err e, s') \<Rightarrow> (Err (ManagerError e), s')
      | (Panic, s') \<Rightarrow> (Panic, s')
      | (OutOfFuel, s') \<Rightarrow> (OutOfFuel, s'))"

definition command_list :: "Caller \<Rightarrow> (Manager, VirtualMachineDebugInfo list, tool_error) prog" where
  "command_list caller = map_err_prog ManagerError (debugListVms caller)"

datatype Opt = Run bool | Stop nat | ListVms

definition VIRT_MANAGER_BINDER_SERVICE_IDENTIFIER :: string where
  "VIRT_MANAGER_BINDER_SERVICE_IDENTIFIER = ''android.system.virtmanager''"

text \<open>The command of \<open>main\<close>; the machines that \<open>list\<close> prints are its output.\<close>

definition vm_main ::
  "bool \<Rightarrow> ('f, 'z) Env_scheme \<Rightarrow> Caller \<Rightarrow> 'f ToolEnv \<Rightarrow> (Manager \<Rightarrow> Manager) \<Rightarrow> nat \<Rightarrow> Opt \<Rightarrow> Manager \<Rightarrow>
   (tool_state \<times> VirtualMachineDebugInfo list) \<times> Manager" where
  "vm_main kill_ok env caller te others callback opt s =
     (if \<not> manager_found te VIRT_MANAGER_BINDER_SERVICE_IDENTIFIER then ((Returned (Err NoManager), []), s) else
      case opt of
        Run daemonize \<Rightarrow> (case command_run kill_ok env caller te others callback daemonize s of (t, s') \<Rightarrow> ((t, []), s'))
      | Stop c \<Rightarrow> (case command_stop kill_ok caller c s of (r, s') \<Rightarrow> ((Returned r, []), s'))
      | ListVms \<Rightarrow>
          (case command_list caller s of
             (Ok infos, s') \<Rightarrow> ((Returned (Ok ()), infos), s')
           | (r, s') \<Rightarrow> ((Returned (and_then r (\<lambda>_. Ok ())), []), s')))"

section \<open>Waiting\<close>

text \<open>
  What goes on while the tool waits for machine \<open>a\<close>: steps of the manager, whose new calls to the
  tool's callback raise the flag; critical sections of the tool's waiting thread, the only one on its
  flag; spurious wake-ups; and, if \<open>dies\<close>, the death of the manager, which runs the death recipient.
\<close>

definition new_calls :: "nat \<Rightarrow> Manager \<Rightarrow> Manager \<Rightarrow> (nat \<times> int) list" where
  "new_calls a s s' = drop (length (calls_of s a)) (calls_of s' a)"

inductive tool_step :: "bool \<Rightarrow> bool \<Rightarrow> nat \<Rightarrow> nat \<Rightarrow> Manager \<times> AtomicFlag \<Rightarrow> Manager \<times> AtomicFlag \<Rightarrow> bool"
  for wait_fails dies callback a where
  tool_manager: "vm_step wait_fails s s' \<Longrightarrow>
    tool_step wait_fails dies callback a (s, dead) (s', fold (onDied callback) (new_calls a s s') dead)"
| tool_wait: "tool_step wait_fails dies callback a (s, dead) (s, AtomicFlag_wait 0 dead)"
| tool_spurious: "tool_step wait_fails dies callback a (s, dead) (s, spurious_wake 0 dead)"
| tool_manager_dies: "dies \<Longrightarrow> tool_step wait_fails dies callback a (s, dead) (s, AtomicFlag_raise dead)"

inductive tool_run :: "bool \<Rightarrow> bool \<Rightarrow> nat \<Rightarrow> nat \<Rightarrow> Manager \<times> AtomicFlag \<Rightarrow> Manager \<times> AtomicFlag \<Rightarrow> bool"
  for wait_fails dies callback a where
  tool_refl: "tool_run wait_fails dies callback a x x"
| tool_next: "tool_run wait_fails dies callback a x y \<Longrightarrow> tool_step wait_fails dies callback a y z \<Longrightarrow>
    tool_run wait_fails dies callback a x z"

text \<open>The flag of the tool, on which one thread waits.\<close>

definition tool_flag_ok :: "AtomicFlag \<Rightarrow> bool" where
  "tool_flag_ok dead \<longleftrightarrow> flag_inv dead \<and> length (condvar dead) = 1"

lemma tool_flag_ok_kept:
  assumes "tool_flag_ok dead"
  shows "tool_flag_ok (AtomicFlag_wait 0 dead)" "tool_flag_ok (spurious_wake 0 dead)" "tool_flag_ok (AtomicFlag_raise dead)"
  using assms by (simp_all add: tool_flag_ok_def flag_inv_wait flag_inv_spurious flag_inv_raise)

lemma tool_flag_ok_init: "tool_flag_ok (enter_wait AtomicFlag_default)"
  by (simp add: tool_flag_ok_def flag_inv_enter flag_inv_default) (simp add: enter_wait_def AtomicFlag_default_def)


text \<open>The waiting thread returns at its next critical section exactly when the flag is up.\<close>

lemma tool_returns:
  assumes "tool_flag_ok dead"
  shows "wait_for_vm_end kill_ok (AtomicFlag_wait 0 dead) a s =
    (if flag_state dead then (Returned (Ok ()), drop_handle kill_ok a s) else (WaitsFor a (AtomicFlag_wait 0 dead), s))"
proof -
  have "flag_inv dead" "0 < length (condvar dead)" using assms by (simp_all add: tool_flag_ok_def)
  from flag_inv_returns [OF this] show ?thesis by (simp add: wait_for_vm_end_def)
qed

lemma wait_for_vm_waits:
  assumes "wait_for_vm kill_ok te callback a s = (WaitsFor b dead, s1)"
  shows "b = a" "dead = enter_wait AtomicFlag_default" "s1 = registerCallback a callback s"
  using assms by (auto simp: wait_for_vm_def wait_for_death_def Let_def split: option.splits if_splits)








text \<open>The tool has registered too late: the monitor thread is done and the flag is down.\<close>

definition missed :: "nat \<Rightarrow> Manager \<times> AtomicFlag \<Rightarrow> bool" where
  "missed a x =
     (case x of (s, dead) \<Rightarrow> vm_inv s \<and> a < length (instances s) \<and> tool_flag_ok dead \<and> monitors s ! a = Finished \<and>
        \<not> flag_state dead)"

lemma missed_step: "tool_step wait_fails False callback a x y \<Longrightarrow> missed a x \<Longrightarrow> missed a y"
proof (induction rule: tool_step.induct)
  case (tool_manager s s' dead)
  then have s: "vm_inv s" "a < length (instances s)" "monitors s ! a = Finished" by (simp_all add: missed_def)
  from finished_run [OF vm_next [OF vm_refl tool_manager(1)] s] have "new_calls a s s' = []" and
    "a < length (instances s')" "monitors s' ! a = Finished" by (simp_all add: new_calls_def)
  with tool_manager(2) vm_inv_step [OF tool_manager(1) s(1)] show ?case by (simp add: missed_def)
qed (auto simp: missed_def tool_flag_ok_kept)

lemma missed_run: "tool_run wait_fails False callback a x y \<Longrightarrow> missed a x \<Longrightarrow> missed a y"
  by (induction rule: tool_run.induct) (auto intro: missed_step)

lemma manager_death_wakes:
  assumes "wait_for_death te = Ok death_recipient" and "tool_flag_ok dead"
  shows "wait_for_vm_end kill_ok (AtomicFlag_wait 0 (death_recipient dead)) a s = (Returned (Ok ()), drop_handle kill_ok a s)"
  using assms tool_returns [OF tool_flag_ok_kept(3) [OF assms(2)]] by (auto simp: wait_for_death_def split: if_splits)

section \<open>Properties\<close>

text \<open>
  C24: Background machines survive the tool. When \<open>run --daemonize\<close> succeeds, the manager holds
  the new machine, and dropping the tool's own handle has changed no instance.
\<close>

theorem daemon_survives:
  assumes "command_run kill_ok env caller te others callback True s = (Returned (Ok ()), s')"
  shows "\<exists>config_file a s1. startVm env caller config_file None s = (Ok a, s1) \<and>
    OwnVm a \<in> set (debug_held_vms s') \<and> instances s' = instances (others s1)"
proof -
  obtain path f where pf: "path_str te = Some path" "open_config te path = Some f" "\<not> dup_stdout te < 0"
    using assms by (auto simp: command_run_def duplicate_stdout_def split: option.splits if_splits)
  obtain r s1 where start: "startVm env caller f None s = (r, s1)" by fastforce
  show ?thesis
  proof (cases r)
    case (Ok a)
    obtain r2 s3 where hold: "debugHoldVmRef caller (OwnVm a) (others s1) = (r2, s3)" by fastforce
    with assms pf start Ok have s': "map_err ManagerError r2 = Ok ()" "s' = drop_handle kill_ok a s3"
      by (cases "call_error te ''getCid''"; simp add: command_run_def duplicate_stdout_def Let_def)+
    with hold have "s3 = debug_hold_vm (OwnVm a) (others s1)" by (auto simp: debugHoldVmRef_def split: if_splits)
    with s'(2) have "OwnVm a \<in> set (debug_held_vms s') \<and> instances s' = instances (others s1)"
      by (simp add: drop_handle_def handle_alive_def debug_hold_vm_def)
    with start Ok show ?thesis by blast
  qed (use assms pf start in \<open>simp_all add: command_run_def duplicate_stdout_def\<close>)
qed

definition sample_tool :: "nat ToolEnv" where
  "sample_tool = \<lparr>manager_found = (\<lambda>_. True), path_str = Some ''vm.json'', open_config = (\<lambda>_. Some 0), dup_stdout = 1, stdout_file = 1,
     call_error = (\<lambda>_. None), link_ok = True\<rparr>"

lemma sample_command_run:
  "command_run True sample_env shell sample_tool (\<lambda>s. s) 5 True State_default = (Returned (Ok ()), sample_held)"
  by (simp add: command_run_def sample_tool_def duplicate_stdout_def sample_start debugHoldVmRef_def shell_allowed sample_held_def)

theorem daemon_survives_witness:
  "\<exists>config_file a s1. startVm sample_env shell config_file None State_default = (Ok a, s1) \<and>
    OwnVm a \<in> set (debug_held_vms sample_held) \<and> instances sample_held = instances s1"
  by (rule daemon_survives [OF sample_command_run])

text \<open>
  C25: What \<open>stop\<close> does to the machine it names. If the manager holds a machine whose CID no foreign
  object claims, \<open>stop\<close> with that CID by a debug client succeeds. If this was the only reference,
  no handle is left, the machine and no other is sent the kill (which can fail and is then only logged);
  if a client has another reference, or the manager holds the machine twice, nothing is killed.
\<close>

theorem command_stop_kills:
  assumes "vm_run wait_fails State_default s" and "debug_access_allowed caller" and "OwnVm a \<in> set (debug_held_vms s)"
    and "\<And>r. ForeignVm r \<in> set (debug_held_vms s) \<Longrightarrow> r \<noteq> getCid s (OwnVm a)"
  shows "\<exists>s'. command_stop kill_ok caller (vi_cid (instances s ! a)) s = (Ok (), s') \<and>
    (if references s a = 1
     then \<not> handle_alive s' a \<and> instances s' = (instances s)[a := vm_kill kill_ok (instances s ! a)]
     else handle_alive s' a \<and> instances s' = instances s)"
proof -
  from held_dropped [OF assms] obtain s1 where
    d: "debugDropVmRef caller (as_i32 (vi_cid (instances s ! a))) s = (Ok (Some (OwnVm a)), s1)"
    and h: "handles s1 = handles s @ [a]"
    by blast
  have i: "instances s1 = instances s" by (rule debugDropVmRef_alive(4) [OF d])
  let ?s2 = "s1\<lparr>handles := remove1 a (handles s1)\<rparr>"
  have "references s a \<noteq> 0" using assms(3) by (simp add: references_zero handle_alive_def)
  moreover have "references ?s2 a = references s a - 1"
    using references_remove [of a s1 a] references_drop_held [OF d] h by simp
  ultimately have "handle_alive ?s2 a \<longleftrightarrow> references s a \<noteq> 1" using references_zero [of ?s2 a] by auto
  then show ?thesis using d i
    by (simp add: command_stop_def drop_handle_def VirtualMachine_drop_def Let_def) (simp add: update_instance_def)
qed

theorem command_stop_kills_witness:
  "\<exists>s'. command_stop True shell (vi_cid (instances sample_held ! 0)) sample_held = (Ok (), s') \<and>
    (if references sample_held 0 = 1
     then \<not> handle_alive s' 0 \<and> instances s' = (instances sample_held)[0 := vm_kill True (instances sample_held ! 0)]
     else handle_alive s' 0 \<and> instances s' = instances sample_held)"
  by (rule command_stop_kills [OF sample_held_reachable [of True] shell_allowed]) (simp_all add: sample_held_state)


text \<open>In the sample the waiting thread is asleep when the machine dies.\<close>

definition sample_asleep :: AtomicFlag where
  "sample_asleep = AtomicFlag_wait 0 (enter_wait AtomicFlag_default)"




text \<open>
  C29: The tool can miss the death of its machine. If the machine's monitor thread was done before
  the tool registered its callback, then in every interleaving in which the manager itself does not
  die the flag stays down and the tool keeps waiting.
\<close>

theorem waiting_tool_misses_death:
  assumes "vm_run wait_fails State_default s" and "a \<in> set (handles s)" and "monitors s ! a = Finished"
    and "wait_for_vm kill_ok te callback a s = (WaitsFor a dead, s1)"
    and "tool_run wait_fails False callback a (s1, dead) (s2, dead2)"
  shows "wait_for_vm_end kill_ok (AtomicFlag_wait 0 dead2) a s2 = (WaitsFor a (AtomicFlag_wait 0 dead2), s2)"
proof -
  have inv: "vm_inv s" by (rule vm_reachable_inv [OF assms(1)])
  have s1: "s1 = registerCallback a callback s" and dead: "dead = enter_wait AtomicFlag_default"
    using wait_for_vm_waits [OF assms(4)] by simp_all
  have "vm_inv s1" unfolding s1 by (rule vm_inv_step [OF step_register [OF assms(2)] inv])
  then have "missed a (s1, dead)"
    using handle_bound [OF inv assms(2)] assms(3) tool_flag_ok_init unfolding s1 dead
    by (simp add: missed_def registerCallback_def AtomicFlag_default_def)
  from missed_run [OF assms(5) this] show ?thesis by (simp add: missed_def tool_returns)
qed

text \<open>The sample machine has died before the tool registers its callback 6.\<close>

lemma sample_finished_reachable: "vm_run wait_fails State_default (monitor_notify 0 sample_dead)"
  by (rule vm_next [OF sample_dead_reachable step_notify])
     (simp_all add: sample_dead_def monitor_died_def sample_vm_def registerCallback_def)

lemma sample_finished_state:
  "handles (monitor_notify 0 sample_dead) = [0]" "monitors (monitor_notify 0 sample_dead) ! 0 = Finished"
  by (simp_all add: sample_dead_def monitor_died_def sample_vm_def registerCallback_def monitor_notify_def)

theorem waiting_tool_misses_death_witness:
  "wait_for_vm_end True (AtomicFlag_wait 0 sample_asleep) 0 (registerCallback 0 6 (monitor_notify 0 sample_dead)) =
   (WaitsFor 0 (AtomicFlag_wait 0 sample_asleep), registerCallback 0 6 (monitor_notify 0 sample_dead))"
  unfolding sample_asleep_def
  by (rule waiting_tool_misses_death [where te = sample_tool,
        OF sample_finished_reachable [of True] _ _ _ tool_next [OF tool_refl tool_wait]])
     (simp_all add: sample_finished_state wait_for_vm_def wait_for_death_def sample_tool_def)

end
