(* ===== verification/Payload.thy ===== *)
theory Payload
  imports Text OsFile
begin

text \<open>
  \<^verbatim>\<open>microdroid/signature\<close>: the signature file (\<^verbatim>\<open>signature.cc\<close>) and the payload disk
  (\<^verbatim>\<open>mk_payload.cc\<close>).

  Parameters: the JSON library (record \<open>Json\<close>), the list of installed APEXes, the protobuf
  serialiser and parser of the signature message, \<open>lstat\<close>, and the rounding of partition sizes
  of the disk library. A filler file is a \<open>File\<close> with a schedule of system call results. The
  state is the files the tool writes. Composing the disk from the partitions is a call into the
  disk library; the list of partitions is the result here.

  The lemmas: reading a signature gives what was written, the size at the end of a partition is
  the size of the payload file, and signature and partitions describe the same files in the
  same order.
\<close>

section \<open>Definitions\<close>

text \<open>\<open>htobe32\<close> of a number that fits, and \<open>be32toh\<close> of four bytes.\<close>

definition be32 :: "nat \<Rightarrow> bytes" where
  "be32 n = map (\<lambda>k. of_nat (n div 256 ^ k mod 256)) [3, 2, 1, 0]"

definition from_be32 :: "bytes \<Rightarrow> nat" where
  "from_be32 bs = foldl (\<lambda>acc b. 256 * acc + unat b) 0 bs"

definition as_u32 :: "nat \<Rightarrow> nat" where
  "as_u32 n = n mod 2 ^ 32"

datatype payload_error =
    LstatError io_error | NotAString | BadConfig | NoApexInfoList | NoSystemApex string
  | BadSignature | ProtobufError | ReadError | FillerError io_error

subsection \<open>The signature file\<close>

record ApexSignature =
  as_name :: string
  as_size :: nat
  as_publicKey :: string
  as_rootDigest :: string

record ApkSignature =
  ak_name :: string
  ak_payload_partition_name :: string
  ak_idsig_partition_name :: string

record MicrodroidSignature =
  ms_version :: nat
  ms_apexes :: "ApexSignature list"
  ms_apk :: "ApkSignature option"

definition WriteMicrodroidSignature ::
  "(MicrodroidSignature \<Rightarrow> bytes option) \<Rightarrow> MicrodroidSignature \<Rightarrow> (bytes, payload_error) outcome" where
  "WriteMicrodroidSignature serialize signature =
     and_then (ok_or ProtobufError (serialize signature)) (\<lambda>content.
     Ok (be32 (as_u32 (length content)) @ content))"

definition ReadMicrodroidSignature ::
  "(bytes \<Rightarrow> MicrodroidSignature option) \<Rightarrow> bytes option \<Rightarrow> (MicrodroidSignature, payload_error) outcome" where
  "ReadMicrodroidSignature parse file_content =
     and_then (ok_or ReadError file_content) (\<lambda>content.
     let length_prefix_bytes = 4 in
     if length content < length_prefix_bytes then Err BadSignature
     else
       let n = from_be32 (take 4 content) in
       if length content < length_prefix_bytes + n then Err BadSignature
       else ok_or ProtobufError (parse (take n (drop length_prefix_bytes content))))"

subsection \<open>The configuration\<close>

text \<open>What the sources use of a JSON value: kind, text, member by name, elements.\<close>

record 'j Json =
  isString :: "'j \<Rightarrow> bool"
  asString :: "'j \<Rightarrow> string"
  isNull :: "'j \<Rightarrow> bool"
  json_member :: "'j \<Rightarrow> string \<Rightarrow> 'j"
  json_elements :: "'j \<Rightarrow> 'j list"

record ApexConfig =
  ac_name :: string
  ac_path :: string
  ac_public_key :: "string option"
  ac_root_digest :: "string option"

record ApkConfig =
  kc_name :: string
  kc_path :: string

record PayloadConfig =
  pc_dirname :: string
  pc_system_apexes :: "string list"
  pc_apexes :: "ApexConfig list"
  pc_apk :: "ApkConfig option"

definition ParseJson_string :: "'j Json \<Rightarrow> 'j \<Rightarrow> (string, payload_error) outcome" where
  "ParseJson_string J v = (if \<not> isString J v then Err NotAString else Ok (asString J v))"

definition ParseJson_optional ::
  "'j Json \<Rightarrow> ('j \<Rightarrow> ('a, payload_error) outcome) \<Rightarrow> 'j \<Rightarrow> ('a option, payload_error) outcome" where
  "ParseJson_optional J p v = (if isNull J v then Ok None else and_then (p v) (\<lambda>x. Ok (Some x)))"

definition ParseJson_apex :: "'j Json \<Rightarrow> 'j \<Rightarrow> (ApexConfig, payload_error) outcome" where
  "ParseJson_apex J v =
     and_then (ParseJson_string J (json_member J v ''name'')) (\<lambda>name.
     and_then (ParseJson_string J (json_member J v ''path'')) (\<lambda>path.
     and_then (ParseJson_optional J (ParseJson_string J) (json_member J v ''publicKey'')) (\<lambda>key.
     and_then (ParseJson_optional J (ParseJson_string J) (json_member J v ''rootDigest'')) (\<lambda>digest.
     Ok \<lparr>ac_name = name, ac_path = path, ac_public_key = key, ac_root_digest = digest\<rparr>))))"

definition ParseJson_apk :: "'j Json \<Rightarrow> 'j \<Rightarrow> (ApkConfig, payload_error) outcome" where
  "ParseJson_apk J v =
     and_then (ParseJson_string J (json_member J v ''name'')) (\<lambda>name.
     and_then (ParseJson_string J (json_member J v ''path'')) (\<lambda>path.
     Ok \<lparr>kc_name = name, kc_path = path\<rparr>))"

definition ParseJson_vector ::
  "'j Json \<Rightarrow> ('j \<Rightarrow> ('a, payload_error) outcome) \<Rightarrow> 'j \<Rightarrow> ('a list, payload_error) outcome" where
  "ParseJson_vector J p v = try_map p (json_elements J v)"

definition ParseJson_config :: "'j Json \<Rightarrow> string \<Rightarrow> 'j \<Rightarrow> (PayloadConfig, payload_error) outcome" where
  "ParseJson_config J dirname v =
     and_then (ParseJson_vector J (ParseJson_string J) (json_member J v ''system_apexes'')) (\<lambda>system_apexes.
     and_then (ParseJson_vector J (ParseJson_apex J) (json_member J v ''apexes'')) (\<lambda>apexes.
     and_then (ParseJson_optional J (ParseJson_apk J) (json_member J v ''apk'')) (\<lambda>apk.
     Ok \<lparr>pc_dirname = dirname, pc_system_apexes = system_apexes, pc_apexes = apexes, pc_apk = apk\<rparr>)))"

definition LoadConfig ::
  "'j Json \<Rightarrow> (string \<Rightarrow> 'j option) \<Rightarrow> (string \<Rightarrow> string) \<Rightarrow> string \<Rightarrow> (PayloadConfig, payload_error) outcome" where
  "LoadConfig J parseFromStream Dirname config_file =
     and_then (ok_or BadConfig (parseFromStream config_file)) (\<lambda>root.
     ParseJson_config J (Dirname config_file) root)"

record ApexInfo =
  isActive :: bool
  moduleName :: string
  modulePath :: string

definition get_apex_path :: "ApexInfo list \<Rightarrow> string \<Rightarrow> string option" where
  "get_apex_path infos apex_name =
     map_option modulePath (find (\<lambda>info. isActive info \<and> moduleName info = apex_name) infos)"

definition system_apex_config :: "ApexInfo list \<Rightarrow> string \<Rightarrow> (ApexConfig, payload_error) outcome" where
  "system_apex_config infos apex_name =
     and_then (ok_or (NoSystemApex apex_name) (get_apex_path infos apex_name)) (\<lambda>path.
     Ok \<lparr>ac_name = apex_name, ac_path = path, ac_public_key = None, ac_root_digest = None\<rparr>)"

definition LoadSystemApexes ::
  "ApexInfo list option \<Rightarrow> PayloadConfig \<Rightarrow> (PayloadConfig, payload_error) outcome" where
  "LoadSystemApexes apex_info_list config =
     and_then (ok_or NoApexInfoList apex_info_list) (\<lambda>infos.
     and_then (try_map (system_apex_config infos) (pc_system_apexes config)) (\<lambda>new.
     Ok (config\<lparr>pc_apexes := pc_apexes config @ new\<rparr>)))"

definition ToAbsolute :: "string \<Rightarrow> string \<Rightarrow> string" where
  "ToAbsolute path dirname =
     (let is_absolute = (path \<noteq> [] \<and> path ! 0 = CHR ''/'')
      in if is_absolute then path else dirname @ ''/'' @ path)"

text \<open>\<open>find_last_of\<close>: the text before and from the last dot.\<close>

definition AppendFileName :: "string \<Rightarrow> string \<Rightarrow> string" where
  "AppendFileName filename suff =
     (if CHR ''.'' \<notin> set filename then filename @ suff
      else let ext = CHR ''.'' # rev (takeWhile (\<lambda>c. c \<noteq> CHR ''.'') (rev filename));
               pos = length filename - length ext
           in take pos filename @ suff @ drop pos filename)"

text \<open>\<open>lstat\<close> gives the size of a file; the result is cut to 32 bits.\<close>

definition GetFileSize :: "(string \<Rightarrow> (nat, io_error) outcome) \<Rightarrow> string \<Rightarrow> (nat, payload_error) outcome" where
  "GetFileSize lstat path = and_then (map_err LstatError (lstat path)) (\<lambda>st_size. Ok (as_u32 st_size))"

definition apex_signature ::
  "(string \<Rightarrow> (nat, io_error) outcome) \<Rightarrow> string \<Rightarrow> ApexConfig \<Rightarrow> (ApexSignature, payload_error) outcome" where
  "apex_signature lstat dirname apex_config =
     and_then (GetFileSize lstat (ToAbsolute (ac_path apex_config) dirname)) (\<lambda>file_size.
     Ok \<lparr>as_name = ac_name apex_config, as_size = file_size,
         as_publicKey = (case ac_public_key apex_config of Some k \<Rightarrow> k | None \<Rightarrow> []),
         as_rootDigest = (case ac_root_digest apex_config of Some d \<Rightarrow> d | None \<Rightarrow> [])\<rparr>)"

definition MakeSignature :: "(string \<Rightarrow> (nat, io_error) outcome) \<Rightarrow> PayloadConfig \<Rightarrow> (MicrodroidSignature, payload_error) outcome" where
  "MakeSignature lstat config =
     and_then (try_map (apex_signature lstat (pc_dirname config)) (pc_apexes config)) (\<lambda>apexes.
     Ok \<lparr>ms_version = 1, ms_apexes = apexes,
         ms_apk = (case pc_apk config of
             Some apk \<Rightarrow> Some \<lparr>ak_name = kc_name apk, ak_payload_partition_name = ''microdroid-apk'', ak_idsig_partition_name = []\<rparr>
           | None \<Rightarrow> None)\<rparr>)"

subsection \<open>The payload disk\<close>

text \<open>
  \<open>ftruncate\<close>, \<open>lseek\<close> to four bytes before the end, \<open>write\<close>. A write of fewer than four
  bytes counts as success.
\<close>

definition seek_before_end :: "nat \<Rightarrow> (File, nat, io_error) prog" where
  "seek_before_end k f =
     (if length (contents f) < k then (Err (OsError EINVAL), f) else (Ok (length (contents f) - k), f))"

definition write_filler :: "nat \<Rightarrow> nat \<Rightarrow> (File, unit, io_error) prog" where
  "write_filler filler_size file_size =
     bind_prog (set_len filler_size) (\<lambda>_.
     bind_prog (seek_before_end 4) (\<lambda>pos.
     bind_prog (file_write_at (be32 file_size) pos) (\<lambda>k.
     ret (if k = 0 then Err (OsError (OtherErrno 0)) else Ok ()))))"

type_synonym written = "string \<rightharpoonup> bytes"

text \<open>\<open>open_filler\<close> is the result of opening a filler file: an error, or the calls' schedule.\<close>

definition GenerateFiller ::
  "(string \<Rightarrow> (nat, io_error) outcome) \<Rightarrow> (nat \<Rightarrow> nat) \<Rightarrow> (string \<Rightarrow> (sys_event list, io_error) outcome) \<Rightarrow>
   string \<Rightarrow> string \<Rightarrow> (written, unit, payload_error) prog" where
  "GenerateFiller lstat AlignToPartitionSize open_filler file_path filler_path =
     bind_prog (ret (GetFileSize lstat file_path)) (\<lambda>file_size.
     let disk_size = AlignToPartitionSize (file_size + 4) in
     bind_prog (ret (map_err FillerError (open_filler filler_path))) (\<lambda>sched files.
       case write_filler ((disk_size + u64_limit - file_size) mod u64_limit) file_size \<lparr>contents = [], schedule = sched\<rparr> of
         (r, f) \<Rightarrow> (map_err FillerError r, files(filler_path \<mapsto> contents f))))"

datatype partition_type = kLinuxFilesystem

record MultipleImagePartition =
  mp_label :: string
  mp_image_file_paths :: "string list"
  mp_type :: partition_type
  mp_read_only :: bool

definition filler_name :: "string \<Rightarrow> nat \<Rightarrow> string" where
  "filler_name output_file filler_count = output_file @ ''.'' @ show_nat filler_count"

fun add_partitions ::
  "(string \<Rightarrow> string \<Rightarrow> (written, unit, payload_error) prog) \<Rightarrow> string \<Rightarrow> nat \<Rightarrow> (string \<times> string) list \<Rightarrow>
   (written, MultipleImagePartition list, payload_error) prog" where
  "add_partitions generate output_file filler_count [] = ret (Ok [])"
| "add_partitions generate output_file filler_count ((partition_name, file_path) # items) =
     (let filler_path = filler_name output_file filler_count in
      bind_prog (generate file_path filler_path) (\<lambda>_.
      bind_prog (add_partitions generate output_file (filler_count + 1) items) (\<lambda>rest.
      ret (Ok (\<lparr>mp_label = partition_name, mp_image_file_paths = [file_path, filler_path],
                mp_type = kLinuxFilesystem, mp_read_only = True\<rparr> # rest)))))"

definition payload_items :: "PayloadConfig \<Rightarrow> (string \<times> string) list" where
  "payload_items config =
     map (\<lambda>(i, apex_config). (''microdroid-apex-'' @ show_nat i, ToAbsolute (ac_path apex_config) (pc_dirname config)))
       (enumerate 0 (pc_apexes config))
     @ (case pc_apk config of Some apk \<Rightarrow> [(''microdroid-apk'', ToAbsolute (kc_path apk) (pc_dirname config))] | None \<Rightarrow> [])"

definition MakePayload ::
  "(string \<Rightarrow> string \<Rightarrow> (written, unit, payload_error) prog) \<Rightarrow> PayloadConfig \<Rightarrow> string \<Rightarrow> string \<Rightarrow>
   (written, MultipleImagePartition list, payload_error) prog" where
  "MakePayload generate config signature_file output_file =
     bind_prog (add_partitions generate output_file 0 (payload_items config)) (\<lambda>rest.
     ret (Ok (\<lparr>mp_label = ''signature'', mp_image_file_paths = [signature_file],
               mp_type = kLinuxFilesystem, mp_read_only = True\<rparr> # rest)))"

text \<open>
  What \<open>main\<close> gets from its surroundings. \<open>pe_stream\<close> says whether the stream of the signature
  file works; the code does not look at the state of the stream.
\<close>

record 'j PayloadEnv =
  pe_json :: "'j Json"
  pe_parse :: "string \<Rightarrow> 'j option"
  pe_dirname :: "string \<Rightarrow> string"
  pe_apex_info_list :: "ApexInfo list option"
  pe_lstat :: "string \<Rightarrow> (nat, io_error) outcome"
  pe_align :: "nat \<Rightarrow> nat"
  pe_open_filler :: "string \<Rightarrow> (sys_event list, io_error) outcome"
  pe_serialize :: "MicrodroidSignature \<Rightarrow> bytes option"
  pe_stream :: "string \<Rightarrow> bool"

text \<open>The second half of \<open>MakeSignature\<close>: the stream creates or empties the file before the message is
  serialised.\<close>

definition store_signature :: "'j PayloadEnv \<Rightarrow> PayloadConfig \<Rightarrow> string \<Rightarrow> (written, unit, payload_error) prog" where
  "store_signature env config filename files =
     (case MakeSignature (pe_lstat env) config of
        Ok signature \<Rightarrow>
          (let write = (\<lambda>out files. if pe_stream env filename then files(filename \<mapsto> out) else files);
               files1 = write [] files
           in case WriteMicrodroidSignature (pe_serialize env) signature of
                Ok out \<Rightarrow> (Ok (), write out files1)
              | r \<Rightarrow> (and_then r (\<lambda>_. Ok ()), files1))
      | r \<Rightarrow> (and_then r (\<lambda>_. Ok ()), files))"

definition mk_payload :: "'j PayloadEnv \<Rightarrow> string \<Rightarrow> string \<Rightarrow> (written, MultipleImagePartition list, payload_error) prog" where
  "mk_payload env config_file output_file =
     bind_prog (ret (LoadConfig (pe_json env) (pe_parse env) (pe_dirname env) config_file)) (\<lambda>config0.
     bind_prog (ret (LoadSystemApexes (pe_apex_info_list env) config0)) (\<lambda>config.
     let signature_file = AppendFileName output_file ''-signature'' in
     bind_prog (store_signature env config signature_file) (\<lambda>_.
     MakePayload (GenerateFiller (pe_lstat env) (pe_align env) (pe_open_filler env)) config signature_file output_file)))"

text \<open>\<open>main\<close>: the exit code.\<close>

definition mk_payload_main :: "'j PayloadEnv \<Rightarrow> string list \<Rightarrow> written \<Rightarrow> nat \<times> written" where
  "mk_payload_main env argv files =
     (if length argv \<noteq> 3 then (1, files)
      else case mk_payload env (argv ! 1) (argv ! 2) files of (r, files') \<Rightarrow> (if is_ok r then 0 else 1, files'))"

section \<open>Bytes\<close>

lemma length_be32 [simp]: "length (be32 n) = 4"
  by (simp add: be32_def)

lemma from_be32_be32:
  assumes "n < 2 ^ 32"
  shows "from_be32 (be32 n) = n"
proof -
  have u: "unat (word_of_nat (x mod 256) :: u8) = x mod 256" for x by (simp add: unat_of_nat take_bit_nat_def)
  let ?a = "n div 256" and ?b = "n div 256 div 256" and ?c = "n div 256 div 256 div 256"
  have d: "n div 16777216 = ?c" "n div 65536 = ?b" by (simp_all flip: div_mult2_eq)
  have c: "?c mod 256 = ?c" using assms by (simp add: div_mult2_eq [symmetric] less_mult_imp_div_less)
  have "from_be32 (be32 n) = 256 * (256 * (256 * (?c mod 256) + ?b mod 256) + ?a mod 256) + n mod 256"
    by (simp add: from_be32_def be32_def u d)
  also have "\<dots> = n" by (simp only: c mult_div_mod_eq)
  finally show ?thesis .
qed

lemma as_u32_less [simp]: "as_u32 n < 2 ^ 32"
  by (simp add: as_u32_def)

lemma as_u32_id: "n < 2 ^ 32 \<Longrightarrow> as_u32 n = n"
  by (simp add: as_u32_def)

section \<open>Fillers\<close>

lemma write_filler_ok:
  assumes "4 \<le> n" and "n \<le> i64_max"
  shows "write_filler n sz \<lparr>contents = [], schedule = []\<rparr> =
    (Ok (), \<lparr>contents = zeros (n - 4) @ be32 sz, schedule = []\<rparr>)"
proof -
  have r: "resize_bytes n [] = zeros n" by (simp add: resize_bytes_def vec_resize_def zeros_def)
  have "be32 sz \<noteq> []" by (metis length_be32 list.size(3) zero_neq_numeral)
  then have p: "pwrite (zeros n) (n - 4) (be32 sz) = zeros (n - 4) @ be32 sz"
    using assms(1) by (simp add: pwrite_def zeros_def)
  have "\<not> i64_max < n - 4" using assms(2) by linarith
  with p have w: "file_write_at (be32 sz) (n - 4) \<lparr>contents = zeros n, schedule = []\<rparr> =
      (Ok 4, \<lparr>contents = zeros (n - 4) @ be32 sz, schedule = []\<rparr>)"
    by (simp add: file_write_at_def next_event_def)
  show ?thesis
    using assms r w by (simp add: write_filler_def set_len_def next_event_def seek_before_end_def)
qed

lemma wrap_sub:
  assumes "b \<le> a" and "a < u64_limit"
  shows "(a + u64_limit - b) mod u64_limit = a - b"
proof -
  have e: "a + u64_limit - b = (a - b) + u64_limit" using assms(1) by (rule add_diff_assoc2 [symmetric])
  have "a - b < u64_limit" using assms(2) by (rule less_imp_diff_less)
  then show ?thesis unfolding e mod_add_self2 by (rule mod_less)
qed

lemma GenerateFiller_result:
  assumes "lstat file_path = Ok n" and "open_filler filler_path = Ok []"
    and "as_u32 n + 4 \<le> align (as_u32 n + 4)" and "align (as_u32 n + 4) \<le> i64_max"
  shows "GenerateFiller lstat align open_filler file_path filler_path files =
    (Ok (), files(filler_path \<mapsto> zeros (align (as_u32 n + 4) - as_u32 n - 4) @ be32 (as_u32 n)))"
proof -
  let ?k = "align (as_u32 n + 4) - as_u32 n"
  have "(align (as_u32 n + 4) + u64_limit - as_u32 n) mod u64_limit = ?k"
    using assms(3,4) i64_max_less_u64_limit by (intro wrap_sub) linarith+
  moreover have "write_filler ?k (as_u32 n) \<lparr>contents = [], schedule = []\<rparr> =
      (Ok (), \<lparr>contents = zeros (?k - 4) @ be32 (as_u32 n), schedule = []\<rparr>)"
    using assms(3,4) by (intro write_filler_ok) linarith+
  ultimately show ?thesis
    using assms(1,2) by (simp add: GenerateFiller_def GetFileSize_def Let_def)
qed

text \<open>
  The size at the end of a partition. For a payload file smaller than 4 GiB, when the partition
  size is rounded up and the calls on the filler file succeed, file and filler together have the
  rounded size, and the last four bytes, read as a big-endian number, are the size of the file.
\<close>

lemma filler_records_size:
  assumes "lstat file_path = Ok (length c)" and "length c < 2 ^ 32" and "open_filler filler_path = Ok []"
    and "length c + 4 \<le> align (length c + 4)" and "align (length c + 4) \<le> i64_max"
  shows "\<exists>filler. GenerateFiller lstat align open_filler file_path filler_path files =
      (Ok (), files(filler_path \<mapsto> filler)) \<and>
    length (c @ filler) = align (length c + 4) \<and>
    from_be32 (drop (length (c @ filler) - 4) (c @ filler)) = length c"
proof -
  let ?filler = "zeros (align (length c + 4) - length c - 4) @ be32 (length c)"
  have "GenerateFiller lstat align open_filler file_path filler_path files = (Ok (), files(filler_path \<mapsto> ?filler))"
    using GenerateFiller_result [where lstat = lstat and open_filler = open_filler and align = align, OF assms(1,3)] assms(2,4,5) by (simp add: as_u32_id)
  moreover have "length (c @ ?filler) = align (length c + 4)" using assms(4) by simp
  moreover have "drop (length (c @ ?filler) - 4) (c @ ?filler) = be32 (length c)" by simp
  ultimately show ?thesis using from_be32_be32 [OF assms(2)] by (intro exI [of _ ?filler]) simp
qed

text \<open>
  C40: Large payload files. The size of the file is cut to 32 bits: for a file of any size the
  partition gets written, and the size recorded at its end is the size of the file modulo
  \<open>2 ^ 32\<close>, which for a file of 4 GiB or more is not the size of the file.
\<close>

theorem filler_size_wraps:
  assumes "lstat file_path = Ok (length c)" and "open_filler filler_path = Ok []"
    and "\<And>n. n < 2 ^ 33 \<Longrightarrow> n \<le> align n \<and> align n \<le> i64_max"
  shows "\<exists>filler. GenerateFiller lstat align open_filler file_path filler_path files =
      (Ok (), files(filler_path \<mapsto> filler)) \<and>
    from_be32 (drop (length (c @ filler) - 4) (c @ filler)) = length c mod 2 ^ 32 \<and>
    (from_be32 (drop (length (c @ filler) - 4) (c @ filler)) = length c \<longleftrightarrow> length c < 2 ^ 32)"
proof -
  let ?m = "as_u32 (length c)"
  let ?filler = "zeros (align (?m + 4) - ?m - 4) @ be32 ?m"
  have m: "?m < 2 ^ 32" by (rule as_u32_less)
  then have "?m + 4 \<le> align (?m + 4)" "align (?m + 4) \<le> i64_max" using assms(3) [of "?m + 4"] by simp_all
  then have "GenerateFiller lstat align open_filler file_path filler_path files = (Ok (), files(filler_path \<mapsto> ?filler))"
    by (rule GenerateFiller_result [where lstat = lstat and open_filler = open_filler and align = align, OF assms(1,2)])
  moreover have "from_be32 (drop (length (c @ ?filler) - 4) (c @ ?filler)) = length c mod 2 ^ 32"
    using from_be32_be32 [OF m] by (simp add: as_u32_def)
  moreover have "length c mod 2 ^ 32 = length c \<longleftrightarrow> length c < 2 ^ 32" by (metis m as_u32_def mod_less)
  ultimately show ?thesis by (intro exI [of _ ?filler]) simp
qed

theorem filler_size_wraps_witness:
  "\<exists>filler. GenerateFiller (\<lambda>_. Ok (2 ^ 32 + 5)) (\<lambda>n. (n + 4095) div 4096 * 4096) (\<lambda>_. Ok []) ''a'' ''b'' Map.empty =
      (Ok (), [''b'' \<mapsto> filler]) \<and>
    from_be32 (drop (length (zeros (2 ^ 32 + 5) @ filler) - 4) (zeros (2 ^ 32 + 5) @ filler)) = length (zeros (2 ^ 32 + 5)) mod 2 ^ 32 \<and>
    (from_be32 (drop (length (zeros (2 ^ 32 + 5) @ filler) - 4) (zeros (2 ^ 32 + 5) @ filler)) = length (zeros (2 ^ 32 + 5)) \<longleftrightarrow>
      length (zeros (2 ^ 32 + 5)) < 2 ^ 32)"
proof (rule filler_size_wraps)
  show "n \<le> (n + 4095) div 4096 * 4096 \<and> (n + 4095) div 4096 * 4096 \<le> i64_max" if "n < 2 ^ 33" for n :: nat
  proof -
    have "(n + 4095) div 4096 * 4096 \<le> n + 4095" by (rule div_times_less_eq_dividend)
    moreover have "n + 4095 < (n + 4095) div 4096 * 4096 + 4096" by (simp add: dividend_less_div_times)
    ultimately show ?thesis using that by (simp add: i64_max_def)
  qed
qed simp_all

section \<open>The signature file\<close>

text \<open>
  C37: Reading back a signature. What \<open>WriteMicrodroidSignature\<close> writes is read back by
  \<open>ReadMicrodroidSignature\<close> as the same message, whatever follows it in the partition, if the
  message serialises to less than 4 GiB and the parser reads what the serialiser wrote.
\<close>

theorem signature_roundtrip:
  assumes "serialize signature = Some content" and "parse content = Some signature" and "length content < 2 ^ 32"
    and "WriteMicrodroidSignature serialize signature = Ok out"
  shows "ReadMicrodroidSignature parse (Some (out @ padding)) = Ok signature"
proof -
  have out: "out = be32 (length content) @ content"
    using assms(1,3,4) by (simp add: WriteMicrodroidSignature_def as_u32_id)
  then have "take 4 (out @ padding) = be32 (length content)" "drop 4 (out @ padding) = content @ padding" by simp_all
  with assms(2) from_be32_be32 [OF assms(3)] out show ?thesis
    by (simp add: ReadMicrodroidSignature_def Let_def)
qed

theorem signature_roundtrip_witness:
  "ReadMicrodroidSignature (\<lambda>b. if b = [8, 1] then Some \<lparr>ms_version = 1, ms_apexes = [], ms_apk = None\<rparr> else None)
     (Some ((be32 2 @ [8, 1]) @ [0, 0])) = Ok \<lparr>ms_version = 1, ms_apexes = [], ms_apk = None\<rparr>"
  by (rule signature_roundtrip [where serialize = "\<lambda>m. Some [8, 1]" and content = "[8, 1]"])
     (simp_all add: WriteMicrodroidSignature_def as_u32_def numeral_2_eq_2 [symmetric])

section \<open>Partitions\<close>

definition payload_partition :: "string \<Rightarrow> nat \<Rightarrow> string \<times> string \<Rightarrow> MultipleImagePartition" where
  "payload_partition output_file i item =
     \<lparr>mp_label = fst item, mp_image_file_paths = [snd item, filler_name output_file i],
      mp_type = kLinuxFilesystem, mp_read_only = True\<rparr>"

lemma add_partitions_Ok:
  "add_partitions generate output_file k items files = (Ok parts, files') \<Longrightarrow>
   parts = map (\<lambda>(i, item). payload_partition output_file i item) (enumerate k items)"
  by (induction items arbitrary: k files parts)
     (auto simp: bind_prog_Ok_iff Let_def payload_partition_def)

lemma show_nat_inj: "show_nat m = show_nat n \<longleftrightarrow> m = n"
  by (metis option.inject parse_digits_show_nat)

lemma filler_name_inj [simp]: "filler_name output_file m = filler_name output_file n \<longleftrightarrow> m = n"
  by (simp add: filler_name_def show_nat_inj)

text \<open>If generating a filler stores \<open>fill\<close> of the file, every filler is there at the end.\<close>

lemma add_partitions_keeps:
  assumes gen: "\<And>p q files r files'. generate p q files = (r, files') \<Longrightarrow> \<forall>x. x \<noteq> q \<longrightarrow> files' x = files x"
  shows "add_partitions generate output_file k items files = (r, files') \<Longrightarrow> j < k \<Longrightarrow>
    files' (filler_name output_file j) = files (filler_name output_file j)"
proof (induction items arbitrary: k files r files')
  case Nil
  then show ?case by simp
next
  case (Cons item items)
  obtain name path where item: "item = (name, path)" by fastforce
  obtain r1 files1 where g: "generate path (filler_name output_file k) files = (r1, files1)" by fastforce
  have 1: "files1 (filler_name output_file j) = files (filler_name output_file j)"
    using gen [OF g] Cons.prems(2) by auto
  obtain r2 files2 where a: "add_partitions generate output_file (k + 1) items files1 = (r2, files2)" by fastforce
  have 2: "files2 (filler_name output_file j) = files1 (filler_name output_file j)"
    using Cons.IH [OF a] Cons.prems(2) by simp
  have "files' = files1 \<or> files' = files2"
    using Cons.prems(1) g a by (cases r1; cases r2) (auto simp: item Let_def bind_prog_def)
  with 1 2 show ?case by auto
qed

lemma add_partitions_fillers:
  assumes gen: "\<And>p q files r files'. generate p q files = (r, files') \<Longrightarrow> \<forall>x. x \<noteq> q \<longrightarrow> files' x = files x"
    and fill: "\<And>p q files files'. generate p q files = (Ok (), files') \<Longrightarrow> Q p (files' q)"
  shows "add_partitions generate output_file k items files = (Ok parts, files') \<Longrightarrow>
    j < length items \<Longrightarrow> Q (snd (items ! j)) (files' (filler_name output_file (k + j)))"
proof (induction items arbitrary: k j files parts)
  case Nil
  then show ?case by simp
next
  case (Cons item items)
  obtain name path where item: "item = (name, path)" by fastforce
  from Cons.prems(1) obtain files1 rest where g: "generate path (filler_name output_file k) files = (Ok (), files1)"
    and a: "add_partitions generate output_file (k + 1) items files1 = (Ok rest, files')"
    by (auto simp: item Let_def bind_prog_Ok_iff)
  show ?case
  proof (cases j)
    case 0
    have "files' (filler_name output_file k) = files1 (filler_name output_file k)"
      using add_partitions_keeps [where j = k, OF gen a] by simp
    with fill [OF g] 0 item show ?thesis by simp
  next
    case (Suc i)
    with Cons.IH [OF a, of i] Cons.prems(2) show ?thesis by simp
  qed
qed

lemma GenerateFiller_keeps:
  assumes "GenerateFiller lstat align open_filler p q files = (r, files')"
  shows "\<forall>x. x \<noteq> q \<longrightarrow> files' x = files x"
  using assms
  by (cases "GetFileSize lstat p"; cases "open_filler q") (auto simp: GenerateFiller_def Let_def split: prod.splits)

definition align_ok :: "(nat \<Rightarrow> nat) \<Rightarrow> bool" where
  "align_ok align \<longleftrightarrow> (\<forall>n < 2 ^ 33. n \<le> align n \<and> align n \<le> i64_max)"

lemma GenerateFiller_fill:
  assumes "align_ok align" and "\<And>q. open_filler q = Ok []"
    and g: "GenerateFiller lstat align open_filler p q files = (Ok (), files')"
  shows "\<exists>n f. lstat p = Ok n \<and> files' q = Some f \<and> from_be32 (drop (length f - 4) f) = as_u32 n"
proof -
  from g obtain n where n: "lstat p = Ok n"
    by (cases "lstat p") (simp_all add: GenerateFiller_def GetFileSize_def)
  have m: "as_u32 n < 2 ^ 32" by (rule as_u32_less)
  then have "as_u32 n + 4 \<le> align (as_u32 n + 4) \<and> align (as_u32 n + 4) \<le> i64_max"
    using assms(1) [unfolded align_ok_def, rule_format, of "as_u32 n + 4"] by simp
  then have "files' q = Some (zeros (align (as_u32 n + 4) - as_u32 n - 4) @ be32 (as_u32 n))"
    using GenerateFiller_result [where lstat = lstat and open_filler = open_filler and align = align, OF n assms(2)] g by auto
  with n from_be32_be32 [OF m] show ?thesis by simp
qed

lemma apex_signature_Ok:
  "apex_signature lstat dirname c = Ok sg \<Longrightarrow>
   \<exists>n. lstat (ToAbsolute (ac_path c) dirname) = Ok n \<and> as_name sg = ac_name c \<and> as_size sg = as_u32 n"
  by (auto simp: apex_signature_def GetFileSize_def and_then_Ok_iff)

lemma nth_payload_items:
  "i < length (pc_apexes config) \<Longrightarrow>
   payload_items config ! i = (''microdroid-apex-'' @ show_nat i, ToAbsolute (ac_path (pc_apexes config ! i)) (pc_dirname config))"
  by (simp add: payload_items_def nth_append nth_enumerate_eq)

lemma labels_payload_items:
  "map fst (payload_items config) =
     map (\<lambda>i. ''microdroid-apex-'' @ show_nat i) [0..<length (pc_apexes config)] @
     (case pc_apk config of Some apk \<Rightarrow> [''microdroid-apk''] | None \<Rightarrow> [])"
  by (auto simp: payload_items_def enumerate_eq_zip comp_def split: option.splits intro!: nth_equalityI)

lemma labels_enumerate: "map mp_label (map (\<lambda>(i, item). payload_partition out i item) (enumerate k items)) = map fst items"
  by (induction items arbitrary: k) (simp_all add: payload_partition_def)

lemma payload_filler:
  assumes "align_ok align" and "\<And>q. open_filler q = Ok []"
    and "add_partitions (GenerateFiller lstat align open_filler) output_file 0 items files = (Ok rest, files')" and "i < length items"
  shows "\<exists>n f. lstat (snd (items ! i)) = Ok n \<and> files' (filler_name output_file i) = Some f \<and>
    from_be32 (drop (length f - 4) f) = as_u32 n"
proof -
  let ?g = "GenerateFiller lstat align open_filler"
  have "\<exists>n f. lstat (snd (items ! i)) = Ok n \<and> files' (filler_name output_file (0 + i)) = Some f \<and>
    from_be32 (drop (length f - 4) f) = as_u32 n"
  proof (rule add_partitions_fillers [OF _ _ assms(3,4)])
    show "\<forall>x. x \<noteq> q \<longrightarrow> f' x = f x" if "?g p q f = (r, f')" for p q f r f' using that by (rule GenerateFiller_keeps)
    show "\<exists>n f'. lstat p = Ok n \<and> g' q = Some f' \<and> from_be32 (drop (length f' - 4) f') = as_u32 n"
      if "?g p q g = (Ok (), g')" for p q g g' using assms(1,2) that by (rule GenerateFiller_fill)
  qed
  then show ?thesis by simp
qed

text \<open>
  C36: Signature and payload agree. When the signature and the payload disk of a configuration are
  made, the disk has the signature partition, one partition per APEX in the order of the
  signature and the APK partition the signature names; the partition of an APEX holds the
  configured file, and the size at its end is the size in the signature.
\<close>

theorem payload_matches_signature:
  assumes "MakeSignature lstat config = Ok sig" and "align_ok align" and "\<And>q. open_filler q = Ok []"
    and "MakePayload (GenerateFiller lstat align open_filler) config signature_file output_file files = (Ok parts, files')"
  shows "map mp_label parts = ''signature'' # map (\<lambda>i. ''microdroid-apex-'' @ show_nat i) [0..<length (ms_apexes sig)] @
      (case ms_apk sig of Some apk \<Rightarrow> [ak_payload_partition_name apk] | None \<Rightarrow> []) \<and>
    (\<forall>i<length (ms_apexes sig). \<exists>filler f.
       mp_image_file_paths (parts ! Suc i) = [ToAbsolute (ac_path (pc_apexes config ! i)) (pc_dirname config), filler] \<and>
       as_name (ms_apexes sig ! i) = ac_name (pc_apexes config ! i) \<and>
       files' filler = Some f \<and> from_be32 (drop (length f - 4) f) = as_size (ms_apexes sig ! i))"
proof -
  let ?g = "GenerateFiller lstat align open_filler"
  from assms(4) obtain rest where a: "add_partitions ?g output_file 0 (payload_items config) files = (Ok rest, files')"
    and parts: "tl parts = rest" "parts \<noteq> []" "mp_label (hd parts) = ''signature''"
    by (auto simp: MakePayload_def bind_prog_Ok_iff)
  have rest: "rest = map (\<lambda>(i, item). payload_partition output_file i item) (enumerate 0 (payload_items config))"
    by (rule add_partitions_Ok [OF a])
  from assms(1) have sigs: "list_all2 (\<lambda>c s. apex_signature lstat (pc_dirname config) c = Ok s) (pc_apexes config) (ms_apexes sig)"
    and apk: "ms_apk sig = map_option (\<lambda>apk. \<lparr>ak_name = kc_name apk, ak_payload_partition_name = ''microdroid-apk'',
        ak_idsig_partition_name = []\<rparr>) (pc_apk config)"
    by (auto simp: MakeSignature_def and_then_Ok_iff try_map_Ok_iff split: option.splits)
  have len: "length (ms_apexes sig) = length (pc_apexes config)" using sigs by (simp add: list_all2_lengthD)
  have "map mp_label parts = ''signature'' # map mp_label rest" using parts by (cases parts) auto
  then have labels: "map mp_label parts = ''signature'' # map (\<lambda>i. ''microdroid-apex-'' @ show_nat i) [0..<length (ms_apexes sig)] @
      (case ms_apk sig of Some apk \<Rightarrow> [ak_payload_partition_name apk] | None \<Rightarrow> [])"
    unfolding rest labels_enumerate labels_payload_items len apk by (simp split: option.splits)
  have "\<exists>filler f.
       mp_image_file_paths (parts ! Suc i) = [ToAbsolute (ac_path (pc_apexes config ! i)) (pc_dirname config), filler] \<and>
       as_name (ms_apexes sig ! i) = ac_name (pc_apexes config ! i) \<and>
       files' filler = Some f \<and> from_be32 (drop (length f - 4) f) = as_size (ms_apexes sig ! i)"
    if i: "i < length (ms_apexes sig)" for i
  proof -
    have li: "i < length (payload_items config)" using i len by (simp add: payload_items_def)
    have "apex_signature lstat (pc_dirname config) (pc_apexes config ! i) = Ok (ms_apexes sig ! i)"
      using list_all2_nthD2 [OF sigs i] .
    then obtain n where n: "lstat (ToAbsolute (ac_path (pc_apexes config ! i)) (pc_dirname config)) = Ok n"
      "as_name (ms_apexes sig ! i) = ac_name (pc_apexes config ! i)" "as_size (ms_apexes sig ! i) = as_u32 n"
      using apex_signature_Ok by blast
    have "parts ! Suc i = payload_partition output_file i (payload_items config ! i)"
      using parts li by (cases parts) (auto simp: rest nth_enumerate_eq)
    then have "mp_image_file_paths (parts ! Suc i) =
        [ToAbsolute (ac_path (pc_apexes config ! i)) (pc_dirname config), filler_name output_file i]"
      using i len by (simp add: payload_partition_def nth_payload_items)
    moreover from payload_filler [OF assms(2,3) a li]
    have "\<exists>f. files' (filler_name output_file i) = Some f \<and> from_be32 (drop (length f - 4) f) = as_u32 n"
      using n(1) i len by (simp add: nth_payload_items)
    ultimately show ?thesis using n by auto
  qed
  with labels show ?thesis by blast
qed

text \<open>One APEX of 3 bytes and an APK.\<close>

definition sample_payload :: PayloadConfig where
  "sample_payload =
     \<lparr>pc_dirname = ''d'', pc_system_apexes = [],
      pc_apexes = [\<lparr>ac_name = ''n'', ac_path = ''p'', ac_public_key = None, ac_root_digest = None\<rparr>],
      pc_apk = Some \<lparr>kc_name = ''k'', kc_path = ''/k''\<rparr>\<rparr>"

definition sample_align :: "nat \<Rightarrow> nat" where
  "sample_align n = n + 4096"

lemma sample_align_ok: "align_ok sample_align"
  by (auto simp: align_ok_def sample_align_def i64_max_def)

lemma sample_make_payload:
  "\<exists>parts files'. MakePayload (GenerateFiller (\<lambda>_. Ok 3) sample_align (\<lambda>_. Ok [])) sample_payload ''s'' ''o'' Map.empty =
     (Ok parts, files')"
proof -
  have "\<exists>files'. GenerateFiller (\<lambda>_. Ok 3) sample_align (\<lambda>_. Ok []) p q files = (Ok (), files')" for p q files
    using GenerateFiller_result [of "\<lambda>_. Ok 3" p 3 "\<lambda>_. Ok []" q sample_align files]
    by (simp add: as_u32_def sample_align_def i64_max_def)
  then have "\<exists>parts files'. add_partitions (GenerateFiller (\<lambda>_. Ok 3) sample_align (\<lambda>_. Ok [])) out k items files = (Ok parts, files')"
    for out k items files
  proof (induction items arbitrary: k files)
    case (Cons item items)
    obtain name path where "item = (name, path)" by fastforce
    moreover from Cons.prems obtain files1
      where "GenerateFiller (\<lambda>_. Ok 3) sample_align (\<lambda>_. Ok []) path (filler_name out k) files = (Ok (), files1)" by blast
    moreover from Cons obtain parts files2
      where "add_partitions (GenerateFiller (\<lambda>_. Ok 3) sample_align (\<lambda>_. Ok [])) out (k + 1) items files1 = (Ok parts, files2)"
      by blast
    ultimately show ?case by (simp add: Let_def)
  qed simp
  then obtain parts files' where "add_partitions (GenerateFiller (\<lambda>_. Ok 3) sample_align (\<lambda>_. Ok [])) ''o'' 0
      (payload_items sample_payload) Map.empty = (Ok parts, files')" by blast
  then show ?thesis by (simp add: MakePayload_def)
qed

theorem payload_matches_signature_witness:
  "\<exists>parts files'. MakePayload (GenerateFiller (\<lambda>_. Ok 3) sample_align (\<lambda>_. Ok [])) sample_payload ''s'' ''o'' Map.empty =
      (Ok parts, files') \<and>
     map mp_label parts = [''signature'', ''microdroid-apex-'' @ show_nat 0, ''microdroid-apk'']"
proof -
  have sig: "MakeSignature (\<lambda>_. Ok 3) sample_payload =
      Ok \<lparr>ms_version = 1, ms_apexes = [\<lparr>as_name = ''n'', as_size = 3, as_publicKey = [], as_rootDigest = []\<rparr>],
        ms_apk = Some \<lparr>ak_name = ''k'', ak_payload_partition_name = ''microdroid-apk'', ak_idsig_partition_name = []\<rparr>\<rparr>"
    by (simp add: MakeSignature_def sample_payload_def apex_signature_def GetFileSize_def as_u32_def)
  from sample_make_payload obtain parts files' where
    m: "MakePayload (GenerateFiller (\<lambda>_. Ok 3) sample_align (\<lambda>_. Ok [])) sample_payload ''s'' ''o'' Map.empty = (Ok parts, files')"
    by blast
  from payload_matches_signature [where open_filler = "\<lambda>_. Ok []", OF sig sample_align_ok refl m] m show ?thesis by simp
qed

end
