(* ===== verification/Spec2Isabelle.thy ===== *)
theory Spec2Isabelle
  imports EditorTests ReaderTests ZipMountTests Compos AuthFsProps Startup VmTool Payload
begin

text \<open>
  This development models the programs of the Android virtualization module and states what makes
  them correct. Paths are relative to \<^verbatim>\<open>src/\<close>.

  \<^bold>\<open>The program.\<close> A host starts virtual machines through a manager (\<^verbatim>\<open>virtmanager\<close>, driven
  by the tool \<^verbatim>\<open>vm\<close>), which runs a \<^verbatim>\<open>crosvm\<close> process for each. The payload disk of a machine and
  its signature are made by \<^verbatim>\<open>microdroid/signature\<close>; inside a machine \<^verbatim>\<open>zipfuse\<close> serves the contents of
  an archive as files. To run a task on files of the host, \<^verbatim>\<open>compos/src/pvm_exec.rs\<close> hands file
  descriptors to \<^verbatim>\<open>authfs/fd_server\<close> and calls \<^verbatim>\<open>compsvc\<close> in the machine, whose worker mounts
  \<^verbatim>\<open>authfs\<close>, a file system over the files that \<^verbatim>\<open>fd_server\<close> serves. The machine does not trust the
  host: a file that is read is checked against a signed fs-verity Merkle tree, and for a file that
  is written the machine keeps the hashes itself.

  \<^bold>\<open>Theories.\<close>
  \<^item> Shared: \<^verbatim>\<open>Prelude\<close> (results, state-passing programs, checked \<open>u64\<close> arithmetic, byte
    strings), \<^verbatim>\<open>OsFile\<close> (\<open>std::fs::File\<close> with scheduled system call results, \<open>io::Write\<close>), \<^verbatim>\<open>Text\<close>
    (splitting, parsing and printing of numbers), \<^verbatim>\<open>CommandLine\<close> (what the programs rely on of clap).
  \<^item> authfs, bottom up: \<^verbatim>\<open>AuthCommon\<close> (\<^verbatim>\<open>common.rs\<close>), \<^verbatim>\<open>Crypto\<close> (\<^verbatim>\<open>crypto.rs\<close>), \<^verbatim>\<open>FsverityCommon\<close>
    (\<^verbatim>\<open>fsverity/common.rs\<close>, \<^verbatim>\<open>sys.rs\<close>), \<^verbatim>\<open>MerkleSpec\<close> (fs-verity as a specification on byte
    strings), \<^verbatim>\<open>Builder\<close> (\<^verbatim>\<open>builder.rs\<close>), \<^verbatim>\<open>FileTraits\<close> (\<^verbatim>\<open>file.rs\<close>), \<^verbatim>\<open>Editor\<close> (\<^verbatim>\<open>editor.rs\<close>),
    \<^verbatim>\<open>EditorThreads\<close> (its concurrent writes),
    \<^verbatim>\<open>Verifier\<close> (\<^verbatim>\<open>verifier.rs\<close>, \<^verbatim>\<open>auth.rs\<close>), \<^verbatim>\<open>LocalFile\<close>, \<^verbatim>\<open>RemoteFile\<close> (\<^verbatim>\<open>file/\<close>), \<^verbatim>\<open>AuthFs\<close>
    (the handlers of \<^verbatim>\<open>fusefs.rs\<close>), \<^verbatim>\<open>AuthFsMain\<close> (\<^verbatim>\<open>main.rs\<close>), \<^verbatim>\<open>FdServer\<close> (\<^verbatim>\<open>fd_server\<close>),
    \<^verbatim>\<open>AuthFsProps\<close> (properties of these parts).
  \<^item> \<^verbatim>\<open>Compos\<close>: \<^verbatim>\<open>pvm_exec.rs\<close>, \<^verbatim>\<open>compsvc.rs\<close>, \<^verbatim>\<open>compsvc_worker.rs\<close>, with the starts, waits and kills of
    the jails as a trace.
  \<^item> \<^verbatim>\<open>ZipInode\<close> (\<^verbatim>\<open>zipfuse/src/inode.rs\<close>), \<^verbatim>\<open>ZipFuse\<close> (the handlers of \<^verbatim>\<open>zipfuse/src/main.rs\<close>),
    \<^verbatim>\<open>Startup\<close> (\<open>loop_forever\<close>, \<open>run_fuse\<close> and \<open>main\<close> of authfs, zipfuse, fd_server and virtmanager).
  \<^item> \<^verbatim>\<open>Crosvm\<close> (\<^verbatim>\<open>virtmanager/src/config.rs\<close>, \<^verbatim>\<open>crosvm.rs\<close>), \<^verbatim>\<open>VirtManager\<close> (\<^verbatim>\<open>aidl.rs\<close>),
    \<^verbatim>\<open>VmHandles\<close> (the reference counts of its handles), \<^verbatim>\<open>Sync\<close> (\<^verbatim>\<open>vm/src/sync.rs\<close>), \<^verbatim>\<open>VmTool\<close> (the rest of \<^verbatim>\<open>vm/src\<close>), \<^verbatim>\<open>Payload\<close> (\<^verbatim>\<open>mk_payload.cc\<close>, \<^verbatim>\<open>signature.cc\<close>).
  \<^item> The unit tests of the sources, as programs whose failed assertions are panics: \<^verbatim>\<open>BuilderTests\<close>
    (\<^verbatim>\<open>common.rs\<close>, \<^verbatim>\<open>crypto.rs\<close>, \<^verbatim>\<open>builder.rs\<close>), \<^verbatim>\<open>EditorTests\<close> (\<^verbatim>\<open>editor.rs\<close>), \<^verbatim>\<open>ReaderTests\<close>
    (\<^verbatim>\<open>local_file.rs\<close>, \<^verbatim>\<open>verifier.rs\<close>), \<^verbatim>\<open>ZipTests\<close> (\<^verbatim>\<open>inode.rs\<close>), \<^verbatim>\<open>ZipMountTests\<close> (\<^verbatim>\<open>zipfuse/src/main.rs\<close>).
  \<^item> \<^verbatim>\<open>SampleHash\<close>, \<^verbatim>\<open>SampleService\<close>: a concrete hash library and concrete services, on which the
    general statements are applied. This theory: the properties that span components.

  \<^bold>\<open>State and operations.\<close> A function of the source is a definition of the same name (with a
  prefix such as \<open>fs_\<close>, \<open>zip_\<close>, \<open>editor_\<close> for the methods of a type). A fallible function
  returns an \<open>outcome\<close>: \<open>Ok\<close>, \<open>Err\<close> with the error of the source's \<open>Result\<close>, \<open>Panic\<close> for a failed
  assertion, an \<open>unwrap\<close>, an index out of range or an overflow, and \<open>OutOfFuel\<close>. One that also
  changes something is a \<open>prog\<close>, a function from the state to an outcome and the new state; the
  state is kept when an error is returned, as it is in the source. The state of authfs
  (\<open>AuthFs\<close>) contains the state of the service; \<open>FdService\<close>, \<open>ZipFuse\<close>, \<open>Manager\<close> are the states
  of the other servers. \<open>u64\<close> and \<open>usize\<close> values are natural numbers with range checks, \<open>i32\<close> and
  \<open>i64\<close> values are integers, mode bits and bytes are machine words. Concurrency appears where the
  source has it outside a lock: children, monitor threads, clients and dropped references of the
  manager are the steps of \<open>vm_step\<close>, requests to zipfuse those of \<open>zip_step\<close>, and concurrent
  writes to a file, which lock once per piece, are interleavings of pieces (\<open>interleaving\<close>). The
  threads that wait on and raise a flag of the tool are the steps of \<open>flag_step\<close>, with spurious
  wake-ups; \<open>tool_step\<close> interleaves the tool's waiting thread with the manager. A handle of the manager
  is destroyed when no client and not the manager refers to it; \<open>rc_step\<close> counts the references, as
  binder does, and refines \<open>vm_step\<close>. Panics unwind, the default of Rust: the scope guards that
  kill authfs and the file server run after a panic as after an error (\<open>kill_guard\<close>).

  \<^bold>\<open>Interfaces.\<close> The contracts of the file traits are the locales \<open>prefix_reader\<close> (holds for any
  service), \<open>chunk_reader\<close>, \<open>random_writer\<close>, \<open>editable_file\<close> and \<open>verity_files\<close> (hold for an honest
  file); the lemmas on the editor, the verifier and the FUSE read loop are proved in them and
  reach the remote files through the interpretations in \<^verbatim>\<open>RemoteFile\<close>, and the files of the unit tests
  through those in \<^verbatim>\<open>EditorTests\<close> (an in-memory file) and \<^verbatim>\<open>ReaderTests\<close> (local files). \<open>byte_sink\<close> is
  the contract of \<open>io::Write\<close>.

  \<^bold>\<open>What is shown.\<close>
  \<^item> Integrity against an arbitrary service: the digest of a new file is that of the bytes written,
    and a verified read returns the signed bytes, unless the service presents a block with the
    hash of a genuine one (\<open>forges\<close>; the hash function is not assumed injective).
  \<^item> On the repository's own service, with system calls that do not fail: writes, resizes and reads
    succeed and refine operations on a byte string; the builder computes the fs-verity digest in
    any order; concurrent writes keep tree and file in step; the verifier's walk stays inside the
    tree; damage to a node of the tree fails the reads below it, and the next chunk can be read.
  \<^item> Isolation: no request changes a file that was given read-only to \<^verbatim>\<open>fd_server\<close> or authfs.
  \<^item> Composition: the descriptors the user names reach the task as files with the same contents
    through the command lines that the programs write and parse; the worker runs only the configured
    task; authfs and the file server are killed at the end on every path.
  \<^item> The manager, over all interleavings: unique CIDs, no live machine without a handle unless its
    kill failed, no machine killed while it has one, callbacks called once per registration, access
    control; the tool's commands, and no wake-up of a waiting tool is lost.
  \<^item> zipfuse: the inode table refines a map from paths; every file of the archive can be looked up,
    opened and read in every reachable state; directory scans are complete and end.
  \<^item> The signature round trip, and the agreement of signature and payload partitions.
  \<^item> The unit tests pass: those that quote a digest exactly for the hash functions with that digest
    and without debug assertions, the others for every hash library, archive writer and request size.
  \<^item> Limits of the code, as theorems: see the properties on cuts inside a chunk, files of one chunk,
    late callbacks, buffers opened twice, files as parents, and 32-bit sizes.

  \<^bold>\<open>Bounds and fuel.\<close> \<open>write_all_at\<close> is the one loop of the program that need not end (the service
  may write nothing for ever). It runs on fuel, one unit per call; on a file that makes progress
  the length of the buffer is enough, and a piece is at most a chunk, so \<open>CHUNK_SIZE \<le> fuel\<close>
  suffices in every statement that the editor succeeds. The worker's polling loop, and that of the
  mount tests, is bounded by its timeout and proved to return. A client of the mount tests reads until
  the end of a file or directory; its fuel is larger than the number of bytes or entries. File sizes are bounded by \<open>2 ^ 61\<close> for verified reads and by
  \<open>i64_max\<close> for writes: beyond, the arithmetic of the walk or the casts of the source leave their
  ranges.

  \<^bold>\<open>Parameters.\<close> The C hash library (\<open>sha256_ffi\<close>, with \<open>sha256_lib\<close> for its documentation), the
  fs-verity ioctl, the authenticator, the service as seen by the machine, the fuse crate, the zip
  crate and its writer, the order of a \<open>HashMap\<close>, clap (with \<open>clap_items\<close> and \<open>clap_last\<close> for its
  documentation, and the parser \<open>long_options\<close> that satisfies them), process creation, jails and
  the answers to kills, the binder calls that register and find services, JSON and protobuf, the alignment of partitions, the files under
  \<^verbatim>\<open>testdata\<close>.

  \<^bold>\<open>Not modelled.\<close> The splitting of the command lines that a user types (\<^verbatim>\<open>compsvc\<close>,
  \<^verbatim>\<open>pvm_exec\<close>, \<^verbatim>\<open>vm\<close>, \<^verbatim>\<open>zipfuse\<close>), which start from the values clap finds; logging and printed text; the
  thread pools of binder; the FUSE protocol and the kernel's page cache; \<open>init\<close> of the file systems
  and the empty directory iterator of authfs, which are constants; a resize that runs between the
  pieces of a write to the same file; the composition of the disk image, which is a call into a
  library; \<open>start_fuse\<close> of the tests, which starts a thread or a process; the tests on devices
  (\<^verbatim>\<open>tests/\<close>, the Java host tests), which drive the programs through sockets and shells; declarations of
  interfaces, build files, images and init scripts, which have no logic.
\<close>

section \<open>A new file written through the virtual machine\<close>

text \<open>
  C1: Integrity of a new file. Whatever service stores the file (each method is an arbitrary
  function over an arbitrary state), if a sequence of writes and resizes of a fresh
  \<open>VerifiedFileEditor\<close> reports success, then the fs-verity digest it computes is the digest of
  the bytes the trusted side wrote. The service must not answer a read with a block other than
  the genuine one and with the same hash. The sequence cuts the file only at multiples of the
  chunk size (\<open>edits_verified\<close>): for a cut inside a chunk the code hashes what the service
  returns without checking it.
\<close>

theorem new_file_digest_of_written_bytes:
  assumes "sha256_lib ffi H" and "zero_hash_ok H" and "edits_verified [] es"
    and "\<not> forges H (served_blocks (RemoteFileEditor_read_chunk svc fd)) (pages_along [] es)"
    and "length (apply_edits es []) + 129 * CHUNK_SIZE < u64_limit"
    and "editor_edits dbg (RemoteFileEditor_read_chunk svc fd) (RemoteFileEditor_write_at svc fd)
      (RemoteFileEditor_resize svc fd) ffi fuel es (VerifiedFileEditor_new s) = (Ok (), st)"
  shows "editor_calculate_fsverity_digest False ffi st = Ok (fsverity_digest H (apply_edits es []))"
proof -
  have "represents H (merkle_tree (VerifiedFileEditor_new s)) []"
    by (simp add: VerifiedFileEditor_new_def represents_new)
  with assms have "represents H (merkle_tree st) (apply_edits es [])"
    by (intro editor_edits_represents)
  then show ?thesis
    using calculate_fsverity_digest_correct [OF assms(1) _ assms(5)]
    by (simp add: editor_calculate_fsverity_digest_def)
qed

lemma sample_rw_in_step:
  "editor_in_step sample_hash (served_content 1) (served_writable 1) (VerifiedFileEditor_new sample_rw) []"
  by (simp add: editor_in_step_def VerifiedFileEditor_new_def represents_new sample_rw_writable sample_rw_content)

lemma sample_pages_along: "pages_along [] [EditWrite 0 [1]] \<subseteq> {page [1] 0, zeros 4096}"
  using sample_pages by (auto simp: pwrite_def page_beyond CHUNK_SIZE_def)

theorem new_file_digest_of_written_bytes_witness:
  "\<exists>st. editor_edits True (RemoteFileEditor_read_chunk (fd_server True sample_ioctl) 1)
     (RemoteFileEditor_write_at (fd_server True sample_ioctl) 1)
     (RemoteFileEditor_resize (fd_server True sample_ioctl) 1) sample_ffi CHUNK_SIZE
     [EditWrite 0 [1]] (VerifiedFileEditor_new sample_rw) = (Ok (), st) \<and>
   editor_calculate_fsverity_digest False sample_ffi st = Ok (fsverity_digest sample_hash [1])"
proof -
  let ?rd = "RemoteFileEditor_read_chunk (fd_server True sample_ioctl) 1"
  obtain st where run: "editor_edits True ?rd (RemoteFileEditor_write_at (fd_server True sample_ioctl) 1)
      (RemoteFileEditor_resize (fd_server True sample_ioctl) 1) sample_ffi CHUNK_SIZE
      [EditWrite 0 [1]] (VerifiedFileEditor_new sample_rw) = (Ok (), st)"
    using remote_editor.editor_edits_ok [OF sample_lib sample_zero_hash order_refl sample_rw_in_step,
        of "[EditWrite 0 [1]]"]
    by (auto simp: RemoteFileEditor_read_chunk_def i64_max_def)
  have final: "apply_edits [EditWrite 0 [1]] [] = [1]"
    by (simp add: apply_edits_def pwrite_def)
  have "editor_calculate_fsverity_digest False sample_ffi st =
      Ok (fsverity_digest sample_hash (apply_edits [EditWrite 0 [1]] []))"
  proof (rule new_file_digest_of_written_bytes [OF sample_lib sample_zero_hash _ _ _ run])
    show "\<not> forges sample_hash (served_blocks ?rd) (pages_along [] [EditWrite 0 [1]])"
      by (rule sample_no_forgery [OF sample_pages_along])
  qed (simp_all add: final u64_limit_def CHUNK_SIZE_def)
  with run final show ?thesis by auto
qed

text \<open>
  C2: Refinement. On the service of the repository, with files whose system calls do not fail,
  every sequence of writes and resizes succeeds, the served file holds exactly the bytes of the
  byte-string specification \<open>apply_edits\<close>, and the Merkle tree in the virtual machine
  represents them.
\<close>

theorem editor_refines_byte_string:
  assumes "sha256_lib ffi H" and "zero_hash_ok H" and "CHUNK_SIZE \<le> fuel"
    and "editor_in_step H (served_content fid) (served_writable fid) st c"
    and "\<And>off buf. EditWrite off buf \<in> set es \<Longrightarrow> off + length buf \<le> i64_max"
    and "\<And>n. EditResize n \<in> set es \<Longrightarrow> n \<le> i64_max"
  shows "\<exists>st'. editor_edits dbg (RemoteFileEditor_read_chunk (fd_server dbg ioctl) fid)
      (RemoteFileEditor_write_at (fd_server dbg ioctl) fid)
      (RemoteFileEditor_resize (fd_server dbg ioctl) fid) ffi fuel es st = (Ok (), st') \<and>
    served_content fid (backing st') = apply_edits es c \<and> represents H (merkle_tree st') (apply_edits es c)"
  using remote_editor.editor_edits_ok [OF assms]
  by (fastforce simp: RemoteFileEditor_read_chunk_def editor_in_step_def)

theorem editor_refines_byte_string_witness:
  "\<exists>st'. editor_edits True (RemoteFileEditor_read_chunk (fd_server True sample_ioctl) 1)
     (RemoteFileEditor_write_at (fd_server True sample_ioctl) 1)
     (RemoteFileEditor_resize (fd_server True sample_ioctl) 1) sample_ffi CHUNK_SIZE
     [EditWrite 1 [7, 8], EditResize 2] (VerifiedFileEditor_new sample_rw) = (Ok (), st') \<and>
   served_content 1 (backing st') = [0, 7] \<and> represents sample_hash (merkle_tree st') [0, 7]"
proof -
  have "apply_edits [EditWrite 1 [7, 8], EditResize 2] [] = [0, 7]"
    by (simp add: apply_edits_def pwrite_def zeros_def resize_bytes_def vec_resize_def)
  then show ?thesis
    using editor_refines_byte_string [OF sample_lib sample_zero_hash order_refl sample_rw_in_step,
        of "[EditWrite 1 [7, 8], EditResize 2]" True sample_ioctl]
    by (simp add: i64_max_def)
qed

section \<open>A verified file read through the virtual machine\<close>

text \<open>
  C3: Integrity of a verified file. A reader is created for a signed file of contents \<open>c\<close>
  (the authenticator accepts the signature for the formatted digest of \<open>c\<close> only) and
  put into the file system. Whatever the service answers afterwards, if the FUSE handler
  \<open>read\<close> succeeds it has written exactly the requested range of \<open>c\<close>, and the
  announced size is the size of \<open>c\<close>, unless the service produces two blocks, or two
  descriptors, with the same hash.
\<close>

theorem verified_remote_read_genuine:
  assumes H: "sha256_lib ffi H" and n: "length c \<le> 2 ^ 61" and fs: "file_size < u64_limit" "off < u64_limit"
    and signed: "\<And>d. verify sig d = Ok True \<Longrightarrow> d = formatted_digest H (verity_root H c) (length c)"
    and nf_digest: "\<not> forges H ((\<lambda>b. fsverity_descriptor (H b) file_size) `
        served_blocks (RemoteMerkleTreeReader_read_chunk svc fd))
      {fsverity_descriptor (verity_root H c) (length c)}"
    and nf: "\<not> forges H (served_chunks (RemoteFileReader_read_chunk svc fd) \<union>
      served_blocks (RemoteMerkleTreeReader_read_chunk svc fd)) (verity_pages H c)"
    and new: "VerifiedFileReader_new verify (RemoteMerkleTreeReader_read_chunk svc fd) ffi file_size sig s
      = (Ok r, s1)"
    and pool: "file_pool st inode = Some (RemoteVerifiedReadonlyFile r fd file_size)"
    and res: "fs_read dbg svc ffi vec_write inode k off (st, []) = (Ok m, (st', v))"
  shows "file_size = length c \<and> m = min k (length c - off) \<and> v = take k (drop off c)"
proof -
  have "(2 :: nat) ^ 61 < u64_limit" by (simp add: u64_limit_def)
  with n have "length c < u64_limit" by linarith
  with H signed fs nf_digest new have r: "vr_file_size r = length c" "vr_root_hash r = verity_root H c"
    using remote_tree.VerifiedFileReader_new_sound [OF H _ _ _ _ new, of c]
    by (auto simp: build_fsverity_formatted_digest_hash [OF H])
  moreover have "file_size = length c"
    using VerifiedFileReader_new_file_size [OF new] r by simp
  moreover have "m = min k (length c - off) \<and> v = [] @ take k (drop off c)"
    by (rule fs_read_verified_sound [OF H n fs(2) _ r _ res])
       (use pool nf calculation(3) in \<open>simp_all add: RemoteFileReader_read_chunk_def [abs_def]\<close>)
  ultimately show ?thesis by simp
qed

definition sample_verify :: authenticator where
  "sample_verify sig d = Ok (d = formatted_digest sample_hash sample_root 1)"

lemma remote_verified_complete:
  assumes "sha256_lib ffi H" and "length c \<le> 2 ^ 61"
    and "vr_file_size r = length c" "vr_root_hash r = verity_root H c"
  shows "complete_reader (verified_read_chunk dbg (remote_read_chunk (fd_server dbg' ioctl) fid)
      (RemoteMerkleTreeReader_read_chunk (fd_server dbg' ioctl) fid) ffi r)
    (\<lambda>s. served_with_tree fid s \<and> served_tree fid s = tree_bytes H c \<and> served_content fid s = c) c"
  unfolding complete_reader_def
proof (intro allI impI, elim conjE)
  fix i s
  assume i: "i < num_chunks c" and s: "served_with_tree fid s" "served_tree fid s = tree_bytes H c"
    "served_content fid s = c"
  let ?d = "take CHUNK_SIZE (drop (CHUNK_SIZE * i) c)"
  have "?d @ drop (length ?d) (zeros CHUNK_SIZE) = page c i" by (rule chunk_is_page) (rule refl)
  moreover have "length ?d = min CHUNK_SIZE (length c - CHUNK_SIZE * i)" by simp
  ultimately show "\<exists>s'. verified_read_chunk dbg (remote_read_chunk (fd_server dbg' ioctl) fid)
      (RemoteMerkleTreeReader_read_chunk (fd_server dbg' ioctl) fid) ffi r i (zeros CHUNK_SIZE) s =
      (Ok (min CHUNK_SIZE (length c - CHUNK_SIZE * i), page c i), s') \<and>
      served_with_tree fid s' \<and> served_tree fid s' = tree_bytes H c \<and> served_content fid s' = c"
    using remote_verity.verified_read_chunk_complete [OF assms(1) i assms(2-4) s length_zeros refl,
        of dbg dbg' ioctl]
    by auto
qed

lemma sample_signed: "sample_verify sig (formatted_digest sample_hash (verity_root sample_hash [1]) (length [1 :: u8])) = Ok True"
  by (simp add: sample_verify_def sample_verity_root)

lemma fs_read_verified_complete:
  assumes H: "sha256_lib ffi H" and c: "length c \<le> 2 ^ 61" and off: "off < u64_limit"
    and s: "served_with_tree fid (remote st)" "served_tree fid (remote st) = tree_bytes H c"
      "served_content fid (remote st) = c"
    and pool: "file_pool st inode = Some (RemoteVerifiedReadonlyFile
      \<lparr>vr_file_size = length c, vr_root_hash = verity_root H c\<rparr> fid (length c))"
  shows "\<exists>st'. fs_read dbg (fd_server dbg' ioctl) ffi vec_write inode k off (st, []) =
      (Ok (min k (length c - off)), (st', take k (drop off c)))"
proof -
  let ?r = "\<lparr>vr_file_size = length c, vr_root_hash = verity_root H c\<rparr>"
  have "length c < u64_limit"
    using c by (simp add: u64_limit_def)
  then obtain s2 where "read_chunks vec_write (verified_read_chunk dbg (remote_read_chunk (fd_server dbg' ioctl) fid)
      (RemoteMerkleTreeReader_read_chunk (fd_server dbg' ioctl) fid) ffi ?r) (length c) off k (remote st, []) =
      (Ok (min k (length c - off)), (s2, take k (drop off c)))"
    using read_chunks_complete [OF remote_verified_complete [OF H c, of ?r dbg dbg' ioctl fid] _ off,
        of "remote st" k "[]"] s by auto
  with pool show ?thesis
    by (simp add: fs_read_def on_fst_def on_remote_def bind_prog_def RemoteFileReader_read_chunk_def [abs_def])
qed

lemma sample_verified_new:
  "\<exists>s1. VerifiedFileReader_new sample_verify
      (RemoteMerkleTreeReader_read_chunk (fd_server True sample_ioctl) 1) sample_ffi 1 [] sample_ro =
      (Ok \<lparr>vr_file_size = 1, vr_root_hash = sample_root\<rparr>, s1) \<and> served_with_tree 1 s1 \<and>
    served_tree 1 s1 = tree_bytes sample_hash [1] \<and> served_content 1 s1 = [1]"
  using remote_verity.VerifiedFileReader_new_complete [where verify = sample_verify and sig = "[]" and c = "[1]"
      and dbg = True and ioctl = sample_ioctl,
      OF sample_lib _ sample_signed sample_ro_with_tree sample_ro_tree sample_ro_content]
  by (simp add: sample_verity_root)

theorem verified_remote_read_genuine_witness:
  "\<exists>r s1 st'. VerifiedFileReader_new sample_verify
      (RemoteMerkleTreeReader_read_chunk (fd_server True sample_ioctl) 1) sample_ffi 1 [] sample_ro = (Ok r, s1) \<and>
    fs_read True (fd_server True sample_ioctl) sample_ffi vec_write 7 10 0
      (AuthFs_new [7 \<mapsto> RemoteVerifiedReadonlyFile r 1 1] 0 s1 Map.empty, []) = (Ok 1, (st', [1]))"
proof -
  let ?svc = "fd_server True sample_ioctl" and ?r = "\<lparr>vr_file_size = 1, vr_root_hash = sample_root\<rparr>"
  obtain s1 where new: "VerifiedFileReader_new sample_verify (RemoteMerkleTreeReader_read_chunk ?svc 1)
      sample_ffi 1 [] sample_ro = (Ok ?r, s1)" "served_with_tree 1 s1"
      "served_tree 1 s1 = tree_bytes sample_hash [1]" "served_content 1 s1 = [1]"
    using sample_verified_new by blast
  let ?st = "AuthFs_new [7 \<mapsto> RemoteVerifiedReadonlyFile ?r 1 1] 0 s1 Map.empty"
  have lim: "0 < u64_limit" "1 < u64_limit" by (simp_all add: u64_limit_def)
  obtain st' m v where run: "fs_read True ?svc sample_ffi vec_write 7 10 0 (?st, []) = (Ok m, (st', v))"
    using fs_read_verified_complete [OF sample_lib, of "[1]" 0 1 ?st 7 True True sample_ioctl 10] new lim
    by (auto simp: AuthFs_new_def sample_verity_root)
  have "1 = length [1 :: u8] \<and> m = min 10 (length [1 :: u8] - 0) \<and> v = take 10 (drop 0 [1])"
  proof (rule verified_remote_read_genuine [OF sample_lib _ lim(2,1) _ _ _ new(1) _ run])
    show "\<not> forges sample_hash ((\<lambda>b. fsverity_descriptor (sample_hash b) 1) `
          served_blocks (RemoteMerkleTreeReader_read_chunk ?svc 1))
        {fsverity_descriptor (verity_root sample_hash [1]) (length [1 :: u8])}"
      using sample_no_forged_descriptor by (simp add: sample_verity_root)
    show "\<not> forges sample_hash (served_chunks (RemoteFileReader_read_chunk ?svc 1) \<union>
        served_blocks (RemoteMerkleTreeReader_read_chunk ?svc 1)) (verity_pages sample_hash [1])"
      by (rule sample_no_forgery [OF sample_verity_pages])
  qed (simp_all add: sample_verify_def sample_verity_root AuthFs_new_def)
  with new(1) run show ?thesis by auto
qed

text \<open>
  C4: Availability of a verified file. On the service of the repository, serving a file with
  its fs-verity Merkle tree, the reader is created for an accepted signature and every FUSE
  read succeeds and returns the requested range.
\<close>

theorem verified_remote_read_succeeds:
  assumes H: "sha256_lib ffi H" and c: "c \<noteq> []" "length c \<le> 2 ^ 61" and off: "off < u64_limit"
    and signed: "verify sig (formatted_digest H (verity_root H c) (length c)) = Ok True"
    and s: "served_with_tree fid s" "served_tree fid s = tree_bytes H c" "served_content fid s = c"
  shows "\<exists>r s1 st'. VerifiedFileReader_new verify (RemoteMerkleTreeReader_read_chunk (fd_server dbg ioctl) fid)
      ffi (length c) sig s = (Ok r, s1) \<and>
    fs_read dbg (fd_server dbg ioctl) ffi vec_write inode k off
      (AuthFs_new [inode \<mapsto> RemoteVerifiedReadonlyFile r fid (length c)] mw s1 lf, []) =
      (Ok (min k (length c - off)), (st', take k (drop off c)))"
proof -
  obtain s1 where new: "VerifiedFileReader_new verify (RemoteMerkleTreeReader_read_chunk (fd_server dbg ioctl) fid)
      ffi (length c) sig s = (Ok \<lparr>vr_file_size = length c, vr_root_hash = verity_root H c\<rparr>, s1)"
    "served_with_tree fid s1" "served_tree fid s1 = tree_bytes H c" "served_content fid s1 = c"
    using remote_verity.VerifiedFileReader_new_complete [where verify = verify and sig = sig, OF H c(1) signed s]
    by blast
  then show ?thesis
    using fs_read_verified_complete [OF H c(2) off, of fid "AuthFs_new [inode \<mapsto> RemoteVerifiedReadonlyFile
        \<lparr>vr_file_size = length c, vr_root_hash = verity_root H c\<rparr> fid (length c)] mw s1 lf" inode dbg dbg ioctl k]
    by (auto simp: AuthFs_new_def)
qed

theorem verified_remote_read_succeeds_witness:
  "\<exists>r s1 st'. VerifiedFileReader_new sample_verify
      (RemoteMerkleTreeReader_read_chunk (fd_server True sample_ioctl) 1) sample_ffi 1 [] sample_ro = (Ok r, s1) \<and>
    fs_read True (fd_server True sample_ioctl) sample_ffi vec_write 7 10 0
      (AuthFs_new [7 \<mapsto> RemoteVerifiedReadonlyFile r 1 1] 0 s1 Map.empty, []) = (Ok 1, (st', [1]))"
proof -
  have "0 < u64_limit" by (simp add: u64_limit_def)
  then show ?thesis
    using verified_remote_read_succeeds [where verify = sample_verify and sig = "[]" and k = 10 and off = 0
        and inode = 7 and lf = Map.empty and mw = 0 and dbg = True and ioctl = sample_ioctl and c = "[1]",
        OF sample_lib _ _ _ sample_signed sample_ro_with_tree sample_ro_tree sample_ro_content]
    by simp
qed

section \<open>From the host's descriptors to the files of the virtual machine\<close>

lemma i64_fits_u64: "n \<le> int i64_max \<Longrightarrow> nat n < u64_limit"
  using i64_max_less_u64_limit by linarith

lemma inj_on_nat_fds: "list_all i32_fd fds \<Longrightarrow> inj_on nat (set fds)"
  by (rule inj_onI) (metis eq_nat_nat_iff i32_fd_def list_all_iff)

lemma metadata_fds:
  assumes "metadata_ok md"
  shows "list_all i32_fd (map in_fd (input_fd_annotations md) @ map out_fd (output_fd_annotations md))"
  using assms by (auto simp: metadata_ok_def list_all_iff i32_fd_def)

lemma fs_read_unverified_complete:
  assumes "file_pool st inode = Some (RemoteUnverifiedReadonlyFile fid (length c))"
    and "served_fine fid (remote st)" and "served_content fid (remote st) = c"
    and "length c < u64_limit" and "off < u64_limit"
  shows "\<exists>st'. fs_read dbg (fd_server dbg' ioctl) ffi vec_write inode k off (st, []) =
    (Ok (min k (length c - off)), (st', take k (drop off c)))"
proof -
  obtain s2 where "read_chunks vec_write (remote_read_chunk (fd_server dbg' ioctl) fid) (length c) off k
      (remote st, []) = (Ok (min k (length c - off)), (s2, take k (drop off c)))"
    using read_chunks_complete [OF remote_reader.complete_content assms(4,5), of fid "remote st" dbg' ioctl k "[]"]
      assms(2,3) by auto
  with assms(1) show ?thesis
    by (simp add: fs_read_def on_fst_def on_remote_def bind_prog_def RemoteFileReader_read_chunk_def [abs_def])
qed

lemma served_by_parse_args:
  assumes "fd_pool s fd = Some config" and "config_file config = fd" and "fds_fine fds cont s" and "fd \<in> set fds"
  shows "served_fine fd s" "served_content fd s = cont fd"
  using assms by (auto simp: served_fine_def served_content_def fds_fine_def)

text \<open>The hops inside the virtual machine.\<close>

lemma authfs_pool_for:
  assumes clap: "clap_items clap" and md: "metadata_ok md"
    and dist: "distinct (map in_fd (input_fd_annotations md) @ map out_fd (output_fd_annotations md))"
    and argv: "build_worker_args cs args md = (Ok argv :: (string list, Status) outcome)"
  shows "\<exists>config a pool. worker_parse_args clap argv = Ok config \<and>
    Args_from_args clap (authfs_args config) = Ok a \<and>
    args_mount_point a = AUTHFS_MOUNTPOINT \<and> authfs_root config = AUTHFS_MOUNTPOINT \<and>
    prepare_file_pool dbg svc ffi a s = (Ok pool, s) \<and>
    (\<forall>x\<in>set (input_fd_annotations md).
       pool (nat (in_fd x)) = Some (RemoteUnverifiedReadonlyFile (in_fd x) (nat (in_file_size x)))) \<and>
    (\<forall>x\<in>set (output_fd_annotations md).
       pool (nat (out_fd x)) = Some (RemoteVerifiedNewFile (out_fd x) MerkleLeaves_new))"
proof -
  let ?I = "input_fd_annotations md" and ?O = "output_fd_annotations md"
  let ?u = "map (\<lambda>x. \<lparr>rru_ino = nat (in_fd x), rru_remote_id = in_fd x, rru_file_size = nat (in_file_size x)\<rparr>) ?I"
    and ?w = "map (\<lambda>x. \<lparr>rrw_ino = nat (out_fd x), rrw_remote_id = out_fd x\<rparr>) ?O"
  let ?a = "\<lparr>args_mount_point = AUTHFS_MOUNTPOINT, remote_ro_file = [], remote_ro_file_unverified = ?u,
      remote_new_rw_file = ?w, local_ro_file = [], local_ro_file_unverified = [], args_debug = False\<rparr>"
  obtain config where config: "worker_parse_args clap argv = Ok config" "authfs_root config = AUTHFS_MOUNTPOINT"
    "in_fds config = map (\<lambda>x. \<lparr>conf_in_fd = in_fd x, conf_file_size = nat (in_file_size x)\<rparr>) ?I"
    "out_fds config = map (\<lambda>x. \<lparr>conf_out_fd = out_fd x\<rparr>) ?O"
    by (simp add: worker_parse_args_for [OF clap md argv])
  have "config_ok config"
    using md by (auto simp: config_ok_def config(3,4) metadata_ok_def list_all_iff intro: i64_fits_u64)
  moreover have "plain (authfs_root config)" by (simp add: config(2) plain_def AUTHFS_MOUNTPOINT_def)
  ultimately have cli: "Args_from_args clap (authfs_args config) = Ok ?a"
    using Args_from_args_for [OF clap] config(2-4) by (simp add: comp_def)
  have "map rru_ino ?u @ map rrw_ino ?w = map nat (map in_fd ?I @ map out_fd ?O)" by (simp add: comp_def)
  then have "distinct (map rru_ino ?u @ map rrw_ino ?w)"
    using inj_on_nat_fds [OF metadata_fds [OF md]] dist by (simp only: distinct_map)
  then obtain pool where "prepare_file_pool dbg svc ffi ?a s = (Ok pool, s)"
    "\<forall>c\<in>set ?u. pool (rru_ino c) = Some (RemoteUnverifiedReadonlyFile (rru_remote_id c) (rru_file_size c))"
    "\<forall>c\<in>set ?w. pool (rrw_ino c) = Some (RemoteVerifiedNewFile (rrw_remote_id c) MerkleLeaves_new)"
    using prepare_file_pool_for [OF refl, of ?u ?w dbg svc ffi AUTHFS_MOUNTPOINT False s] by blast
  with config(1,2) cli show ?thesis by auto
qed

lemma fd_server_pool_for:
  assumes clap: "clap_items clap" and md: "metadata_ok md"
    and dist: "distinct (map in_fd (input_fd_annotations md) @ map out_fd (output_fd_annotations md))"
    and ins: "fds_fine (map in_fd (input_fd_annotations md)) cont host"
    and outs: "fds_fine (map out_fd (output_fd_annotations md)) (\<lambda>_. []) host"
  shows "\<exists>s. fd_server_parse_args clap (fd_server_args md) host = (Ok (), s) \<and>
    fd_pool s = insert_fds ReadWrite (map out_fd (output_fd_annotations md))
      (insert_fds (\<lambda>fd. Readonly fd None None) (map in_fd (input_fd_annotations md)) Map.empty) \<and>
    fds_fine (map in_fd (input_fd_annotations md)) cont s \<and> fds_fine (map out_fd (output_fd_annotations md)) (\<lambda>_. []) s"
  using insert_fd_args_pool [OF dist metadata_fds [OF md] ins outs]
    fd_server_parse_args_line [OF clap metadata_fds [OF md], of FD_SERVER_BIN]
  by (simp add: fd_server_args_def comp_def)

text \<open>
  C12: Descriptor plumbing, end to end. \<open>pvm_exec\<close> starts \<open>fd_server\<close> on its descriptors and
  sends their annotations to \<open>compsvc\<close>, which starts the worker, which starts \<open>authfs\<close>; every
  hop writes a command line, which the next program has clap split and parses back. For a request with
  arguments, distinct descriptors, inputs of the announced sizes and empty outputs, all hops
  succeed; reading file \<open>fd\<close> of the mounted file system returns the bytes of the host's descriptor
  \<open>fd\<close>; and every output is a new verified file backed by the host's descriptor of that number. clap has
  to find the values of declared options where they were written (\<open>clap_items\<close>).
\<close>

theorem compos_descriptor_plumbing:
  assumes clap: "clap_items clap" and md: "metadata_ok md"
    and dist: "distinct (map in_fd (input_fd_annotations md) @ map out_fd (output_fd_annotations md))"
    and ins: "fds_fine (map in_fd (input_fd_annotations md)) cont host"
    and outs: "fds_fine (map out_fd (output_fd_annotations md)) (\<lambda>_. []) host"
    and size: "\<And>x. x \<in> set (input_fd_annotations md) \<Longrightarrow> in_file_size x = int (length (cont (in_fd x)))"
    and off: "off < u64_limit" and args: "args \<noteq> []"
  shows "\<exists>s worker_args config a pool.
    fd_server_parse_args clap (fd_server_args md) host = (Ok (), s) \<and>
    build_worker_args cs args md = (Ok worker_args :: (string list, Status) outcome) \<and>
    worker_parse_args clap worker_args = Ok config \<and>
    Args_from_args clap (authfs_args config) = Ok a \<and> args_mount_point a = authfs_root config \<and>
    prepare_file_pool dbg (fd_server dbg ioctl) ffi a (s, lf) = (Ok pool, (s, lf)) \<and>
    (\<forall>x\<in>set (input_fd_annotations md). \<exists>st'.
       fs_read dbg (fd_server dbg ioctl) ffi vec_write (nat (in_fd x)) k off (AuthFs_new pool mw s lf, []) =
       (Ok (min k (length (cont (in_fd x)) - off)), (st', take k (drop off (cont (in_fd x)))))) \<and>
    (\<forall>x\<in>set (output_fd_annotations md).
       pool (nat (out_fd x)) = Some (RemoteVerifiedNewFile (out_fd x) MerkleLeaves_new) \<and>
       served_writable (out_fd x) s \<and> served_content (out_fd x) s = [])"
proof -
  let ?I = "input_fd_annotations md" and ?O = "output_fd_annotations md"
  obtain s where s: "fd_server_parse_args clap (fd_server_args md) host = (Ok (), s)"
    "fd_pool s = insert_fds ReadWrite (map out_fd ?O) (insert_fds (\<lambda>fd. Readonly fd None None) (map in_fd ?I) Map.empty)"
    "fds_fine (map in_fd ?I) cont s" "fds_fine (map out_fd ?O) (\<lambda>_. []) s"
    using fd_server_pool_for [OF clap md dist ins outs] by blast
  obtain wa where wa: "build_worker_args cs args md = (Ok wa :: (string list, Status) outcome)"
    using args by (cases args) (simp_all add: build_worker_args_def slice_range_def)
  obtain config a pool where vm: "worker_parse_args clap wa = Ok config" "Args_from_args clap (authfs_args config) = Ok a"
    "args_mount_point a = authfs_root config" "prepare_file_pool dbg (fd_server dbg ioctl) ffi a (s, lf) = (Ok pool, (s, lf))"
    "\<forall>x\<in>set ?I. pool (nat (in_fd x)) = Some (RemoteUnverifiedReadonlyFile (in_fd x) (nat (in_file_size x)))"
    "\<forall>x\<in>set ?O. pool (nat (out_fd x)) = Some (RemoteVerifiedNewFile (out_fd x) MerkleLeaves_new)"
    using authfs_pool_for [OF clap md dist wa, of dbg "fd_server dbg ioctl" ffi "(s, lf)"] by metis
  have read: "\<exists>st'. fs_read dbg (fd_server dbg ioctl) ffi vec_write (nat (in_fd x)) k off (AuthFs_new pool mw s lf, []) =
      (Ok (min k (length (cont (in_fd x)) - off)), (st', take k (drop off (cont (in_fd x)))))" if "x \<in> set ?I" for x
  proof (rule fs_read_unverified_complete [where fid = "in_fd x"])
    have "fd_pool s (in_fd x) = Some (Readonly (in_fd x) None None)"
      using that dist s(2) by (force simp: insert_fds_def)
    then show "served_fine (in_fd x) (remote (AuthFs_new pool mw s lf))"
      "served_content (in_fd x) (remote (AuthFs_new pool mw s lf)) = cont (in_fd x)"
      using served_by_parse_args [OF _ _ s(3)] that by (auto simp: AuthFs_new_def config_file_def)
    show "length (cont (in_fd x)) < u64_limit"
      using md that size [OF that] i64_max_less_u64_limit by (auto simp: metadata_ok_def list_all_iff)
    show "file_pool (AuthFs_new pool mw s lf) (nat (in_fd x)) =
        Some (RemoteUnverifiedReadonlyFile (in_fd x) (length (cont (in_fd x))))"
      using vm(5) that size [OF that] by (auto simp: AuthFs_new_def)
  qed (rule off)
  have "served_writable (out_fd x) s \<and> served_content (out_fd x) s = []" if "x \<in> set ?O" for x
  proof -
    have "fd_pool s (out_fd x) = Some (ReadWrite (out_fd x))"
      using that s(2) by (auto simp: insert_fds_def)
    then show ?thesis
      using served_by_parse_args [OF _ _ s(4), of "out_fd x"] that
      by (auto simp: served_writable_def config_file_def)
  qed
  with s(1) wa vm(1-4,6) read show ?thesis by blast
qed

definition sample_metadata :: Metadata where
  "sample_metadata =
     \<lparr>input_fd_annotations = [\<lparr>in_fd = 5, in_file_size = 3\<rparr>], output_fd_annotations = [\<lparr>out_fd = 6\<rparr>]\<rparr>"

definition sample_host :: FdService where
  "sample_host =
     \<lparr>fd_pool = Map.empty,
      open_files = [5 \<mapsto> \<lparr>contents = [10, 20, 30], schedule = []\<rparr>, 6 \<mapsto> \<lparr>contents = [], schedule = []\<rparr>]\<rparr>"

theorem compos_descriptor_plumbing_witness:
  "\<exists>s worker_args config a pool.
    fd_server_parse_args long_options (fd_server_args sample_metadata) sample_host = (Ok (), s) \<and>
    build_worker_args (compsvc_parse_args ''t'' False) [''x''] sample_metadata = (Ok worker_args :: (string list, Status) outcome) \<and>
    worker_parse_args long_options worker_args = Ok config \<and>
    Args_from_args long_options (authfs_args config) = Ok a \<and> args_mount_point a = authfs_root config \<and>
    prepare_file_pool True (fd_server True sample_ioctl) sample_ffi a (s, Map.empty) = (Ok pool, (s, Map.empty)) \<and>
    (\<exists>st'. fs_read True (fd_server True sample_ioctl) sample_ffi vec_write 5 10 1 (AuthFs_new pool 0 s Map.empty, [])
      = (Ok 2, (st', [20, 30]))) \<and>
    pool 6 = Some (RemoteVerifiedNewFile 6 MerkleLeaves_new)"
proof -
  have md: "input_fd_annotations sample_metadata = [\<lparr>in_fd = 5, in_file_size = 3\<rparr>]"
    "output_fd_annotations sample_metadata = [\<lparr>out_fd = 6\<rparr>]" by (simp_all add: sample_metadata_def)
  have "fds_fine [5] (\<lambda>_. [10, 20, 30]) sample_host" "fds_fine [6] (\<lambda>_. []) sample_host"
    by (simp_all add: fds_fine_def sample_host_def file_fine_def benign_def i64_max_def)
  moreover have "metadata_ok sample_metadata"
    by (simp add: metadata_ok_def sample_metadata_def i32_max_def i64_max_def)
  moreover have "1 < u64_limit" by (simp add: u64_limit_def)
  ultimately show ?thesis
    using compos_descriptor_plumbing [where clap = long_options and md = sample_metadata and host = sample_host
        and cont = "\<lambda>_. [10, 20, 30]" and off = 1 and k = 10 and dbg = True and ioctl = sample_ioctl and ffi = sample_ffi
        and lf = Map.empty and mw = 0 and cs = "compsvc_parse_args ''t'' False" and args = "[''x'']"]
    by (simp add: md clap_items_long_options numeral_2_eq_2) blast
qed

end
